(* ===== verification/Prelude.thy ===== *)
theory Prelude
  imports Main "HOL-Library.Word" "HOL-Library.Sublist" "HOL-Library.Monad_Syntax"
begin

text \<open>
  What the components share: bytes and byte strings, the big-endian integers of the record and
  handshake formats (\<open>binary.BigEndian\<close> and the shifts written out in the code), checked indexing
  and slicing (a Go run-time panic is the value \<open>None\<close>), the substring search the packages carry
  locally, and the fact collections \<open>wire\<close> (framing and integers) and \<open>panic\<close> (checked accesses).
\<close>

section \<open>Bytes and fact collections\<close>

type_synonym byte = "8 word"
type_synonym bytes = "byte list"
type_synonym u16 = "16 word"

named_theorems wire "length and decoding facts of the wire formats"
named_theorems panic "facts that discharge the bounds checks of slice accesses"

section \<open>Big-endian integers\<close>

text \<open>
  \<open>put16 n\<close> is \<open>PutUint16(b, uint16(n))\<close>, which the code also writes as
  \<open>byte(n >> 8), byte(n)\<close>; \<open>put24\<close> is the three-byte length of a handshake header;
  \<open>put64\<close> is \<open>PutUint64\<close>. The conversions drop the high bits, as Go's do.
\<close>

definition put16 :: "nat \<Rightarrow> bytes" where
  "put16 n = [of_nat (n div 256), of_nat n]"

definition put24 :: "nat \<Rightarrow> bytes" where
  "put24 n = [of_nat (n div 65536), of_nat (n div 256), of_nat n]"

definition put64 :: "64 word \<Rightarrow> bytes" where
  "put64 w = map (\<lambda>i. ucast (drop_bit (8 * i) w)) [7, 6, 5, 4, 3, 2, 1, 0]"

definition get16 :: "byte \<Rightarrow> byte \<Rightarrow> nat" where
  "get16 a b = unat a * 256 + unat b"

definition get24 :: "byte \<Rightarrow> byte \<Rightarrow> byte \<Rightarrow> nat" where
  "get24 a b c = unat a * 65536 + unat b * 256 + unat c"

lemma length_put16 [simp, wire]: "length (put16 n) = 2"
  by (simp add: put16_def)

lemma length_put24 [simp, wire]: "length (put24 n) = 3"
  by (simp add: put24_def)

lemma length_put64 [simp, wire]: "length (put64 w) = 8"
  by (simp add: put64_def)

lemma unat_byte_of_nat [simp, wire]: "unat (of_nat n :: byte) = n mod 256"
  by (simp add: unat_of_nat)

lemma unat_byte_less: "unat (b :: byte) < 256"
  using unsigned_less [of b] by simp

lemma get16_less: "get16 a b < 65536"
  using unat_byte_less [of a] unat_byte_less [of b] by (simp add: get16_def)

lemma get24_less: "get24 a b c < 16777216"
  using unat_byte_less [of a] unat_byte_less [of b] unat_byte_less [of c]
  by (simp add: get24_def)

lemma get16_put16 [wire]: "get16 (of_nat (n div 256)) (of_nat n) = n mod 65536"
proof -
  have "n mod 65536 = (n div 256) mod 256 * 256 + n mod 256"
    using mod_mult2_eq [of n 256 256] by simp
  then show ?thesis by (simp add: get16_def)
qed

lemma get24_put24 [wire]:
  "get24 (of_nat (n div 65536)) (of_nat (n div 256)) (of_nat n) = n mod 16777216"
proof -
  have "n mod 16777216 = 256 * ((n div 256) mod 65536) + n mod 256"
    using mod_mult2_eq [of n 256 65536] by simp
  moreover have "(n div 256) mod 65536 = 256 * ((n div 65536) mod 256) + (n div 256) mod 256"
    using mod_mult2_eq [of "n div 256" 256 256] by (simp add: div_mult2_eq [symmetric])
  ultimately show ?thesis by (simp add: get24_def)
qed

lemma put16_get16: "put16 (get16 a b) = [a, b]"
proof -
  have "(unat a * 256 + unat b) div 256 = unat a"
    using unat_byte_less [of b] by simp
  moreover have "of_nat (unat a * 256 + unat b) = b"
  proof -
    have "(256 :: byte) = 0" by (rule word_uint_eqI) simp
    then have "a * 256 + b = b" by (simp only: mult_zero_right add_0)
    then show ?thesis by simp
  qed
  ultimately show ?thesis by (simp add: put16_def get16_def)
qed

lemma get16_pos [simp]: "0 < get16 a b \<longleftrightarrow> a \<noteq> 0 \<or> b \<noteq> 0"
  by (simp add: get16_def unat_gt_0)

lemma get16_eq_0 [simp]: "get16 a b = 0 \<longleftrightarrow> a = 0 \<and> b = 0"
  by (simp add: get16_def unat_eq_0)

lemma get16_eq_iff:
  assumes "n < 65536"
  shows "get16 a b = n \<longleftrightarrow> a = of_nat (n div 256) \<and> b = of_nat n"
proof
  assume "get16 a b = n"
  with put16_get16 [of a b] show "a = of_nat (n div 256) \<and> b = of_nat n" by (simp add: put16_def)
next
  assume "a = of_nat (n div 256) \<and> b = of_nat n"
  with get16_put16 [of n] assms show "get16 a b = n" by simp
qed

lemma get16_eq_0x0300: "get16 a b = 0x0300 \<longleftrightarrow> a = 3 \<and> b = 0"
proof -
  have z: "(of_nat 0x0300 :: byte) = 0" by (rule word_uint_eqI) simp
  have "get16 a b = 0x0300 \<longleftrightarrow> a = of_nat (0x0300 div 256) \<and> b = of_nat 0x0300"
    by (rule get16_eq_iff) simp
  then show ?thesis unfolding z by simp
qed

text \<open>The two masks of the SSLv2 header.\<close>

lemma unat_and_0x7f: "unat (and (a :: byte) 0x7f) = unat a mod 128"
proof -
  have "(0x7f :: byte) = mask 7" by (simp add: mask_eq_exp_minus_1)
  then have "and a 0x7f = take_bit 7 a" by (simp only: take_bit_eq_mask)
  then have "unat (and a 0x7f) = take_bit 7 (unat a)" by (simp only: unsigned_take_bit_eq)
  then show ?thesis by (simp add: take_bit_eq_mod)
qed

lemma and_0x80: "and (a :: byte) 0x80 = 0 \<longleftrightarrow> unat a < 128"
proof -
  have "(0x80 :: byte) = push_bit 7 1" by simp
  then have "and a 0x80 = 0 \<longleftrightarrow> \<not> bit a 7"
    by (metis and_exp_eq_0_iff_not_bit push_bit_of_1)
  also have "\<dots> \<longleftrightarrow> \<not> bit (unat a) 7" by (simp add: bit_unsigned_iff)
  also have "\<dots> \<longleftrightarrow> even (unat a div 128)" by (simp add: bit_iff_odd)
  also have "\<dots> \<longleftrightarrow> unat a < 128"
  proof -
    have "unat a div 128 < 2" using unat_byte_less [of a] by linarith
    then have "unat a div 128 = 0 \<or> unat a div 128 = 1" by linarith
    then show ?thesis by (auto simp: div_eq_0_iff)
  qed
  finally show ?thesis .
qed

lemma append_prefix:
  "buf @ later = m @ r \<Longrightarrow> length m \<le> length buf \<Longrightarrow> buf = m @ drop (length m) buf"
  by (auto simp: append_eq_append_conv2)

section \<open>Checked accesses\<close>

text \<open>
  \<open>xs[i]\<close> and \<open>xs[i:j]\<close> panic outside the bounds; here they are \<open>None\<close>. (Go bounds a slice of a
  slice by its capacity, which is at least its length: an access that is fine here is fine there.)
\<close>

definition idx :: "'a list \<Rightarrow> nat \<Rightarrow> 'a option" where
  "idx xs i = (if i < length xs then Some (xs ! i) else None)"

definition slice :: "'a list \<Rightarrow> nat \<Rightarrow> nat \<Rightarrow> 'a list option" where
  "slice xs i j = (if i \<le> j \<and> j \<le> length xs then Some (take (j - i) (drop i xs)) else None)"

definition idx16 :: "bytes \<Rightarrow> nat \<Rightarrow> nat option" where
  "idx16 xs p = do { a \<leftarrow> idx xs p; b \<leftarrow> idx xs (p + 1); Some (get16 a b) }"

definition idx24 :: "bytes \<Rightarrow> nat \<Rightarrow> nat option" where
  "idx24 xs p = do { a \<leftarrow> idx xs p; b \<leftarrow> idx xs (p + 1); c \<leftarrow> idx xs (p + 2);
                    Some (get24 a b c) }"

lemma idx_Some [panic]: "i < length xs \<Longrightarrow> idx xs i = Some (xs ! i)"
  by (simp add: idx_def)

lemma slice_Some [panic]:
  "i \<le> j \<Longrightarrow> j \<le> length xs \<Longrightarrow> slice xs i j = Some (take (j - i) (drop i xs))"
  by (simp add: slice_def)

lemma idx16_Some [panic]:
  "p + 1 < length xs \<Longrightarrow> idx16 xs p = Some (get16 (xs ! p) (xs ! (p + 1)))"
  by (simp add: idx16_def idx_def)

lemma idx24_Some [panic]:
  "p + 2 < length xs \<Longrightarrow> idx24 xs p = Some (get24 (xs ! p) (xs ! (p + 1)) (xs ! (p + 2)))"
  by (simp add: idx24_def idx_def)

lemma length_slice: "slice xs i j = Some ys \<Longrightarrow> length ys = j - i"
  by (auto simp: slice_def split: if_splits)

section \<open>Substring search\<close>

text \<open>
  \<open>indexOf\<close> of pkg/tlsscan/vulns.go: the first position at which the substring starts, or -1. The
  loop runs while \<open>i + len(substr) \<le> len(s)\<close>.
\<close>

function indexOf_from :: "nat \<Rightarrow> 'a list \<Rightarrow> 'a list \<Rightarrow> int" where
  "indexOf_from i s sub =
     (if i + length sub \<le> length s
      then if take (length sub) (drop i s) = sub then int i else indexOf_from (Suc i) s sub
      else -1)"
  by pat_completeness auto
termination
  by (relation "measure (\<lambda>(i, s, sub). Suc (length s) - i)") auto

declare indexOf_from.simps [simp del]

definition indexOf :: "'a list \<Rightarrow> 'a list \<Rightarrow> int" where
  "indexOf s sub = indexOf_from 0 s sub"

text \<open>\<open>containsSubstr\<close> of internal/handshake/robot.go: the same loop, answering a boolean.\<close>

function containsSubstr_from :: "nat \<Rightarrow> 'a list \<Rightarrow> 'a list \<Rightarrow> bool" where
  "containsSubstr_from i s sub =
     (if i + length sub \<le> length s
      then if take (length sub) (drop i s) = sub then True else containsSubstr_from (Suc i) s sub
      else False)"
  by pat_completeness auto
termination
  by (relation "measure (\<lambda>(i, s, sub). Suc (length s) - i)") auto

declare containsSubstr_from.simps [simp del]

definition containsSubstr :: "'a list \<Rightarrow> 'a list \<Rightarrow> bool" where
  "containsSubstr s sub = containsSubstr_from 0 s sub"

definition occurs_at :: "'a list \<Rightarrow> nat \<Rightarrow> 'a list \<Rightarrow> bool" where
  "occurs_at s i sub \<longleftrightarrow> i + length sub \<le> length s \<and> take (length sub) (drop i s) = sub"

lemma containsSubstr_from_iff:
  "containsSubstr_from i s sub \<longleftrightarrow> (\<exists>k. i \<le> k \<and> occurs_at s k sub)"
proof (induction i s sub rule: containsSubstr_from.induct)
  case (1 i s sub)
  show ?case
  proof (cases "i + length sub \<le> length s \<and> take (length sub) (drop i s) \<noteq> sub")
    case True
    then have no: "\<not> occurs_at s i sub" by (simp add: occurs_at_def)
    have "containsSubstr_from i s sub \<longleftrightarrow> (\<exists>k. Suc i \<le> k \<and> occurs_at s k sub)"
      using True "1.IH" by (simp add: containsSubstr_from.simps [of i])
    with no show ?thesis by (metis Suc_leI Suc_leD le_neq_implies_less)
  next
    case False
    then show ?thesis
      by (auto simp: containsSubstr_from.simps [of i] occurs_at_def)
  qed
qed

lemma containsSubstr_iff: "containsSubstr s sub \<longleftrightarrow> (\<exists>k. occurs_at s k sub)"
  by (simp add: containsSubstr_def containsSubstr_from_iff)

lemma indexOf_from_nonneg: "0 \<le> indexOf_from i s sub \<longleftrightarrow> containsSubstr_from i s sub"
proof (induction i s sub rule: indexOf_from.induct)
  case (1 i s sub)
  then show ?case
    by (auto simp: indexOf_from.simps [of i] containsSubstr_from.simps [of i])
qed

lemma indexOf_nonneg: "0 \<le> indexOf s sub \<longleftrightarrow> containsSubstr s sub"
  by (simp add: indexOf_def containsSubstr_def indexOf_from_nonneg)

lemma containsSubstr_sublist: "containsSubstr s sub \<longleftrightarrow> sublist sub s"
proof
  assume "containsSubstr s sub"
  then obtain k where k: "k + length sub \<le> length s" "take (length sub) (drop k s) = sub"
    by (auto simp: containsSubstr_iff occurs_at_def)
  then have "s = take k s @ sub @ drop (length sub) (drop k s)" by (metis append_take_drop_id)
  then show "sublist sub s" by (metis sublist_def)
next
  assume "sublist sub s"
  then obtain xs ys where "s = xs @ sub @ ys" by (auto simp: sublist_def)
  then have "occurs_at s (length xs) sub" by (simp add: occurs_at_def)
  then show "containsSubstr s sub" by (auto simp: containsSubstr_iff)
qed

text \<open>Reading at a known place of a message that was put together.\<close>

lemma idx_at: "idx (xs @ y # ys) (length xs) = Some y"
  by (simp add: idx_def)

lemma idx16_at: "idx16 (xs @ put16 n @ ys) (length xs) = Some (n mod 65536)"
  using get16_put16 [of n] by (simp add: idx16_def idx_def put16_def nth_append)

lemma idx24_at: "idx24 (xs @ put24 n @ ys) (length xs) = Some (n mod 16777216)"
  using get24_put24 [of n] by (simp add: idx24_def idx_def put24_def nth_append)

lemma slice_at: "slice (xs @ ys @ zs) (length xs) (length xs + length ys) = Some ys"
  by (simp add: slice_def)

section \<open>Durations\<close>

text \<open>
  \<open>time.Duration\<close> counts nanoseconds in an \<open>int64\<close>. Durations are integers here;
  \<open>wrap64\<close> is the two's complement wrap-around, written where a product can overflow.
\<close>

definition wrap64 :: "int \<Rightarrow> int" where
  "wrap64 x = (x + 2 ^ 63) mod 2 ^ 64 - 2 ^ 63"

definition millisecond :: int where "millisecond = 1000000"
definition second :: int where "second = 1000000000"

lemma wrap64_id: "- (2 ^ 63) \<le> x \<Longrightarrow> x < 2 ^ 63 \<Longrightarrow> wrap64 x = x"
  by (simp add: wrap64_def)

lemma second_pos [simp]: "0 < second" "min second (4 * second) = second"
  by (simp_all add: second_def)

end
