(* ===== verification/Net.thy ===== *)
theory Net
  imports Prelude
begin

text \<open>
  The part of Go's \<open>net\<close>, \<open>time\<close>, \<open>context\<close> and \<open>crypto/rand\<close> packages that every probe drives,
  with the remote host as an arbitrary environment, and \<open>readFull\<close> of internal/handshake/legacy.go.

  A \<open>world\<close> is what one scan sees: the clock, what each successive dial meets, the random source,
  and the number of open connections. A \<open>peer\<close> decides what the bytes written so far make it send:
  a list of segments, each with a delay, data and possibly an error delivered with its last byte. A
  \<open>conn\<close> is a \<open>net.Conn\<close>: the peer, the writes so far, the segments on their way, the clock and the
  two deadlines (all times are nanoseconds). A read waits for the next segment or for its deadline,
  whichever comes first; data is split and joined by reads as TCP splits and joins it.
\<close>

section \<open>Errors, peers, connections, the world\<close>

text \<open>A Go \<open>error\<close>: whether it is a \<open>net.Error\<close> with \<open>Timeout()\<close> true, and its message.\<close>

record net_err =
  ne_timeout :: bool
  ne_msg :: string

definition err_timeout :: net_err where
  "err_timeout = \<lparr>ne_timeout = True, ne_msg = ''i/o timeout''\<rparr>"

definition err_eof :: net_err where
  "err_eof = \<lparr>ne_timeout = False, ne_msg = ''EOF''\<rparr>"

record seg =
  sg_delay :: nat
  sg_data :: bytes
  sg_err :: "net_err option"

record peer =
  p_werr :: "bytes list \<Rightarrow> net_err option"
  p_react :: "bytes list \<Rightarrow> seg list"

type_synonym arrival = "int \<times> bytes \<times> net_err option"

record conn =
  c_peer :: peer
  c_sent :: "bytes list"
  c_in :: "arrival list"
  c_now :: int
  c_rdl :: "int option"
  c_wdl :: "int option"

datatype dial_outcome = Refused nat net_err | Accepted nat peer

record world =
  w_now :: int
  w_net :: "nat \<Rightarrow> dial_outcome"
  w_dials :: nat
  w_open :: int
  w_rand :: "nat \<Rightarrow> (nat \<Rightarrow> byte) option"
  w_rands :: nat

section \<open>Operations of a connection\<close>

definition expired :: "int option \<Rightarrow> int \<Rightarrow> bool" where
  "expired dl t = (case dl of None \<Rightarrow> False | Some d \<Rightarrow> d \<le> t)"

definition enqueue :: "int \<Rightarrow> seg list \<Rightarrow> arrival list" where
  "enqueue t segs = map (\<lambda>s. (t + int (sg_delay s), sg_data s, sg_err s)) segs"

text \<open>
  \<open>conn.Read(buf)\<close> with \<open>len(buf) = n\<close>. With no deadline and nothing more to come, the peer is taken
  to have closed; the code reads only after setting a deadline.
\<close>

fun conn_read :: "nat \<Rightarrow> conn \<Rightarrow> (bytes \<times> net_err option) \<times> conn" where
  "conn_read n c =
     (if n = 0 then (([], None), c)
      else if expired (c_rdl c) (c_now c) then (([], Some err_timeout), c)
      else case c_in c of
             [] \<Rightarrow> (case c_rdl c of
                      None \<Rightarrow> (([], Some err_eof), c)
                    | Some d \<Rightarrow> (([], Some err_timeout), c\<lparr>c_now := d\<rparr>))
           | (a, bs, eo) # q \<Rightarrow>
               (if expired (c_rdl c) a
                then (([], Some err_timeout), c\<lparr>c_now := the (c_rdl c)\<rparr>)
                else if n < length bs
                then ((take n bs, None),
                      c\<lparr>c_now := max (c_now c) a, c_in := (a, drop n bs, eo) # q\<rparr>)
                else ((bs, eo), c\<lparr>c_now := max (c_now c) a, c_in := q\<rparr>)))"

declare conn_read.simps [simp del]

text \<open>\<open>conn.Write(bs)\<close>: the error, if any. A write that succeeds makes the peer react.\<close>

definition conn_write :: "bytes \<Rightarrow> conn \<Rightarrow> net_err option \<times> conn" where
  "conn_write bs c =
     (if expired (c_wdl c) (c_now c) then (Some err_timeout, c)
      else let sent = c_sent c @ [bs] in
           case p_werr (c_peer c) sent of
             Some e \<Rightarrow> (Some e, c)
           | None \<Rightarrow> (None, c\<lparr>c_sent := sent,
                             c_in := c_in c @ enqueue (c_now c) (p_react (c_peer c) sent)\<rparr>))"

text \<open>\<open>conn.SetDeadline(time.Now().Add(d))\<close> and \<open>conn.SetReadDeadline(time.Now().Add(d))\<close>.\<close>

definition set_deadline :: "int \<Rightarrow> conn \<Rightarrow> conn" where
  "set_deadline d c = c\<lparr>c_rdl := Some (c_now c + d), c_wdl := Some (c_now c + d)\<rparr>"

definition set_read_deadline :: "int \<Rightarrow> conn \<Rightarrow> conn" where
  "set_read_deadline d c = c\<lparr>c_rdl := Some (c_now c + d)\<rparr>"

section \<open>Dialling, closing, random bytes\<close>

text \<open>
  \<open>(&net.Dialer{Timeout: timeout}).DialContext(ctx, "tcp", addr)\<close>: the dial ends at the earliest of
  the timeout (none if it is zero) and the context's deadline.
\<close>

definition dial_limit :: "int option \<Rightarrow> int \<Rightarrow> int \<Rightarrow> int option" where
  "dial_limit ctx timeout now =
     (if timeout = 0 then ctx
      else case ctx of None \<Rightarrow> Some (now + timeout) | Some d \<Rightarrow> Some (min d (now + timeout)))"

definition open_conn :: "int \<Rightarrow> peer \<Rightarrow> conn" where
  "open_conn t p = \<lparr>c_peer = p, c_sent = [], c_in = enqueue t (p_react p []), c_now = t,
                    c_rdl = None, c_wdl = None\<rparr>"

definition dial :: "int option \<Rightarrow> int \<Rightarrow> world \<Rightarrow> (net_err + conn) \<times> world" where
  "dial ctx timeout w =
     (let lim = dial_limit ctx timeout (w_now w);
          w1 = w\<lparr>w_dials := Suc (w_dials w)\<rparr>;
          late = (\<lambda>t. expired lim t);
          giveup = (Inl err_timeout, w1\<lparr>w_now := max (w_now w) (the lim)\<rparr>)
      in case w_net w (w_dials w) of
           Refused d e \<Rightarrow>
             (if late (w_now w + int d) then giveup
              else (Inl e, w1\<lparr>w_now := w_now w + int d\<rparr>))
         | Accepted d p \<Rightarrow>
             (if late (w_now w + int d) then giveup
              else (Inr (open_conn (w_now w + int d) p),
                    w1\<lparr>w_now := w_now w + int d, w_open := w_open w + 1\<rparr>)))"

definition conn_close :: "conn \<Rightarrow> world \<Rightarrow> world" where
  "conn_close c w = w\<lparr>w_now := c_now c, w_open := w_open w - 1\<rparr>"

definition rand_read :: "nat \<Rightarrow> world \<Rightarrow> bytes option \<times> world" where
  "rand_read n w =
     (map_option (\<lambda>f. map f [0..<n]) (w_rand w (w_rands w)), w\<lparr>w_rands := Suc (w_rands w)\<rparr>)"

section \<open>readFull\<close>

text \<open>
  The loop of \<open>readFull\<close> with what is still needed and what was read so far. An error ends it even
  when it comes with the last byte that was needed. The count returned beside an error is never
  used, so an error is \<open>Inl\<close>.
\<close>

lemma conn_read_progress:
  assumes "0 < n" and "conn_read n c = ((bs, None), c')"
  shows "(n - length bs) + length (c_in c') < n + length (c_in c)"
  using assms
  by (auto simp: conn_read.simps split: if_splits list.splits option.splits)

function readFull_loop :: "nat \<Rightarrow> bytes \<Rightarrow> conn \<Rightarrow> (net_err + bytes) \<times> conn" where
  "readFull_loop need acc c =
     (if need = 0 then (Inr acc, c)
      else case conn_read need c of
             ((bs, eo), c') \<Rightarrow>
               (case eo of
                  Some e \<Rightarrow> (Inl e, c')
                | None \<Rightarrow> readFull_loop (need - length bs) (acc @ bs) c'))"
  by pat_completeness auto
termination
  by (relation "measure (\<lambda>(need, acc, c). need + length (c_in c))")
     (auto dest!: conn_read_progress [OF _ sym])

declare readFull_loop.simps [simp del]

definition readFull :: "nat \<Rightarrow> conn \<Rightarrow> (net_err + bytes) \<times> conn" where
  "readFull n c = readFull_loop n [] c"

section \<open>The byte stream of a connection\<close>

text \<open>
  \<open>stream c\<close> is what can still be read from \<open>c\<close>: the data of the segments that arrive before the
  read deadline, up to the first error. Whatever the segmentation, reading is reading a prefix of
  it. A queue is \<open>clean\<close> when errors come on their own, as TCP delivers them.
\<close>

fun avail :: "int option \<Rightarrow> arrival list \<Rightarrow> bytes" where
  "avail dl [] = []"
| "avail dl ((a, bs, eo) # q) =
     (if expired dl a then []
      else case eo of None \<Rightarrow> bs @ avail dl q | Some _ \<Rightarrow> bs)"

definition stream :: "conn \<Rightarrow> bytes" where
  "stream c = (if expired (c_rdl c) (c_now c) then [] else avail (c_rdl c) (c_in c))"

definition clean_arrivals :: "arrival list \<Rightarrow> bool" where
  "clean_arrivals q \<longleftrightarrow> list_all (\<lambda>(a, bs, eo). eo = None \<or> bs = []) q"

definition clean :: "conn \<Rightarrow> bool" where
  "clean c \<longleftrightarrow> clean_arrivals (c_in c)"

lemma expired_max [simp]: "expired dl (max s t) \<longleftrightarrow> expired dl s \<or> expired dl t"
  by (auto simp: expired_def split: option.splits)

lemma conn_read_ok:
  assumes "0 < n" and "conn_read n c = ((bs, None), c')"
  shows "length bs \<le> n \<and> stream c = bs @ stream c'"
  using assms
  by (auto simp: conn_read.simps stream_def split: if_splits list.splits option.splits)

lemma conn_read_err:
  assumes "0 < n" and "clean c" and "conn_read n c = ((bs, Some e), c')"
  shows "stream c = []"
  using assms
  by (auto simp: conn_read.simps stream_def clean_def clean_arrivals_def
      split: if_splits list.splits option.splits)

lemma conn_read_clean: "clean c \<Longrightarrow> conn_read n c = (r, c') \<Longrightarrow> clean c'"
  by (auto simp: conn_read.simps clean_def clean_arrivals_def
      split: if_splits list.splits option.splits)

lemma readFull_loop_sound:
  "readFull_loop need acc c = (Inr bs, c') \<Longrightarrow>
     \<exists>ys. bs = acc @ ys \<and> length ys = need \<and> stream c = ys @ stream c'"
proof (induction need acc c rule: readFull_loop.induct)
  case (1 need acc c)
  show ?case
  proof (cases "need = 0")
    case True
    with "1.prems" show ?thesis by (simp add: readFull_loop.simps)
  next
    case False
    obtain xs eo c1 where r: "conn_read need c = ((xs, eo), c1)" by (metis surj_pair)
    with False "1.prems" have eo: "eo = None"
      and rest: "readFull_loop (need - length xs) (acc @ xs) c1 = (Inr bs, c')"
      by (auto simp: readFull_loop.simps [of need] split: option.splits)
    from "1.IH" [OF False r [symmetric] refl eo rest] obtain ys where
      "bs = (acc @ xs) @ ys" "length ys = need - length xs" "stream c1 = ys @ stream c'" by blast
    moreover from conn_read_ok [of need c xs c1] r eo False
    have "length xs \<le> need" "stream c = xs @ stream c1" by auto
    ultimately show ?thesis by (intro exI [of _ "xs @ ys"]) auto
  qed
qed

lemma readFull_loop_short:
  "clean c \<Longrightarrow> readFull_loop need acc c = (Inl e, c') \<Longrightarrow> length (stream c) < need"
proof (induction need acc c rule: readFull_loop.induct)
  case (1 need acc c)
  show ?case
  proof (cases "need = 0")
    case True
    with "1.prems" show ?thesis by (simp add: readFull_loop.simps)
  next
    case False
    obtain xs eo c1 where r: "conn_read need c = ((xs, eo), c1)" by (metis surj_pair)
    show ?thesis
    proof (cases eo)
      case (Some e1)
      with r False "1.prems" show ?thesis by (simp add: conn_read_err)
    next
      case None
      with r False "1.prems" have
        rest: "readFull_loop (need - length xs) (acc @ xs) c1 = (Inl e, c')"
        by (simp add: readFull_loop.simps [of need])
      have "length (stream c1) < need - length xs"
        by (rule "1.IH" [OF False r [symmetric] refl None conn_read_clean [OF "1.prems"(1) r] rest])
      with conn_read_ok [of need c xs c1] r None False show ?thesis by auto
    qed
  qed
qed

lemma readFull_loop_clean: "clean c \<Longrightarrow> readFull_loop need acc c = (r, c') \<Longrightarrow> clean c'"
proof (induction need acc c rule: readFull_loop.induct)
  case (1 need acc c)
  obtain xs eo c1 where rd: "conn_read need c = ((xs, eo), c1)" by (metis surj_pair)
  from "1.prems" "1.IH" [OF _ rd [symmetric] refl] conn_read_clean [OF "1.prems"(1) rd] rd
  show ?case by (auto simp: readFull_loop.simps [of need] split: if_splits option.splits)
qed

section \<open>Interfaces: sources of bytes\<close>

text \<open>
  What the parsers of the replies rely on. A \<open>byte_source\<close> reads prefixes of a stream; a
  \<open>complete_source\<close> moreover fails only when the stream is too short. \<open>readFull\<close> is the first for
  every connection and the second for clean ones.
\<close>

locale byte_source =
  fixes full :: "nat \<Rightarrow> 'c \<Rightarrow> ('e + bytes) \<times> 'c"
    and strm :: "'c \<Rightarrow> bytes"
  assumes sound: "full n c = (Inr bs, c') \<Longrightarrow> length bs = n \<and> strm c = bs @ strm c'"
begin

lemma full_prefix: "full n c = (Inr bs, c') \<Longrightarrow> bs = take n (strm c) \<and> strm c' = drop n (strm c)"
  using sound [of n c bs c'] by auto

lemma full_length: "full n c = (Inr bs, c') \<Longrightarrow> n \<le> length (strm c)"
  using sound [of n c bs c'] by auto

lemma full_pair:
  "full m c = (Inr xs, c1) \<Longrightarrow> full n c1 = (Inr ys, c2) \<Longrightarrow>
     strm c = xs @ ys @ strm c2 \<and> length xs = m \<and> length ys = n"
  using sound [of m c xs c1] sound [of n c1 ys c2] by simp

end

locale complete_source = byte_source full strm
  for full :: "nat \<Rightarrow> 'c \<Rightarrow> ('e + bytes) \<times> 'c" and strm :: "'c \<Rightarrow> bytes" +
  fixes ok :: "'c \<Rightarrow> bool"
  assumes ok_step: "ok c \<Longrightarrow> full n c = (r, c') \<Longrightarrow> ok c'"
    and short: "ok c \<Longrightarrow> full n c = (Inl e, c') \<Longrightarrow> length (strm c) < n"
begin

lemma full_enough:
  assumes "ok c" and "n \<le> length (strm c)"
  shows "\<exists>c'. full n c = (Inr (take n (strm c)), c') \<and> strm c' = drop n (strm c) \<and> ok c'"
proof (cases "full n c")
  case (Pair r c')
  show ?thesis
  proof (cases r)
    case (Inl e)
    with Pair assms show ?thesis by (auto dest: short)
  next
    case (Inr bs)
    with Pair assms full_prefix [of n c bs c'] ok_step [of c n r c'] show ?thesis by auto
  qed
qed

lemma full_fails:
  assumes "length (strm c) < n"
  shows "\<exists>e c'. full n c = (Inl e, c')"
proof (cases "full n c")
  case (Pair r c')
  with assms show ?thesis by (cases r) (auto dest: full_length)
qed

end

interpretation src: byte_source readFull stream
  by unfold_locales (auto simp: readFull_def dest!: readFull_loop_sound)

interpretation net: complete_source readFull stream clean
  by unfold_locales
     (auto simp: readFull_def dest: readFull_loop_clean readFull_loop_short)

end
