(* ===== verification/Probing.thy ===== *)
theory Probing
  imports Net
begin

text \<open>
  The bracket every probe runs in (dial, set the deadline, work, close), and the two contracts the
  scan relies on: a \<open>conn_body\<close> uses its connection within its deadline and leaves the world's
  connections alone; a \<open>net_op\<close> closes every connection it opens, moves the clock forwards only and
  within a bound. The bracket turns the first into the second.
\<close>

section \<open>Frame facts of the connection operations\<close>

text \<open>\<open>keeps c c'\<close>: the parts of a connection no read changes, and a clock that did not go back.\<close>

definition keeps :: "conn \<Rightarrow> conn \<Rightarrow> bool" where
  "keeps c c' \<longleftrightarrow> c_peer c' = c_peer c \<and> c_rdl c' = c_rdl c \<and> c_wdl c' = c_wdl c \<and> c_now c \<le> c_now c'"

definition in_time :: "int \<Rightarrow> conn \<Rightarrow> bool" where
  "in_time lim c \<longleftrightarrow> c_now c \<le> lim \<and> (\<exists>d. c_rdl c = Some d \<and> d \<le> lim)"

lemma keeps_refl [simp]: "keeps c c"
  by (simp add: keeps_def)

lemma keeps_trans [trans]: "keeps a b \<Longrightarrow> keeps b c \<Longrightarrow> keeps a c"
  by (auto simp: keeps_def)

lemma keeps_now: "keeps c c' \<Longrightarrow> c_now c \<le> c_now c'"
  by (simp add: keeps_def)

lemma conn_read_frame:
  "conn_read n c = (r, c') \<Longrightarrow> keeps c c' \<and> c_sent c' = c_sent c \<and> (in_time lim c \<longrightarrow> in_time lim c')"
  by (auto simp: conn_read.simps keeps_def in_time_def expired_def
      split: if_splits list.splits option.splits)

lemma readFull_loop_frame:
  "readFull_loop need acc c = (r, c') \<Longrightarrow>
     keeps c c' \<and> c_sent c' = c_sent c \<and> (in_time lim c \<longrightarrow> in_time lim c')"
proof (induction need acc c rule: readFull_loop.induct)
  case (1 need acc c)
  obtain xs eo c1 where rd: "conn_read need c = ((xs, eo), c1)" by (metis surj_pair)
  from "1.prems" "1.IH" [OF _ rd [symmetric] refl] conn_read_frame [OF rd, of lim] rd
  show ?case
    by (auto simp: readFull_loop.simps [of need] split: if_splits option.splits
        intro: keeps_trans)
qed

lemma readFull_frame:
  "readFull n c = (r, c') \<Longrightarrow> keeps c c' \<and> c_sent c' = c_sent c \<and> (in_time lim c \<longrightarrow> in_time lim c')"
  by (simp add: readFull_def readFull_loop_frame)

lemma readFull_keeps: "readFull n c = (r, c') \<Longrightarrow> keeps c c'"
  and readFull_sent: "readFull n c = (r, c') \<Longrightarrow> c_sent c' = c_sent c"
  and readFull_in_time: "readFull n c = (r, c') \<Longrightarrow> in_time lim c \<Longrightarrow> in_time lim c'"
  using readFull_frame by blast+

lemma conn_write_frame:
  "conn_write bs c = (e, c') \<Longrightarrow> keeps c c' \<and> c_now c' = c_now c \<and> (in_time lim c \<longrightarrow> in_time lim c')"
  by (auto simp: conn_write_def keeps_def in_time_def Let_def split: if_splits option.splits)

lemma conn_write_keeps: "conn_write bs c = (e, c') \<Longrightarrow> keeps c c'"
  and conn_write_in_time: "conn_write bs c = (e, c') \<Longrightarrow> in_time lim c \<Longrightarrow> in_time lim c'"
  using conn_write_frame by blast+

lemma in_time_now: "in_time lim c \<Longrightarrow> c_now c \<le> lim"
  by (simp add: in_time_def)

lemma in_time_mono: "in_time lim c \<Longrightarrow> lim \<le> lim' \<Longrightarrow> in_time lim' c"
  by (auto simp: in_time_def)

lemma set_read_deadline_in_time:
  "in_time lim c \<Longrightarrow> in_time (lim + max 0 d) (set_read_deadline d c)"
  by (auto simp: in_time_def set_read_deadline_def)

lemma set_deadline_in_time: "c_now c \<le> lim \<Longrightarrow> in_time (lim + max 0 d) (set_deadline d c)"
  by (auto simp: in_time_def set_deadline_def)

lemmas frame_rules =
  readFull_keeps readFull_in_time conn_write_keeps conn_write_in_time

section \<open>The bracket\<close>

text \<open>
  \<open>with_conn ctx timeout fail body\<close> is the prologue and the deferred close that the probes share:
  dial; on an error, \<open>return fail\<close>; \<open>defer conn.Close()\<close>; \<open>conn.SetDeadline(time.Now().Add(timeout))\<close>;
  the body. A body also gets the world, for random bytes.
\<close>

definition with_conn ::
  "int option \<Rightarrow> int \<Rightarrow> (net_err \<Rightarrow> 'r) \<Rightarrow> (conn \<Rightarrow> world \<Rightarrow> 'r \<times> conn \<times> world) \<Rightarrow> world \<Rightarrow> 'r \<times> world"
where
  "with_conn ctx timeout fail body w =
     (case dial ctx timeout w of
        (Inl e, w1) \<Rightarrow> (fail e, w1)
      | (Inr c, w1) \<Rightarrow>
          (case body (set_deadline timeout c) w1 of (r, c', w2) \<Rightarrow> (r, conn_close c' w2)))"

text \<open>A body that needs no random bytes.\<close>

definition plain :: "(conn \<Rightarrow> 'r \<times> conn) \<Rightarrow> conn \<Rightarrow> world \<Rightarrow> 'r \<times> conn \<times> world" where
  "plain f c w = (case f c of (r, c') \<Rightarrow> (r, c', w))"

text \<open>What a dial does to the world.\<close>

lemma dial_frame:
  assumes "dial ctx timeout w = (r, w')"
  shows "w_now w \<le> w_now w'"
    and "timeout \<noteq> 0 \<Longrightarrow> w_now w' \<le> w_now w + max 0 timeout"
    and "w_open w' = w_open w + (case r of Inl e \<Rightarrow> 0 | Inr c \<Rightarrow> 1)"
  using assms
  by (auto simp: dial_def dial_limit_def Let_def expired_def min_def
      split: dial_outcome.splits if_splits option.splits)

lemma dial_conn:
  assumes "dial ctx timeout w = (Inr c, w')"
  shows "c_now c = w_now w'" and "c_sent c = []"
    and "\<exists>d p. w_net w (w_dials w) = Accepted d p \<and> c = open_conn (w_now w') p"
  using assms
  by (auto simp: dial_def Let_def open_conn_def split: dial_outcome.splits if_splits)

section \<open>Contracts\<close>

locale conn_body =
  fixes body :: "conn \<Rightarrow> world \<Rightarrow> 'r \<times> conn \<times> world"
    and extra :: int
  assumes extra_nonneg: "0 \<le> extra"
    and body_world: "body c w = (r, c', w') \<Longrightarrow> w_open w' = w_open w \<and> w_now w' = w_now w"
    and body_forward: "body c w = (r, c', w') \<Longrightarrow> in_time lim c \<Longrightarrow> c_now c \<le> c_now c'"
    and body_time: "body c w = (r, c', w') \<Longrightarrow> in_time lim c \<Longrightarrow> c_now c' \<le> lim + extra"

locale net_op =
  fixes run :: "world \<Rightarrow> 'r \<times> world"
    and bounded :: bool
    and bound :: int
  assumes balanced: "run w = (r, w') \<Longrightarrow> w_open w' = w_open w"
    and forward: "run w = (r, w') \<Longrightarrow> w_now w \<le> w_now w'"
    and within: "bounded \<Longrightarrow> run w = (r, w') \<Longrightarrow> w_now w' \<le> w_now w + bound"

context conn_body begin

lemma bracket_world:
  assumes "with_conn ctx timeout fail body w = (r, w')"
  shows "w_open w' = w_open w \<and> w_now w \<le> w_now w' \<and>
    (timeout \<noteq> 0 \<longrightarrow> w_now w' \<le> w_now w + 2 * max 0 timeout + extra)"
proof (cases "dial ctx timeout w")
  case (Pair d w1)
  note fr = dial_frame [OF Pair]
  show ?thesis
  proof (cases d)
    case (Inl e)
    with Pair fr assms extra_nonneg show ?thesis by (auto simp: with_conn_def)
  next
    case (Inr c)
    obtain x c' w2 where b: "body (set_deadline timeout c) w1 = (x, c', w2)"
      by (metis prod_cases3)
    have now: "c_now c = w_now w1" using dial_conn [of ctx timeout w c w1] Pair Inr by simp
    then have t: "in_time (w_now w1 + max 0 timeout) (set_deadline timeout c)"
      by (simp add: set_deadline_in_time)
    have "w_open w2 = w_open w1" using body_world [OF b] by simp
    moreover have "w_now w1 \<le> c_now c'"
      using body_forward [OF b t] now by (simp add: set_deadline_def)
    moreover have "c_now c' \<le> w_now w1 + max 0 timeout + extra" by (rule body_time [OF b t])
    moreover have "w' = conn_close c' w2" using assms Pair Inr b by (simp add: with_conn_def)
    ultimately show ?thesis using fr Inr by (auto simp: conn_close_def)
  qed
qed

end

sublocale conn_body \<subseteq> bracket: net_op "with_conn ctx timeout fail body" "timeout \<noteq> 0"
    "2 * max 0 timeout + extra" for ctx timeout fail
  by unfold_locales (auto dest: bracket_world)

lemma net_op_mono:
  "net_op run b n \<Longrightarrow> (b' \<Longrightarrow> b) \<Longrightarrow> (b' \<Longrightarrow> n \<le> n') \<Longrightarrow> net_op run b' n'"
  by (force simp: net_op_def)

text \<open>Operations in a row: the bounds add up.\<close>

definition seq :: "(world \<Rightarrow> 'a \<times> world) \<Rightarrow> ('a \<Rightarrow> world \<Rightarrow> 'b \<times> world) \<Rightarrow> world \<Rightarrow> 'b \<times> world" where
  "seq f g w = (case f w of (x, w1) \<Rightarrow> g x w1)"

lemma net_op_seq:
  assumes f: "net_op f b m" and g: "\<And>x. net_op (g x) b n"
  shows "net_op (seq f g) b (m + n)"
proof
  fix w r w'
  assume "seq f g w = (r, w')"
  then obtain x w1 where r: "f w = (x, w1)" "g x w1 = (r, w')" by (auto simp: seq_def split: prod.splits)
  note F = net_op.balanced [OF f r(1)] net_op.forward [OF f r(1)]
    and G = net_op.balanced [OF g r(2)] net_op.forward [OF g r(2)]
  show "w_open w' = w_open w" and "w_now w \<le> w_now w'" using F G by auto
  assume b
  from net_op.within [OF f this r(1)] net_op.within [OF g this r(2)]
  show "w_now w' \<le> w_now w + (m + n)" by simp
qed

lemma net_op_pure: "net_op (Pair x) b 0"
  by unfold_locales auto

text \<open>
  A bound from the context: \<open>stops run D\<close> says that \<open>run\<close> is over at \<open>D\<close> if it starts before. An
  operation under a context with deadline \<open>d\<close> stops as long after \<open>d\<close> as its body may take, and a
  sequence stops when its parts do: here the bounds do not add up.
\<close>

definition stops :: "(world \<Rightarrow> 'r \<times> world) \<Rightarrow> int \<Rightarrow> bool" where
  "stops run D \<longleftrightarrow> (\<forall>w r w'. run w = (r, w') \<longrightarrow> w_now w' \<le> max (w_now w) D)"

lemma stops_D: "stops run D \<Longrightarrow> run w = (r, w') \<Longrightarrow> w_now w' \<le> max (w_now w) D"
  by (simp add: stops_def)

lemma stops_pure: "stops (Pair x) D"
  by (simp add: stops_def)

lemma stops_mono: "stops run D \<Longrightarrow> D \<le> D' \<Longrightarrow> stops run D'"
  by (force simp: stops_def)

lemma stops_seq:
  assumes "stops f D" and "\<And>x. stops (g x) D"
  shows "stops (seq f g) D"
  unfolding stops_def
proof (intro allI impI)
  fix w r w'
  assume "seq f g w = (r, w')"
  then obtain x w1 where "f w = (x, w1)" "g x w1 = (r, w')" by (auto simp: seq_def split: prod.splits)
  with stops_D [OF assms(1)] stops_D [OF assms(2)] show "w_now w' \<le> max (w_now w) D" by fastforce
qed

lemma dial_before:
  assumes "dial (Some d) timeout w = (r, w')"
  shows "w_now w' \<le> max (w_now w) d" and "r = Inr c \<Longrightarrow> w_now w' \<le> d"
  using assms
  by (auto simp: dial_def dial_limit_def Let_def expired_def split: dial_outcome.splits if_splits)

context conn_body begin

lemma bracket_net_op: "net_op (with_conn ctx timeout fail body) (timeout \<noteq> 0) (2 * max 0 timeout + extra)"
  by (rule bracket.net_op_axioms)

lemma bracket_stops: "stops (with_conn (Some d) timeout fail body) (d + max 0 timeout + extra)"
  unfolding stops_def
proof (intro allI impI)
  fix w r w'
  assume run: "with_conn (Some d) timeout fail body w = (r, w')"
  obtain x w1 where dl: "dial (Some d) timeout w = (x, w1)" by (metis surj_pair)
  show "w_now w' \<le> max (w_now w) (d + max 0 timeout + extra)"
  proof (cases x)
    case (Inl e)
    then show ?thesis using run dl dial_before(1) [OF dl] extra_nonneg by (auto simp: with_conn_def)
  next
    case (Inr c)
    obtain y c' w2 where b: "body (set_deadline timeout c) w1 = (y, c', w2)" by (metis prod_cases3)
    have "c_now c \<le> d" using dial_before(2) [OF dl Inr] dial_conn(1) [of "Some d" timeout w c w1] dl Inr by simp
    then have "c_now c' \<le> d + max 0 timeout + extra" using body_time [OF b set_deadline_in_time] by simp
    then show ?thesis using run dl Inr b by (auto simp: with_conn_def conn_close_def)
  qed
qed

end

text \<open>A body without random bytes meets its contract if its reads and writes keep the deadline.\<close>

lemma plain_body:
  assumes "\<And>c r c'. f c = (r, c') \<Longrightarrow> keeps c c'"
    and "\<And>c r c' lim. f c = (r, c') \<Longrightarrow> in_time lim c \<Longrightarrow> in_time lim c'"
  shows "conn_body (plain f) 0"
proof
  show "(0 :: int) \<le> 0" by simp
next
  fix c w r c' w' lim
  assume "plain f c w = (r, c', w')"
  then have f: "f c = (r, c')" and w: "w' = w" by (auto simp: plain_def split: prod.splits)
  show "w_open w' = w_open w \<and> w_now w' = w_now w" using w by simp
  assume lim: "in_time lim c"
  show "c_now c \<le> c_now c'" using assms(1) [OF f] by (rule keeps_now)
  show "c_now c' \<le> lim + 0" using in_time_now [OF assms(2) [OF f lim]] by simp
qed

section \<open>One-shot probes\<close>

text \<open>
  Most probes write one hello and judge the reply: \<open>conn.Write(hello)\<close>, \<open>false\<close> on an error, then
  the judgement. What the judgement can depend on is the reply: the byte stream of the connection
  once the hello is written. A peer is clean if its errors come on their own (see \<open>clean\<close>).
\<close>

definition ask :: "bytes \<Rightarrow> 'r \<Rightarrow> (conn \<Rightarrow> 'r \<times> conn) \<Rightarrow> conn \<Rightarrow> 'r \<times> conn" where
  "ask hello failed judge c =
     (case conn_write hello c of
        (Some e, c1) \<Rightarrow> (failed, c1)
      | (None, c1) \<Rightarrow> judge c1)"

definition reply :: "int option \<Rightarrow> int \<Rightarrow> bytes \<Rightarrow> world \<Rightarrow> conn option" where
  "reply ctx timeout hello w =
     (case dial ctx timeout w of
        (Inl e, w1) \<Rightarrow> None
      | (Inr c, w1) \<Rightarrow>
          (case conn_write hello (set_deadline timeout c) of
             (Some e, c1) \<Rightarrow> None
           | (None, c1) \<Rightarrow> Some c1))"

definition clean_peer :: "peer \<Rightarrow> bool" where
  "clean_peer p \<longleftrightarrow> (\<forall>sent. list_all (\<lambda>s. sg_err s = None \<or> sg_data s = []) (p_react p sent))"

definition clean_net :: "world \<Rightarrow> bool" where
  "clean_net w \<longleftrightarrow> (\<forall>n d p. w_net w n = Accepted d p \<longrightarrow> clean_peer p)"

lemma clean_enqueue:
  "list_all (\<lambda>s. sg_err s = None \<or> sg_data s = []) segs \<Longrightarrow> clean_arrivals (enqueue t segs)"
  by (induction segs) (auto simp: enqueue_def clean_arrivals_def)

lemma open_conn_clean: "clean_peer p \<Longrightarrow> clean (open_conn t p)"
  by (simp add: clean_def open_conn_def clean_enqueue clean_peer_def)

lemma conn_write_clean:
  "clean_peer (c_peer c) \<Longrightarrow> clean c \<Longrightarrow> conn_write bs c = (e, c') \<Longrightarrow> clean c'"
  using clean_enqueue [of "p_react (c_peer c) (c_sent c @ [bs])" "c_now c"]
  by (auto simp: conn_write_def Let_def clean_def clean_peer_def clean_arrivals_def
      split: if_splits option.splits)

lemma set_deadline_simps [simp]:
  "clean (set_deadline d c) = clean c" "c_peer (set_deadline d c) = c_peer c"
  "c_now (set_deadline d c) = c_now c" "c_sent (set_deadline d c) = c_sent c"
  "clean (set_read_deadline d c) = clean c" "c_peer (set_read_deadline d c) = c_peer c"
  "c_now (set_read_deadline d c) = c_now c" "c_sent (set_read_deadline d c) = c_sent c"
  by (simp_all add: set_deadline_def set_read_deadline_def clean_def)

lemma dial_clean:
  assumes "clean_net w" and "dial ctx timeout w = (Inr c, w')"
  shows "clean c \<and> clean_peer (c_peer c)"
proof -
  from dial_conn(3) [OF assms(2)] obtain d p where
    p: "w_net w (w_dials w) = Accepted d p" "c = open_conn (w_now w') p" by blast
  with assms(1) have "clean_peer p" by (auto simp: clean_net_def)
  with p open_conn_clean show ?thesis by (simp add: open_conn_def)
qed

lemma reply_clean:
  assumes "clean_net w" and "reply ctx timeout hello w = Some c"
  shows "clean c"
proof -
  from assms(2) obtain c0 w1 where d: "dial ctx timeout w = (Inr c0, w1)"
    and wr: "conn_write hello (set_deadline timeout c0) = (None, c)"
    by (auto simp: reply_def split: prod.splits sum.splits option.splits)
  from dial_clean [OF assms(1) d] conn_write_clean [OF _ _ wr] show ?thesis by simp
qed

locale judged =
  fixes hello :: bytes
    and failed :: 'r
    and judge :: "conn \<Rightarrow> 'r \<times> conn"
  assumes judge_frame: "judge c = (r, c') \<Longrightarrow> keeps c c' \<and> (in_time lim c \<longrightarrow> in_time lim c')"
begin

text \<open>The answer of a probe is the judgement of its reply.\<close>

lemma probe_reply:
  "fst (with_conn ctx timeout (\<lambda>_. failed) (plain (ask hello failed judge)) w) =
     (case reply ctx timeout hello w of None \<Rightarrow> failed | Some c \<Rightarrow> fst (judge c))"
  by (auto simp: with_conn_def plain_def ask_def reply_def
      split: prod.splits sum.splits option.splits)

lemma judge_keeps: "judge c = (r, c') \<Longrightarrow> keeps c c'"
  and judge_in_time: "judge c = (r, c') \<Longrightarrow> in_time lim c \<Longrightarrow> in_time lim c'"
  using judge_frame by blast+

lemma ask_keeps: "ask hello failed judge c = (r, c') \<Longrightarrow> keeps c c'"
  by (auto simp: ask_def split: prod.splits option.splits
      intro: conn_write_keeps keeps_trans judge_keeps)

lemma ask_in_time: "ask hello failed judge c = (r, c') \<Longrightarrow> in_time lim c \<Longrightarrow> in_time lim c'"
  by (auto simp: ask_def split: prod.splits option.splits
      intro: conn_write_in_time judge_in_time)

end

sublocale judged \<subseteq> conn_body "plain (ask hello failed judge)" 0
  by (rule plain_body) (auto intro: ask_keeps ask_in_time)

text \<open>
  A boolean judgement that accepts exactly the replies whose byte stream satisfies a predicate:
  then the probe's answer is a statement about bytes alone.
\<close>

locale one_shot = judged hello False judge
  for hello :: bytes and judge :: "conn \<Rightarrow> bool \<times> conn" +
  fixes accepts :: "bytes \<Rightarrow> bool"
  assumes judge_sound: "judge c = (True, c') \<Longrightarrow> accepts (stream c)"
    and judge_complete: "clean c \<Longrightarrow> judge c = (False, c') \<Longrightarrow> \<not> accepts (stream c)"
begin

lemma judge_iff: "clean c \<Longrightarrow> fst (judge c) \<longleftrightarrow> accepts (stream c)"
  using judge_sound [of c "snd (judge c)"] judge_complete [of c "snd (judge c)"]
  by (cases "judge c") auto

lemma probe_sound:
  assumes "fst (with_conn ctx timeout (\<lambda>_. False) (plain (ask hello False judge)) w)"
  shows "\<exists>c. reply ctx timeout hello w = Some c \<and> accepts (stream c)"
  using assms judge_sound
  by (auto simp: probe_reply split: option.splits) (metis prod.collapse)

lemma probe_iff:
  assumes "clean_net w"
  shows "fst (with_conn ctx timeout (\<lambda>_. False) (plain (ask hello False judge)) w) \<longleftrightarrow>
           (\<exists>c. reply ctx timeout hello w = Some c \<and> accepts (stream c))"
  using judge_iff reply_clean [OF assms] by (auto simp: probe_reply split: option.splits)

end

section \<open>A concrete host\<close>

text \<open>
  A host that answers the first write of every connection with a fixed byte string; the concrete
  inputs of the probe theorems.
\<close>

definition answering :: "bytes \<Rightarrow> world" where
  "answering bs =
     \<lparr>w_now = 0,
      w_net = (\<lambda>_. Accepted 0 \<lparr>p_werr = (\<lambda>_. None),
                 p_react = (\<lambda>sent. if length sent = 1
                                 then [\<lparr>sg_delay = 0, sg_data = bs, sg_err = None\<rparr>] else [])\<rparr>),
      w_dials = 0, w_open = 0, w_rand = (\<lambda>_. Some (\<lambda>_. 0)), w_rands = 0\<rparr>"

lemma answering_clean: "clean_net (answering bs)"
  by (simp add: clean_net_def answering_def clean_peer_def)

lemma answering_reply:
  "0 < timeout \<Longrightarrow>
     \<exists>c. reply None timeout hello (answering bs) = Some c \<and> stream c = bs \<and> clean c"
  by (simp add: reply_def answering_def dial_def dial_limit_def expired_def open_conn_def
      conn_write_def set_deadline_def enqueue_def stream_def Let_def clean_def clean_arrivals_def)

lemma answering_iff:
  assumes "0 < timeout"
  shows "(\<exists>c. reply None timeout hello (answering bs) = Some c \<and> P (stream c)) \<longleftrightarrow> P bs"
  using answering_reply [OF assms, of hello bs] by auto

text \<open>The same host on any later connection.\<close>

lemma answers_reply:
  "w_net w = w_net (answering bs) \<Longrightarrow> 0 < timeout \<Longrightarrow>
     \<exists>c. reply None timeout hello w = Some c \<and> stream c = bs \<and> clean c"
  by (simp add: reply_def answering_def dial_def dial_limit_def expired_def open_conn_def
      conn_write_def set_deadline_def enqueue_def stream_def Let_def clean_def clean_arrivals_def)

lemma dial_net: "dial ctx timeout w = (r, w') \<Longrightarrow> w_net w' = w_net w"
  by (auto simp: dial_def Let_def split: dial_outcome.splits if_splits)

lemma with_conn_plain_net: "with_conn ctx timeout fail (plain f) w = (r, w') \<Longrightarrow> w_net w' = w_net w"
  by (auto simp: with_conn_def plain_def conn_close_def dest: dial_net split: prod.splits sum.splits)

end
