(* ===== verification/Offline.thy ===== *)
theory Offline
  imports Probing
begin

text \<open>
  Hosts nothing can be learned from. A world is \<open>offline\<close> for a context if no dial can succeed in it:
  every address refuses, or the context's deadline has passed. \<open>sees ctx run P\<close> says what an operation
  answers there; the rules compose such facts along a scan.
\<close>

definition refusing :: "world \<Rightarrow> bool" where
  "refusing w \<longleftrightarrow> (\<forall>n. \<exists>d e. w_net w n = Refused d e)"

definition offline :: "int option \<Rightarrow> world \<Rightarrow> bool" where
  "offline ctx w \<longleftrightarrow> refusing w \<or> (\<exists>d. ctx = Some d \<and> d \<le> w_now w)"

definition sees :: "int option \<Rightarrow> (world \<Rightarrow> 'r \<times> world) \<Rightarrow> ('r \<Rightarrow> bool) \<Rightarrow> bool" where
  "sees ctx run P \<longleftrightarrow> (\<forall>w. offline ctx w \<longrightarrow> (\<exists>r w'. run w = (r, w') \<and> P r \<and> offline ctx w'))"

lemma offline_dial:
  assumes "offline ctx w"
  shows "\<exists>e w'. dial ctx timeout w = (Inl e, w') \<and> offline ctx w'"
proof -
  obtain r w' where d: "dial ctx timeout w = (r, w')" by (metis surj_pair)
  have net: "w_net w' = w_net w"
    using d by (auto simp: dial_def Let_def split: dial_outcome.splits if_splits)
  have "\<exists>e. r = Inl e"
  proof (cases "refusing w")
    case True
    then obtain t e where "w_net w (w_dials w) = Refused t e" unfolding refusing_def by metis
    with d show ?thesis by (auto simp: dial_def Let_def split: if_splits)
  next
    case False
    with assms obtain t where "ctx = Some t" "t \<le> w_now w" by (auto simp: offline_def)
    with d show ?thesis
      by (auto simp: dial_def dial_limit_def expired_def Let_def split: dial_outcome.splits if_splits)
  qed
  moreover have "offline ctx w'"
    using assms net dial_frame(1) [OF d] by (auto simp: offline_def refusing_def)
  ultimately show ?thesis using d by auto
qed

lemma sees_with_conn: "sees ctx (with_conn ctx timeout fail body) (\<lambda>r. \<exists>e. r = fail e)"
  using offline_dial [of ctx _ timeout] by (fastforce simp: sees_def with_conn_def)

lemma sees_pure: "P x \<Longrightarrow> sees ctx (Pair x) P"
  by (simp add: sees_def)

lemma sees_seq: "sees ctx f P \<Longrightarrow> (\<And>x. P x \<Longrightarrow> sees ctx (g x) Q) \<Longrightarrow> sees ctx (seq f g) Q"
  by (fastforce simp: sees_def seq_def)

lemma sees_mono: "sees ctx f P \<Longrightarrow> (\<And>x. P x \<Longrightarrow> Q x) \<Longrightarrow> sees ctx f Q"
  by (fastforce simp: sees_def)

lemma sees_D: "sees ctx f P \<Longrightarrow> offline ctx w \<Longrightarrow> P (fst (f w)) \<and> offline ctx (snd (f w))"
  by (fastforce simp: sees_def)

text \<open>A probe whose answer to a failed dial is \<open>x\<close>.\<close>

lemma sees_false: "sees ctx (with_conn ctx timeout (\<lambda>_. x) body) (\<lambda>r. r = x)"
  by (rule sees_mono [OF sees_with_conn]) simp

end
