(* ===== verification/Types.thy ===== *)
theory Types
  imports Prelude "HOL-Library.List_Lexorder" "HOL-Library.Char_ord"
begin

text \<open>
  The data model of pkg/tlsscan/types.go: grades, the parts of a result, options. Strings that are
  free text stay strings; durations are nanoseconds, instants nanoseconds from the zero time. Grades are ordered by
  \<open>gradeRank\<close> (rating.go), so that the library's order, minimum and maximum apply to them: greater
  means worse.
\<close>

section \<open>Grades\<close>

datatype grade =
  GradeAPlus | GradeA | GradeB | GradeC | GradeD | GradeE | GradeF | GradeT | GradeR

text \<open>The string constants of the code.\<close>

fun grade_string :: "grade \<Rightarrow> string" where
  "grade_string GradeAPlus = ''A+''"
| "grade_string GradeA = ''A''"
| "grade_string GradeB = ''B''"
| "grade_string GradeC = ''C''"
| "grade_string GradeD = ''D''"
| "grade_string GradeE = ''E''"
| "grade_string GradeF = ''F''"
| "grade_string GradeT = ''T''"
| "grade_string GradeR = ''R''"

fun gradeRank :: "grade \<Rightarrow> nat" where
  "gradeRank GradeAPlus = 0"
| "gradeRank GradeA = 1"
| "gradeRank GradeB = 2"
| "gradeRank GradeC = 3"
| "gradeRank GradeD = 4"
| "gradeRank GradeE = 5"
| "gradeRank GradeF = 6"
| "gradeRank GradeT = 7"
| "gradeRank GradeR = 8"

lemma gradeRank_inject [simp]: "gradeRank g = gradeRank h \<longleftrightarrow> g = h"
  by (cases g; cases h) simp_all

instantiation grade :: linorder
begin

definition less_eq_grade :: "grade \<Rightarrow> grade \<Rightarrow> bool" where
  "g \<le> h \<longleftrightarrow> gradeRank g \<le> gradeRank h"

definition less_grade :: "grade \<Rightarrow> grade \<Rightarrow> bool" where
  "g < h \<longleftrightarrow> gradeRank g < gradeRank h"

instance
  by standard (auto simp: less_eq_grade_def less_grade_def)

end

lemma grade_string_inject: "grade_string g = grade_string h \<longleftrightarrow> g = h"
  by (cases g; cases h) simp_all

section \<open>Results\<close>

record protocols =
  SSL2 :: bool
  SSL3 :: bool
  TLS10 :: bool
  TLS11 :: bool
  TLS12 :: bool
  TLS13 :: bool
  ALPN :: "string list"
  HTTP2 :: bool

record certificate =
  Valid :: bool
  Subject :: string
  Issuer :: string
  NotBefore :: int
  NotAfter :: int
  DaysToExpiry :: int
  KeyType :: string
  KeyBits :: int
  SignatureAlgo :: string
  ChainComplete :: bool
  HostnameMatch :: bool
  SelfSigned :: bool
  Distrusted :: bool
  SANs :: "string list"

record cipher_summary =
  Strong :: "string list"
  Weak :: "string list"
  Insecure :: "string list"
  ServerPreferred :: bool

record vulnerabilities =
  v_Heartbleed :: bool
  v_Poodle :: bool
  v_Robot :: bool
  v_Sweet32 :: bool
  v_Drown :: bool
  v_Freak :: bool
  v_Logjam :: bool
  v_Beast :: bool
  v_GoldenDoodle :: bool
  v_ZombiePoodle :: bool
  v_SleepingPoodle :: bool
  v_ZeroLengthPaddingCVE :: bool
  v_InsecureRenegotiation :: bool
  v_TLSFallbackSCSV :: bool

record rating_breakdown =
  ProtocolScore :: int
  KeyExchangeScore :: int
  CipherScore :: int
  Numeric :: int

record options =
  Host :: string
  Port :: int
  Timeout :: int
  CheckVulns :: bool
  IPVersion :: string

record result =
  r_Host :: string
  r_Port :: int
  r_Grade :: "grade option"
  r_GradeCaps :: "string list"
  r_Protocols :: protocols
  r_Certificate :: certificate
  r_Ciphers :: cipher_summary
  r_ForwardSecrecy :: bool
  r_Vulnerabilities :: vulnerabilities
  r_Rating :: rating_breakdown
  r_ScanDurationMs :: int
  r_RulesetVersion :: string
  r_Errors :: "string list"

text \<open>Go's zero values: what a part holds that no step of the scan filled in.\<close>

definition no_protocols :: protocols where
  "no_protocols = \<lparr>SSL2 = False, SSL3 = False, TLS10 = False, TLS11 = False, TLS12 = False,
     TLS13 = False, ALPN = [], HTTP2 = False\<rparr>"

definition no_certificate :: certificate where
  "no_certificate = \<lparr>Valid = False, Subject = [], Issuer = [], NotBefore = 0, NotAfter = 0,
     DaysToExpiry = 0, KeyType = [], KeyBits = 0, SignatureAlgo = [], ChainComplete = False,
     HostnameMatch = False, SelfSigned = False, Distrusted = False, SANs = []\<rparr>"

definition no_ciphers :: cipher_summary where
  "no_ciphers = \<lparr>Strong = [], Weak = [], Insecure = [], ServerPreferred = False\<rparr>"

definition no_vulnerabilities :: vulnerabilities where
  "no_vulnerabilities = \<lparr>v_Heartbleed = False, v_Poodle = False, v_Robot = False,
     v_Sweet32 = False, v_Drown = False, v_Freak = False, v_Logjam = False, v_Beast = False,
     v_GoldenDoodle = False, v_ZombiePoodle = False, v_SleepingPoodle = False,
     v_ZeroLengthPaddingCVE = False, v_InsecureRenegotiation = False, v_TLSFallbackSCSV = False\<rparr>"

definition no_rating :: rating_breakdown where
  "no_rating = \<lparr>ProtocolScore = 0, KeyExchangeScore = 0, CipherScore = 0, Numeric = 0\<rparr>"

end
