(* ===== verification/Rating.thy ===== *)
theory Rating
  imports Types
begin

text \<open>
  The rating of pkg/tlsscan/rating.go: component scores, the weighted number, the letter grade and
  the caps, with the list of the caps applied.
\<close>

section \<open>Component scores\<close>

definition protocolScore :: "protocols \<Rightarrow> int" where
  "protocolScore p =
     (if SSL2 p \<or> SSL3 p then 20
      else if TLS10 p \<or> TLS11 p then 70
      else if TLS13 p then 100
      else if TLS12 p then 90
      else 0)"

definition keyExchangeScore :: "certificate \<Rightarrow> bool \<Rightarrow> int" where
  "keyExchangeScore c fs =
     (let score =
            (if KeyType c = ''RSA''
             then if KeyBits c \<ge> 4096 then 100
                  else if KeyBits c \<ge> 2048 then 90
                  else if KeyBits c \<ge> 1024 then 40
                  else 20
             else if KeyType c = ''ECDSA''
             then if KeyBits c \<ge> 256 then 100 else 60
             else 0);
          score = (if \<not> fs then score - 20 else score)
      in if score < 0 then 0 else score)"

definition cipherScore :: "cipher_summary \<Rightarrow> int" where
  "cipherScore c =
     (if length (Insecure c) > 0 then 20
      else if length (Weak c) > 0 \<and> length (Strong c) = 0 then 50
      else if length (Weak c) > 0 then 80
      else if length (Strong c) > 0 then 100
      else 0)"

definition numericToGrade :: "int \<Rightarrow> grade" where
  "numericToGrade n =
     (if n \<ge> 95 then GradeA
      else if n \<ge> 80 then GradeA
      else if n \<ge> 65 then GradeB
      else if n \<ge> 50 then GradeC
      else if n \<ge> 35 then GradeD
      else if n \<ge> 20 then GradeE
      else GradeF)"

definition capAt :: "grade \<Rightarrow> grade \<Rightarrow> grade" where
  "capAt current ceiling = (if gradeRank current > gradeRank ceiling then ceiling else current)"

section \<open>rate\<close>

text \<open>The state of \<open>rate\<close> between its steps: the grade and the caps so far.\<close>

type_synonym rating_state = "grade \<times> string list"

definition cap_if :: "bool \<Rightarrow> string \<Rightarrow> (grade \<Rightarrow> grade) \<Rightarrow> rating_state \<Rightarrow> rating_state" where
  "cap_if b name f st = (if b then (f (fst st), snd st @ [name]) else st)"

definition untrusted :: "certificate \<Rightarrow> bool" where
  "untrusted c \<longleftrightarrow> \<not> Valid c \<or> SelfSigned c \<or> Distrusted c \<or> \<not> HostnameMatch c"

definition critical :: "vulnerabilities \<Rightarrow> bool" where
  "critical v \<longleftrightarrow> v_Heartbleed v \<or> v_Robot v \<or> v_Drown v \<or> v_InsecureRenegotiation v \<or>
     v_GoldenDoodle v \<or> v_ZombiePoodle v \<or> v_SleepingPoodle v \<or> v_ZeroLengthPaddingCVE v"

text \<open>\<open>DaysToExpiry\<close> and the scores are Go \<open>int\<close>s; the division is of non-negative numbers.\<close>

definition rate :: "result \<Rightarrow> rating_breakdown \<times> grade \<times> string list" where
  "rate r =
     (let proto = protocolScore (r_Protocols r);
          kx = keyExchangeScore (r_Certificate r) (r_ForwardSecrecy r);
          cipher = cipherScore (r_Ciphers r);
          numeric = (proto * 30 + kx * 30 + cipher * 40) div 100;
          b = \<lparr>ProtocolScore = proto, KeyExchangeScore = kx, CipherScore = cipher,
               Numeric = numeric\<rparr>;
          st = (numericToGrade numeric, []);
          st = cap_if (untrusted (r_Certificate r)) ''certificate-trust'' (\<lambda>_. GradeT) st;
          v = r_Vulnerabilities r;
          st = cap_if (critical v) ''critical-vulnerability'' (\<lambda>_. GradeF) st;
          st = (if SSL2 (r_Protocols r) then cap_if True ''ssl2-enabled'' (\<lambda>_. GradeF) st
                else cap_if (SSL3 (r_Protocols r)) ''ssl3-enabled'' (\<lambda>g. capAt g GradeC) st);
          st = cap_if (\<not> r_ForwardSecrecy r) ''no-forward-secrecy'' (\<lambda>g. capAt g GradeB) st;
          st = cap_if (length (Insecure (r_Ciphers r)) > 0) ''insecure-cipher''
                 (\<lambda>g. capAt g GradeC) st;
          st = cap_if (v_Freak v \<or> v_Logjam v) ''export-cipher'' (\<lambda>g. capAt g GradeC) st;
          grade = (if fst st = GradeA \<and> TLS13 (r_Protocols r) \<and>
                      length (Weak (r_Ciphers r)) = 0 \<and> length (Insecure (r_Ciphers r)) = 0 \<and>
                      DaysToExpiry (r_Certificate r) > 30
                   then GradeAPlus else fst st)
      in (b, grade, snd st))"

definition rate_grade :: "result \<Rightarrow> grade" where
  "rate_grade r = fst (snd (rate r))"

section \<open>Scores\<close>

lemma protocolScore_cases: "protocolScore p \<in> {0, 20, 70, 90, 100}"
  by (simp add: protocolScore_def)

lemma cipherScore_cases: "cipherScore c \<in> {0, 20, 50, 80, 100}"
  by (simp add: cipherScore_def)

lemma keyExchangeScore_bounds: "0 \<le> keyExchangeScore c fs" "keyExchangeScore c fs \<le> 100"
  by (auto simp: keyExchangeScore_def Let_def)

lemma protocolScore_bounds: "0 \<le> protocolScore p" "protocolScore p \<le> 100"
  and cipherScore_bounds: "0 \<le> cipherScore c" "cipherScore c \<le> 100"
  by (simp_all add: protocolScore_def cipherScore_def)

lemmas score_bounds = keyExchangeScore_bounds protocolScore_bounds cipherScore_bounds

text \<open>
  The breakdown is a proper score: the components and the weighted number lie between 0 and 100,
  and the number lies between the least and the greatest component.
\<close>

theorem rate_breakdown:
  "\<exists>b. fst (rate r) = b \<and>
     {ProtocolScore b, KeyExchangeScore b, CipherScore b, Numeric b} \<subseteq> {0..100} \<and>
     Min {ProtocolScore b, KeyExchangeScore b, CipherScore b} \<le> Numeric b \<and>
     Numeric b \<le> Max {ProtocolScore b, KeyExchangeScore b, CipherScore b}"
proof -
  have weighted: "min x (min y z) \<le> (x * 30 + y * 30 + z * 40) div 100 \<and>
      (x * 30 + y * 30 + z * 40) div 100 \<le> max x (max y z)" for x y z :: int
    by (simp add: min_def max_def) linarith
  define p k c where "p = protocolScore (r_Protocols r)"
    and "k = keyExchangeScore (r_Certificate r) (r_ForwardSecrecy r)" and "c = cipherScore (r_Ciphers r)"
  have b: "0 \<le> p" "p \<le> 100" "0 \<le> k" "k \<le> 100" "0 \<le> c" "c \<le> 100"
    by (simp_all add: p_def k_def c_def score_bounds)
  have n: "0 \<le> (p * 30 + k * 30 + c * 40) div 100" "(p * 30 + k * 30 + c * 40) div 100 \<le> 100"
    using b by linarith+
  have "fst (rate r) = \<lparr>ProtocolScore = p, KeyExchangeScore = k, CipherScore = c,
      Numeric = (p * 30 + k * 30 + c * 40) div 100\<rparr>"
    by (simp add: rate_def Let_def p_def k_def c_def)
  then show ?thesis
    using b n weighted [of p k c] by (simp add: min.assoc max.assoc min_le_iff_disj le_max_iff_disj)
qed

section \<open>Caps\<close>

text \<open>
  \<open>capAt\<close> yields the better of its two grades, not the worse: it is the minimum of the order in
  which greater means worse.
\<close>

theorem capAt_is_better: "capAt current ceiling = min current ceiling"
  by (simp add: capAt_def min_def less_eq_grade_def not_le)

lemma capAt_min: "capAt g h = min g h"
  by (simp add: capAt_def min_def less_eq_grade_def not_le)

text \<open>The rule behind the grade: what the fatal conditions force, and which ceilings apply.\<close>

definition forced_grade :: "result \<Rightarrow> grade" where
  "forced_grade r =
     (if SSL2 (r_Protocols r) \<or> critical (r_Vulnerabilities r) then GradeF
      else if untrusted (r_Certificate r) then GradeT
      else numericToGrade (Numeric (fst (rate r))))"

definition ceilings :: "result \<Rightarrow> grade set" where
  "ceilings r =
     (if SSL3 (r_Protocols r) \<and> \<not> SSL2 (r_Protocols r) then {GradeC} else {}) \<union>
     (if \<not> r_ForwardSecrecy r then {GradeB} else {}) \<union>
     (if Insecure (r_Ciphers r) \<noteq> [] \<or> v_Freak (r_Vulnerabilities r) \<or> v_Logjam (r_Vulnerabilities r)
      then {GradeC} else {})"

definition clean_config :: "result \<Rightarrow> bool" where
  "clean_config r \<longleftrightarrow> TLS13 (r_Protocols r) \<and> Weak (r_Ciphers r) = [] \<and> Insecure (r_Ciphers r) = [] \<and>
     DaysToExpiry (r_Certificate r) > 30"

lemma grade_order [simp]:
  "GradeB \<le> GradeC" "\<not> GradeC \<le> GradeB" "GradeB < GradeC" "GradeA < GradeB" "GradeA < GradeC"
  by (simp_all add: less_eq_grade_def less_grade_def)

lemma min_grades [simp]: "min GradeB GradeC = GradeB" "min GradeC GradeB = GradeB"
  by (simp_all add: min_def)

lemma min_grades_left [simp]:
  "min GradeB (min GradeC g) = min GradeB g" "min GradeC (min GradeB g) = min GradeB g"
  "min GradeC (min GradeC g) = min GradeC g" "min GradeB (min GradeB g) = min GradeB g"
  by (simp_all add: min.assoc [symmetric])

lemma chained_caps:
  "(let h = (if b1 then min g GradeC else g);
        h = (if b2 then min h GradeB else h);
        h = (if b3 then min h GradeC else h);
        h = (if b4 then min h GradeC else h)
    in h) =
   Min (insert g ((if b1 then {GradeC} else {}) \<union> (if b2 then {GradeB} else {}) \<union>
                  (if b3 \<or> b4 then {GradeC} else {})))"
  by (cases b1; cases b2; cases b3; cases b4) (simp_all add: min.assoc min.commute min.left_commute)

lemma fst_cap_if: "fst (cap_if b name f st) = (if b then f (fst st) else fst st)"
  and snd_cap_if: "snd (cap_if b name f st) = snd st @ (if b then [name] else [])"
  by (simp_all add: cap_if_def)

lemma numeric_eq:
  "Numeric (fst (rate r)) = (protocolScore (r_Protocols r) * 30 +
     keyExchangeScore (r_Certificate r) (r_ForwardSecrecy r) * 30 + cipherScore (r_Ciphers r) * 40) div 100"
  by (simp only: rate_def Let_def fst_conv rating_breakdown.select_convs)

lemma rate_grade_steps:
  "rate_grade r =
     (let p = r_Protocols r; v = r_Vulnerabilities r; c = r_Ciphers r;
          g = numericToGrade (Numeric (fst (rate r)));
          g = (if untrusted (r_Certificate r) then GradeT else g);
          g = (if critical v then GradeF else g);
          g = (if SSL2 p then GradeF else if SSL3 p then min g GradeC else g);
          g = (if \<not> r_ForwardSecrecy r then min g GradeB else g);
          g = (if Insecure c \<noteq> [] then min g GradeC else g);
          g = (if v_Freak v \<or> v_Logjam v then min g GradeC else g)
      in if g = GradeA \<and> clean_config r then GradeAPlus else g)"
proof -
  have sel: "fst (if b then x else y) = (if b then fst x else fst y)" for b and x y :: rating_state
    by simp
  have conj: "(g = GradeA \<and> TLS13 (r_Protocols r) \<and> length (Weak (r_Ciphers r)) = 0 \<and>
      length (Insecure (r_Ciphers r)) = 0 \<and> DaysToExpiry (r_Certificate r) > 30) \<longleftrightarrow>
      g = GradeA \<and> clean_config r" for g
    by (simp add: clean_config_def)
  show ?thesis
    unfolding numeric_eq
    unfolding rate_grade_def rate_def Let_def fst_conv snd_conv conj
    unfolding fst_cap_if sel fst_conv capAt_min length_greater_0_conv if_True ..
qed

lemma rate_grade_eq:
  "rate_grade r =
     (let g = Min (insert (forced_grade r) (ceilings r))
      in if g = GradeA \<and> clean_config r then GradeAPlus else g)"
proof -
  define p v c where "p = r_Protocols r" and "v = r_Vulnerabilities r" and "c = r_Ciphers r"
  define n where "n = numericToGrade (Numeric (fst (rate r)))"
  define g where "g = forced_grade r"
  have g: "g = (if SSL2 p \<or> critical v then GradeF else if untrusted (r_Certificate r) then GradeT else n)"
    by (simp add: g_def forced_grade_def n_def p_def v_def)
  define h where "h = (let h = (if SSL3 p \<and> \<not> SSL2 p then min g GradeC else g);
           h = (if \<not> r_ForwardSecrecy r then min h GradeB else h);
           h = (if Insecure c \<noteq> [] then min h GradeC else h);
           h = (if v_Freak v \<or> v_Logjam v then min h GradeC else h) in h)"
  have first: "(let g = n; g = (if untrusted (r_Certificate r) then GradeT else g);
        g = (if critical v then GradeF else g)
      in if SSL2 p then GradeF else if SSL3 p then min g GradeC else g) =
      (if SSL3 p \<and> \<not> SSL2 p then min g GradeC else g)"
    by (simp add: g)
  have "rate_grade r = (if h = GradeA \<and> clean_config r then GradeAPlus else h)"
    unfolding rate_grade_steps p_def [symmetric] v_def [symmetric] c_def [symmetric] n_def [symmetric]
      h_def first [symmetric] by (simp only: Let_def)
  moreover have "h = Min (insert g (ceilings r))"
    unfolding h_def chained_caps
    by (simp add: ceilings_def p_def v_def c_def)
  ultimately show ?thesis by (simp add: g_def Let_def)
qed

text \<open>
  C4. The grade in one formula: take the grade that the fatal conditions or the number force, then the
  best among it and the ceilings that apply, and turn an A with a clean TLS 1.3 configuration into
  A+. (That the ceilings improve the grade instead of lowering it is how \<open>capAt\<close> works.)
\<close>

theorem rate_grade_formula:
  "rate_grade r =
     (let g = Min (insert (forced_grade r) (ceilings r))
      in if g = GradeA \<and> clean_config r then GradeAPlus else g)"
  by (rule rate_grade_eq)

lemma ceilings_finite: "finite (ceilings r)" and ceilings_sub: "ceilings r \<subseteq> {GradeB, GradeC}"
  by (auto simp: ceilings_def)

lemma rate_grade_le_forced: "rate_grade r \<le> forced_grade r"
proof -
  have "Min (insert (forced_grade r) (ceilings r)) \<le> forced_grade r"
    by (simp add: ceilings_finite)
  then show ?thesis
    by (auto simp: rate_grade_eq Let_def less_eq_grade_def)
qed

text \<open>
  No cap ever lowers a grade: whatever SSLv3, missing forward secrecy, insecure or export ciphers
  a host has, its final grade is at least as good as the one without those caps.
\<close>

theorem caps_never_lower: "gradeRank (rate_grade r) \<le> gradeRank (forced_grade r)"
  using rate_grade_le_forced [of r] by (simp add: less_eq_grade_def)

text \<open>
  C5. Fatal conditions are not final. A host with a critical vulnerability or an untrusted certificate
  that also lacks forward secrecy, or offers SSLv3 (without SSLv2), insecure or export ciphers, is
  graded B or C, never F or T.
\<close>

theorem fatal_grade_escapes:
  assumes "critical (r_Vulnerabilities r) \<or> SSL2 (r_Protocols r) \<or> untrusted (r_Certificate r)"
    and "ceilings r \<noteq> {}"
  shows "rate_grade r \<in> {GradeB, GradeC}"
proof -
  have f: "forced_grade r \<in> {GradeF, GradeT}" using assms(1) by (auto simp: forced_grade_def)
  have "ceilings r = {GradeB} \<or> ceilings r = {GradeC} \<or> ceilings r = {GradeB, GradeC}"
    using assms(2) ceilings_sub [of r] by auto
  then show ?thesis
    using f by (elim disjE insertE emptyE)
      (simp_all add: rate_grade_eq Let_def min_def less_eq_grade_def)
qed

text \<open>The result of scanning a host that nothing can be read from.\<close>

definition empty_result :: result where
  "empty_result = \<lparr>r_Host = [], r_Port = 443, r_Grade = None, r_GradeCaps = [],
     r_Protocols = no_protocols, r_Certificate = no_certificate, r_Ciphers = no_ciphers,
     r_ForwardSecrecy = False, r_Vulnerabilities = no_vulnerabilities, r_Rating = no_rating,
     r_ScanDurationMs = 0, r_RulesetVersion = [], r_Errors = []\<rparr>"

theorem fatal_grade_escapes_witness:
  "rate_grade (empty_result\<lparr>r_Vulnerabilities := no_vulnerabilities\<lparr>v_Heartbleed := True\<rparr>\<rparr>) \<in> {GradeB, GradeC}"
  by (rule fatal_grade_escapes)
     (simp_all add: critical_def ceilings_def empty_result_def)

text \<open>
  A host that answers nothing at all, with no protocol, no certificate and no cipher, and a score
  of 0, is graded B.
\<close>

theorem unreachable_host_graded_B:
  "rate empty_result =
     (\<lparr>ProtocolScore = 0, KeyExchangeScore = 0, CipherScore = 0, Numeric = 0\<rparr>, GradeB,
      [''certificate-trust'', ''no-forward-secrecy''])"
  by (simp add: rate_def empty_result_def Let_def cap_if_def untrusted_def critical_def
      no_certificate_def no_vulnerabilities_def no_protocols_def no_ciphers_def protocolScore_def
      keyExchangeScore_def cipherScore_def capAt_def)

text \<open>
  The list of caps names exactly the conditions that hold, in the order of the rules.
\<close>

theorem rate_caps:
  "snd (snd (rate r)) = map fst (filter snd
     [(''certificate-trust'', untrusted (r_Certificate r)),
      (''critical-vulnerability'', critical (r_Vulnerabilities r)),
      (''ssl2-enabled'', SSL2 (r_Protocols r)),
      (''ssl3-enabled'', SSL3 (r_Protocols r) \<and> \<not> SSL2 (r_Protocols r)),
      (''no-forward-secrecy'', \<not> r_ForwardSecrecy r),
      (''insecure-cipher'', Insecure (r_Ciphers r) \<noteq> []),
      (''export-cipher'', v_Freak (r_Vulnerabilities r) \<or> v_Logjam (r_Vulnerabilities r))])"
proof -
  have sel: "snd (if b then x else y) = (if b then snd x else snd y)" for b and x y :: rating_state by simp
  have names: "map fst (filter snd ((n, b) # ps)) = (if b then [n] else []) @ map fst (filter snd ps)"
    for n :: string and b ps by simp
  show ?thesis
    unfolding rate_def Let_def snd_conv snd_cap_if sel names length_greater_0_conv
    by (cases "SSL2 (r_Protocols r)") simp_all
qed

text \<open>
  A+ is given exactly to a trusted host with a score of at least 80, no critical vulnerability and
  no SSLv2, that offers TLS 1.3, has no weak or insecure cipher, and whose certificate is valid for
  more than 30 days. Forward secrecy is not required, although its absence is meant to cap at B.
\<close>

theorem rate_A_plus_iff:
  "rate_grade r = GradeAPlus \<longleftrightarrow>
     80 \<le> Numeric (fst (rate r)) \<and> \<not> untrusted (r_Certificate r) \<and>
     \<not> critical (r_Vulnerabilities r) \<and> \<not> SSL2 (r_Protocols r) \<and> clean_config r"
proof -
  have num: "numericToGrade n = GradeA \<longleftrightarrow> 80 \<le> n" "numericToGrade n \<noteq> GradeAPlus" for n
    by (simp_all add: numericToGrade_def)
  have A: "Min (insert g (ceilings r)) = GradeA \<longleftrightarrow> g = GradeA" if "g \<noteq> GradeAPlus" for g
  proof -
    have "ceilings r = {} \<or> ceilings r = {GradeB} \<or> ceilings r = {GradeC} \<or> ceilings r = {GradeB, GradeC}"
      using ceilings_sub [of r] by auto
    then show ?thesis
      using that by (elim disjE) (cases g; simp add: min_def less_eq_grade_def)+
  qed
  have P: "Min (insert g (ceilings r)) \<noteq> GradeAPlus" if "g \<noteq> GradeAPlus" for g
  proof -
    have "ceilings r = {} \<or> ceilings r = {GradeB} \<or> ceilings r = {GradeC} \<or> ceilings r = {GradeB, GradeC}"
      using ceilings_sub [of r] by auto
    then show ?thesis
      using that by (elim disjE) (cases g; simp add: min_def less_eq_grade_def)+
  qed
  have f: "forced_grade r \<noteq> GradeAPlus" using num(2) by (simp add: forced_grade_def)
  have "rate_grade r = GradeAPlus \<longleftrightarrow> forced_grade r = GradeA \<and> clean_config r"
    using A [OF f] P [OF f] by (simp add: rate_grade_eq Let_def)
  then show ?thesis
    using num(1) by (auto simp: forced_grade_def)
qed

end
