(* ===== verification/Pkcs1.thy ===== *)
theory Pkcs1
  imports Prelude
begin

text \<open>
  The plaintext blocks and the RSA encryption of the ROBOT probe (internal/handshake/robot.go):
  \<open>buildPKCS1Vector\<close> and \<open>rsaEncrypt\<close>. The blocks are judged by a strict decoder of PKCS#1 v1.5
  encryption padding, and the encryption by the arithmetic it stands for. Indexing out of a block is
  a run-time panic, \<open>None\<close>.
\<close>

section \<open>Writing into a block\<close>

definition set_at :: "nat \<Rightarrow> byte \<Rightarrow> bytes \<Rightarrow> bytes option" where
  "set_at i v b = (if i < length b then Some (b[i := v]) else None)"

text \<open>\<open>fillNonZero(b[i:j])\<close>.\<close>

definition fillNonZero :: "nat \<Rightarrow> nat \<Rightarrow> bytes \<Rightarrow> bytes option" where
  "fillNonZero i j b =
     (if i \<le> j \<and> j \<le> length b then Some (take i b @ replicate (j - i) 0xff @ drop j b) else None)"

text \<open>\<open>copy(b[i:], src)\<close>: as many bytes as fit.\<close>

definition copy_at :: "nat \<Rightarrow> bytes \<Rightarrow> bytes \<Rightarrow> bytes option" where
  "copy_at i src b =
     (if i \<le> length b
      then Some (take i b @ take (length b - i) src @ drop (i + length src) b) else None)"

section \<open>buildPKCS1Vector\<close>

datatype robotVectorKind =
  vecCorrect | vecWrongFirstBytes | vecNo0x00 | vec0x00InPadding | vec0x00AtWrongPMSPos

definition allRobotVectors :: "robotVectorKind list" where
  "allRobotVectors =
     [vecCorrect, vecWrongFirstBytes, vecNo0x00, vec0x00InPadding, vec0x00AtWrongPMSPos]"

definition padding_len :: "nat \<Rightarrow> bytes \<Rightarrow> nat" where
  "padding_len k pms =
     (let psLen = int k - 3 - int (length pms) in if psLen < 8 then 8 else nat psLen)"

fun buildPKCS1Vector :: "robotVectorKind \<Rightarrow> nat \<Rightarrow> bytes \<Rightarrow> bytes option" where
  "buildPKCS1Vector vecCorrect k pms =
     (let psLen = padding_len k pms in
      do { b \<leftarrow> set_at 0 0x00 (replicate k 0);
           b \<leftarrow> set_at 1 0x02 b;
           b \<leftarrow> fillNonZero 2 (2 + psLen) b;
           b \<leftarrow> set_at (2 + psLen) 0x00 b;
           copy_at (3 + psLen) pms b })"
| "buildPKCS1Vector vecWrongFirstBytes k pms =
     (let psLen = padding_len k pms in
      do { b \<leftarrow> fillNonZero 0 k (replicate k 0);
           b \<leftarrow> set_at 0 0x41 b;
           b \<leftarrow> set_at 1 0x17 b;
           b \<leftarrow> fillNonZero 2 (2 + psLen) b;
           b \<leftarrow> set_at (2 + psLen) 0x00 b;
           copy_at (3 + psLen) pms b })"
| "buildPKCS1Vector vecNo0x00 k pms =
     do { b \<leftarrow> set_at 0 0x00 (replicate k 0);
          b \<leftarrow> set_at 1 0x02 b;
          fillNonZero 2 k b }"
| "buildPKCS1Vector vec0x00InPadding k pms =
     do { b \<leftarrow> set_at 0 0x00 (replicate k 0);
          b \<leftarrow> set_at 1 0x02 b;
          b \<leftarrow> fillNonZero 2 k b;
          set_at 4 0x00 b }"
| "buildPKCS1Vector vec0x00AtWrongPMSPos k pms =
     (let psLen = padding_len k pms in
      do { b \<leftarrow> set_at 0 0x00 (replicate k 0);
           b \<leftarrow> set_at 1 0x02 b;
           b \<leftarrow> fillNonZero 2 (2 + psLen) b;
           b \<leftarrow> set_at (2 + psLen) 0x00 b;
           let wrong = (if length pms \<ge> 2 then pms[0 := 0x02, 1 := 0x02] else pms);
           copy_at (3 + psLen) wrong b })"

subsection \<open>The blocks\<close>

definition framed :: "byte \<Rightarrow> byte \<Rightarrow> nat \<Rightarrow> bytes \<Rightarrow> bytes" where
  "framed a b n m = [a, b] @ replicate n 0xff @ [0x00] @ m"

lemma block_steps:
  assumes "k = n + 3 + length m" and "length b0 = k"
  shows "set_at 0 x b0 \<bind> (\<lambda>b. set_at 1 y b \<bind> (\<lambda>b. fillNonZero 2 (2 + n) b \<bind>
           (\<lambda>b. set_at (2 + n) 0x00 b \<bind> copy_at (3 + n) m))) = Some (framed x y n m)"
proof -
  obtain p q r where b0: "b0 = p # q # r" and r: "length r = n + 1 + length m"
    using assms by (cases b0; cases "tl b0") auto
  define s where "s = replicate n (0xff :: byte) @ drop n r"
  have s: "length s = n + 1 + length m" by (simp add: s_def r)
  have "fillNonZero 2 (2 + n) (x # y # r) = Some (x # y # s)"
    using r by (simp add: fillNonZero_def s_def numeral_2_eq_2)
  moreover have "set_at (2 + n) 0 (x # y # s) = Some (x # y # s[n := 0])"
    using s by (simp add: set_at_def)
  moreover have "s[n := 0] = replicate n 0xff @ 0 # drop (Suc n) r"
    using r by (simp add: s_def list_update_append upd_conv_take_nth_drop drop_drop)
  moreover have "copy_at (3 + n) m (x # y # replicate n 0xff @ 0 # drop (Suc n) r) = Some (framed x y n m)"
    using r by (simp add: copy_at_def framed_def numeral_3_eq_3)
  ultimately show ?thesis
    using b0 by (simp add: set_at_def)
qed

lemma padding_len_big: "11 + length pms \<le> k \<Longrightarrow> padding_len k pms = k - 3 - length pms"
  by (simp add: padding_len_def Let_def)

lemma correct_block:
  assumes "11 + length pms \<le> k"
  shows "buildPKCS1Vector vecCorrect k pms = Some (framed 0 2 (k - 3 - length pms) pms)"
  using block_steps [of k "k - 3 - length pms" pms "replicate k 0" 0 2] assms
  by (simp add: padding_len_big Let_def)

lemma fill_all: "fillNonZero 0 k (replicate k 0) = Some (replicate k 0xff)"
  by (simp add: fillNonZero_def)

lemma wrong_first_block:
  assumes "11 + length pms \<le> k"
  shows "buildPKCS1Vector vecWrongFirstBytes k pms = Some (framed 0x41 0x17 (k - 3 - length pms) pms)"
  using block_steps [of k "k - 3 - length pms" pms "replicate k 0xff" "0x41" "0x17"] assms
  by (simp add: padding_len_big Let_def fill_all)

definition wrong_version :: "bytes \<Rightarrow> bytes" where
  "wrong_version pms = [0x02, 0x02] @ drop 2 pms"

lemma wrong_pms_block:
  assumes "11 + length pms \<le> k" and "2 \<le> length pms"
  shows "buildPKCS1Vector vec0x00AtWrongPMSPos k pms =
    Some (framed 0 2 (k - 3 - length pms) (wrong_version pms))"
proof -
  have w: "pms[0 := 0x02, 1 := 0x02] = wrong_version pms"
    using assms(2) by (cases pms; cases "tl pms") (auto simp: wrong_version_def)
  have l: "length (wrong_version pms) = length pms" using assms(2) by (simp add: wrong_version_def)
  show ?thesis
    using block_steps [of k "k - 3 - length pms" "wrong_version pms" "replicate k 0" 0 2] assms l
    by (simp add: padding_len_big Let_def w [simplified])
qed

lemma no_zero_block:
  assumes "2 \<le> k"
  shows "buildPKCS1Vector vecNo0x00 k pms = Some ([0, 2] @ replicate (k - 2) 0xff)"
proof -
  obtain n where "k = Suc (Suc n)" using assms by (auto simp: le_iff_add)
  then show ?thesis by (simp add: set_at_def fillNonZero_def numeral_2_eq_2)
qed

lemma early_zero_block:
  assumes "5 \<le> k"
  shows "buildPKCS1Vector vec0x00InPadding k pms =
    Some ([0, 2, 0xff, 0xff, 0] @ replicate (k - 5) 0xff)"
proof -
  obtain n where k: "k = Suc (Suc (Suc (Suc (Suc n))))"
    using assms by (auto simp: le_iff_add numeral_eq_Suc)
  show ?thesis by (simp add: k set_at_def fillNonZero_def numeral_eq_Suc)
qed

section \<open>Judging the blocks: PKCS#1 v1.5 decoding\<close>

text \<open>
  EME-PKCS1-v1_5 decoding (RFC 8017, 7.2.2): \<open>00 02\<close>, at least eight non-zero bytes, \<open>00\<close>, message.
\<close>

definition pkcs1_decode :: "bytes \<Rightarrow> bytes option" where
  "pkcs1_decode block =
     (case block of
        a # b # r \<Rightarrow>
          let ps = takeWhile (\<lambda>x. x \<noteq> 0) r
          in if a = 0 \<and> b = 2 \<and> 8 \<le> length ps \<and> length ps < length r
             then Some (drop (Suc (length ps)) r) else None
      | _ \<Rightarrow> None)"

text \<open>What a TLS server must find in an RSA key exchange: 48 bytes that start with the version.\<close>

definition pms_ok :: "bytes \<Rightarrow> bool" where
  "pms_ok m \<longleftrightarrow> length m = 48 \<and> take 2 m = [0x03, 0x03]"

lemma takeWhile_framed: "takeWhile (\<lambda>x. x \<noteq> 0) (replicate n (0xff :: byte) @ 0 # m) = replicate n 0xff"
  by (induction n) simp_all

lemma decode_framed:
  "8 \<le> n \<Longrightarrow> pkcs1_decode (framed a b n m) = (if a = 0 \<and> b = 2 then Some m else None)"
  by (simp add: pkcs1_decode_def framed_def takeWhile_framed Let_def)

lemma takeWhile_all: "takeWhile (\<lambda>x. x \<noteq> 0) (replicate n (0xff :: byte)) = replicate n 0xff"
  by (induction n) simp_all

lemma length_framed: "length (framed a b n m) = 3 + n + length m"
  by (simp add: framed_def)

lemma vector_blocks:
  assumes "11 + length pms \<le> k" and "pms_ok pms"
  shows "\<exists>b. buildPKCS1Vector kind k pms = Some b \<and> length b = k \<and>
    pkcs1_decode b =
      (case kind of vecCorrect \<Rightarrow> Some pms | vec0x00AtWrongPMSPos \<Rightarrow> Some (wrong_version pms) | _ \<Rightarrow> None) \<and>
    length (wrong_version pms) = length pms \<and> \<not> pms_ok (wrong_version pms)"
proof -
  have w: "2 \<le> length pms" "length (wrong_version pms) = length pms"
    "\<not> pms_ok (wrong_version pms)"
    using assms(2) by (auto simp: pms_ok_def wrong_version_def)
  have n: "8 \<le> k - 3 - length pms" "2 \<le> k" "5 \<le> k" using assms(1) by auto
  show ?thesis
    using w assms(1) n
    by (cases kind)
       (simp_all add: correct_block wrong_first_block wrong_pms_block no_zero_block early_zero_block
         decode_framed length_framed del: buildPKCS1Vector.simps,
        simp_all add: pkcs1_decode_def takeWhile_all Let_def)
qed

text \<open>
  C28. The five test blocks. For every modulus that leaves room for the padding (\<open>k \<ge> 59\<close> bytes for a
  48-byte premaster), each block has exactly \<open>k\<close> bytes; only the well-formed one decodes to the
  premaster; wrong first bytes, no delimiter and an early delimiter do not decode at all; and the
  fifth decodes to a message of the right length whose version bytes are wrong.
\<close>

theorem buildPKCS1Vector_decodes:
  assumes "11 + length pms \<le> k" and "pms_ok pms"
  shows "\<exists>b. buildPKCS1Vector kind k pms = Some b \<and> length b = k \<and>
    pkcs1_decode b =
      (case kind of vecCorrect \<Rightarrow> Some pms | vec0x00AtWrongPMSPos \<Rightarrow> Some (wrong_version pms) | _ \<Rightarrow> None) \<and>
    length (wrong_version pms) = length pms \<and> \<not> pms_ok (wrong_version pms)"
  using assms by (rule vector_blocks)

theorem buildPKCS1Vector_decodes_witness:
  "\<exists>b. buildPKCS1Vector vecCorrect 64 ([3, 3] @ replicate 46 7) = Some b \<and> length b = 64 \<and>
     pkcs1_decode b = Some ([3, 3] @ replicate 46 7)"
  using buildPKCS1Vector_decodes [of "[3, 3] @ replicate 46 7" 64 vecCorrect]
  by (auto simp: pms_ok_def simp del: buildPKCS1Vector.simps)

lemma buildPKCS1Vector_small: "buildPKCS1Vector vecCorrect k pms = None \<longleftrightarrow> k < 11"
proof (cases "k < 11")
  case True
  then have "padding_len k pms = 8" by (simp add: padding_len_def Let_def)
  with True show ?thesis
    by (auto simp: set_at_def fillNonZero_def copy_at_def Option.bind_eq_None_conv split: if_splits)
next
  case False
  define n where "n = padding_len k pms"
  have "11 \<le> k" "3 + n \<le> k" using False by (auto simp: n_def padding_len_def Let_def)
  then show ?thesis
    by (simp add: set_at_def fillNonZero_def copy_at_def n_def [symmetric] Let_def)
qed

text \<open>
  The clamp of the padding length does not make the construction total: with a modulus of fewer
  than 11 bytes, building the very first block writes outside it, a run-time panic; with 11 bytes or
  more it never does, whatever the premaster.
\<close>

theorem buildPKCS1Vector_panics_iff: "buildPKCS1Vector vecCorrect k pms = None \<longleftrightarrow> k < 11"
  by (rule buildPKCS1Vector_small)

section \<open>rsaEncrypt\<close>

text \<open>
  An \<open>rsa.PublicKey\<close>. \<open>big.Int\<close> values are natural numbers; \<open>be_nat\<close> is \<open>SetBytes\<close>, \<open>nat_be\<close> is \<open>Bytes\<close>
  (big endian without leading zeros) and \<open>bit_len\<close> is \<open>BitLen\<close>.
\<close>

record rsa_key =
  pk_n :: nat
  pk_e :: nat

definition be_nat :: "bytes \<Rightarrow> nat" where
  "be_nat bs = foldl (\<lambda>a b. a * 256 + unat b) 0 bs"

fun nat_be_acc :: "nat \<Rightarrow> bytes \<Rightarrow> bytes" where
  "nat_be_acc n acc = (if n = 0 then acc else nat_be_acc (n div 256) (of_nat n # acc))"

declare nat_be_acc.simps [simp del]

definition nat_be :: "nat \<Rightarrow> bytes" where
  "nat_be n = nat_be_acc n []"

fun bit_len :: "nat \<Rightarrow> nat" where
  "bit_len n = (if n = 0 then 0 else Suc (bit_len (n div 2)))"

declare bit_len.simps [simp del]

text \<open>The size of the modulus in bytes, \<open>(pub.N.BitLen() + 7) / 8\<close>.\<close>

definition key_size :: "rsa_key \<Rightarrow> nat" where
  "key_size pub = (bit_len (pk_n pub) + 7) div 8"

definition rsaEncrypt :: "rsa_key \<Rightarrow> bytes \<Rightarrow> bytes" where
  "rsaEncrypt pub block =
     (let k = key_size pub;
          m = be_nat block;
          c = m ^ pk_e pub mod pk_n pub;
          out = nat_be c
      in if length out < k then replicate (k - length out) 0 @ out else out)"

lemma foldl_be: "foldl (\<lambda>a b. a * 256 + unat (b :: byte)) x bs = x * 256 ^ length bs + be_nat bs"
proof (induction bs arbitrary: x)
  case Nil
  then show ?case by (simp add: be_nat_def)
next
  case (Cons b bs)
  have "be_nat (b # bs) = foldl (\<lambda>a b. a * 256 + unat b) (unat b) bs" by (simp add: be_nat_def)
  also have "\<dots> = unat b * 256 ^ length bs + be_nat bs" by (rule Cons.IH)
  finally have "be_nat (b # bs) = unat b * 256 ^ length bs + be_nat bs" .
  with Cons.IH [of "x * 256 + unat b"] show ?case by (simp add: algebra_simps)
qed

lemma be_nat_Cons: "be_nat (b # bs) = unat b * 256 ^ length bs + be_nat bs"
  using foldl_be [of "unat b" bs] by (simp add: be_nat_def)

lemma be_nat_Nil [simp]: "be_nat [] = 0"
  by (simp add: be_nat_def)

lemma two_digits:
  assumes "v < m" "k < (m :: nat)"
  shows "u * m + v = h * m + k \<longleftrightarrow> u = h \<and> v = k"
proof
  assume e: "u * m + v = h * m + k"
  show "u = h \<and> v = k"
    using arg_cong [OF e, of "\<lambda>t. t div m"] arg_cong [OF e, of "\<lambda>t. t mod m"] assms by simp
qed simp

lemma be_nat_less: "be_nat bs < 256 ^ length bs"
proof (induction bs)
  case Nil
  then show ?case by simp
next
  case (Cons b bs)
  have "unat b * 256 ^ length bs + be_nat bs < (unat b + 1) * 256 ^ length bs"
    using Cons by (simp add: algebra_simps)
  also have "\<dots> \<le> 256 * 256 ^ length bs"
    using unat_byte_less [of b] by (intro mult_right_mono) auto
  finally show ?case by (simp add: be_nat_Cons)
qed

lemma be_nat_inject: "length xs = length ys \<Longrightarrow> be_nat xs = be_nat ys \<longleftrightarrow> xs = ys"
proof (induction xs ys rule: list_induct2)
  case Nil
  then show ?case by simp
next
  case (Cons x xs y ys)
  then have "be_nat (x # xs) = be_nat (y # ys) \<longleftrightarrow> unat x = unat y \<and> be_nat xs = be_nat ys"
    using two_digits [OF be_nat_less [of xs], of "be_nat ys" "unat x" "unat y"] be_nat_less [of ys]
    by (simp add: be_nat_Cons)
  with Cons.IH show ?case by (simp add: word_unat_eq_iff)
qed

lemma be_nat_zeros [simp]: "be_nat (replicate n 0 @ bs) = be_nat bs"
  by (induction n) (simp_all add: be_nat_Cons)

lemma regroup:
  "q * 256 ^ length (b # bs) + (r * 256 ^ length bs + z) = (q * 256 + r) * 256 ^ length bs + (z :: nat)"
  by (simp add: algebra_simps)

lemma be_nat_acc: "be_nat (nat_be_acc n acc) = n * 256 ^ length acc + be_nat acc"
proof (induction n acc rule: nat_be_acc.induct)
  case (1 n acc)
  show ?case
  proof (cases "n = 0")
    case True
    then show ?thesis by (simp add: nat_be_acc.simps)
  next
    case False
    have "be_nat (nat_be_acc n acc) = (n div 256) * 256 ^ length (of_nat n # acc) + be_nat (of_nat n # acc)"
      using "1.IH" [OF False] False by (simp add: nat_be_acc.simps [of n])
    also have "\<dots> = ((n div 256) * 256 + n mod 256) * 256 ^ length acc + be_nat acc"
      unfolding be_nat_Cons unat_byte_of_nat by (rule regroup)
    finally show ?thesis by (simp only: div_mult_mod_eq)
  qed
qed

lemma be_nat_nat_be: "be_nat (nat_be n) = n"
  by (simp add: nat_be_def be_nat_acc)

lemma length_nat_be_acc: "n < 256 ^ k \<Longrightarrow> length (nat_be_acc n acc) \<le> k + length acc"
proof (induction n acc arbitrary: k rule: nat_be_acc.induct)
  case (1 n acc)
  show ?case
  proof (cases "n = 0")
    case True
    then show ?thesis by (simp add: nat_be_acc.simps)
  next
    case False
    with "1.prems" obtain k' where k: "k = Suc k'" by (cases k) auto
    with "1.prems" have "n div 256 < 256 ^ k'"
      by (simp add: less_mult_imp_div_less mult.commute)
    from "1.IH" [OF False this] False k show ?thesis by (simp add: nat_be_acc.simps [of n])
  qed
qed

lemma length_nat_be: "n < 256 ^ k \<Longrightarrow> length (nat_be n) \<le> k"
  using length_nat_be_acc [of n k "[]"] by (simp add: nat_be_def)

lemma bit_len_bound: "n < 2 ^ bit_len n"
proof (induction n rule: bit_len.induct)
  case (1 n)
  then show ?case
    by (cases "n = 0") (auto simp: bit_len.simps [of n])
qed

lemma rsaEncrypt_spec:
  assumes "0 < pk_n pub"
  shows "length (rsaEncrypt pub block) = key_size pub \<and>
    be_nat (rsaEncrypt pub block) = be_nat block ^ pk_e pub mod pk_n pub"
proof -
  define c where "c = be_nat block ^ pk_e pub mod pk_n pub"
  have "c < pk_n pub" using assms by (simp add: c_def)
  also have "pk_n pub < 2 ^ bit_len (pk_n pub)" by (rule bit_len_bound)
  also have "\<dots> \<le> 2 ^ (8 * key_size pub)" by (rule power_increasing) (auto simp: key_size_def)
  also have "\<dots> = 256 ^ key_size pub" by (simp add: power_mult)
  finally have "length (nat_be c) \<le> key_size pub" by (rule length_nat_be)
  then show ?thesis
    by (auto simp: rsaEncrypt_def c_def [symmetric] be_nat_nat_be Let_def)
qed

text \<open>
  C29. \<open>rsaEncrypt\<close> is the RSA function: its output has exactly the size of the modulus in bytes,
  leading zeros included, and read as a big-endian number it is \<open>block ^ e mod N\<close>.
\<close>

theorem rsaEncrypt_correct:
  assumes "0 < pk_n pub"
  shows "length (rsaEncrypt pub block) = key_size pub \<and>
    be_nat (rsaEncrypt pub block) = be_nat block ^ pk_e pub mod pk_n pub"
  using assms by (rule rsaEncrypt_spec)

theorem rsaEncrypt_correct_witness:
  "length (rsaEncrypt \<lparr>pk_n = 3233, pk_e = 17\<rparr> [1, 2]) = 2 \<and>
   be_nat (rsaEncrypt \<lparr>pk_n = 3233, pk_e = 17\<rparr> [1, 2]) = 258 ^ 17 mod 3233"
proof -
  have "bit_len 3233 = 12" by (simp add: bit_len.simps)
  then have "key_size \<lparr>pk_n = 3233, pk_e = 17\<rparr> = 2" by (simp add: key_size_def)
  then show ?thesis
    using rsaEncrypt_correct [of "\<lparr>pk_n = 3233, pk_e = 17\<rparr>" "[1, 2]"] by (simp add: be_nat_Cons)
qed

end
