(* ===== verification/Tls.thy ===== *)
theory Tls
  imports Probing Pkcs1
begin

text \<open>
  What pkg/tlsscan uses of \<open>crypto/tls\<close> and \<open>crypto/x509\<close>: the client configuration it sets, the
  connection state and the certificate fields it reads. The handshake itself is a parameter
  \<open>tls :: tls_client\<close> of the model: on an open connection it yields an error or a state. What the scan
  relies on is its contract \<open>tls_contract\<close>: it uses its connection within the deadline and opens and
  closes none.
\<close>

datatype public_key = RSAKey rsa_key | ECDSAKey nat | OtherKey

record x509_cert =
  cert_Subject :: string
  cert_Issuer :: string
  cert_NotBefore :: int
  cert_NotAfter :: int
  cert_SignatureAlgorithm :: string
  cert_DNSNames :: "string list"
  cert_PublicKey :: public_key
  cert_Raw :: bytes

record tls_config =
  tc_ServerName :: string
  tc_MinVersion :: nat
  tc_MaxVersion :: nat
  tc_CipherSuites :: "nat list"
  tc_NextProtos :: "string list"

record conn_state =
  cs_Version :: nat
  cs_PeerCertificates :: "x509_cert list"
  cs_NegotiatedProtocol :: string

type_synonym tls_client =
  "int option \<Rightarrow> tls_config \<Rightarrow> conn \<Rightarrow> world \<Rightarrow> (net_err + conn_state) \<times> conn \<times> world"

definition VersionTLS10 :: nat where "VersionTLS10 = 0x0301"
definition VersionTLS11 :: nat where "VersionTLS11 = 0x0302"
definition VersionTLS12 :: nat where "VersionTLS12 = 0x0303"
definition VersionTLS13 :: nat where "VersionTLS13 = 0x0304"

definition tls_contract :: "tls_client \<Rightarrow> bool" where
  "tls_contract tls \<longleftrightarrow> (\<forall>ctx cfg. conn_body (tls ctx cfg) 0)"

text \<open>A handshake whose outcome is then judged.\<close>

definition handshake ::
  "tls_client \<Rightarrow> int option \<Rightarrow> tls_config \<Rightarrow> (net_err + conn_state \<Rightarrow> 'r) \<Rightarrow> conn \<Rightarrow> world \<Rightarrow>
   'r \<times> conn \<times> world" where
  "handshake tls ctx cfg judge c w =
     (case tls ctx cfg c w of (r, c', w') \<Rightarrow> (judge r, c', w'))"

lemma tls_body: "tls_contract tls \<Longrightarrow> conn_body (tls ctx cfg) 0"
  by (simp add: tls_contract_def)

lemma handshake_body:
  assumes "tls_contract tls"
  shows "conn_body (handshake tls ctx cfg judge) 0"
proof
  note t = tls_body [OF assms, of ctx cfg]
  fix c w r c' w' lim
  assume "handshake tls ctx cfg judge c w = (r, c', w')"
  then obtain x where x: "tls ctx cfg c w = (x, c', w')"
    by (auto simp: handshake_def split: prod.splits)
  show "w_open w' = w_open w \<and> w_now w' = w_now w" by (rule conn_body.body_world [OF t x])
  assume "in_time lim c"
  then show "c_now c \<le> c_now c'" and "c_now c' \<le> lim + 0"
    using conn_body.body_forward [OF t x] conn_body.body_time [OF t x] by auto
qed simp

lemma handshake_net_op:
  assumes "tls_contract tls"
  shows "net_op (with_conn ctx timeout fail (handshake tls ctx cfg judge)) (timeout \<noteq> 0) (2 * max 0 timeout)"
  using conn_body.bracket_net_op [OF handshake_body [OF assms]] by simp

lemma handshake_stops:
  assumes "tls_contract tls"
  shows "stops (with_conn (Some d) timeout fail (handshake tls ctx cfg judge)) (d + max 0 timeout)"
  using conn_body.bracket_stops [OF handshake_body [OF assms]] by simp

text \<open>A handshake that always fails, and one that always succeeds at once: the simplest instances.\<close>

definition refusing_tls :: tls_client where
  "refusing_tls ctx cfg c w = (Inl err_eof, c, w)"

definition agreeing_tls :: "conn_state \<Rightarrow> tls_client" where
  "agreeing_tls st ctx cfg c w = (Inr st, c, w)"

lemma example_contracts: "tls_contract refusing_tls" "tls_contract (agreeing_tls st)"
  by (auto simp: tls_contract_def conn_body_def refusing_tls_def agreeing_tls_def dest: in_time_now)

end
