(* ===== verification/Ciphers.thy ===== *)
theory Ciphers
  imports Tls Types "HOL-Library.Multiset"
begin

text \<open>
  The cipher enumeration of pkg/tlsscan/ciphers.go and the name searches of vulns.go that read its
  result. The catalog is a Go map: the order in which \<open>range\<close> visits it is unspecified and differs
  from run to run, so it is an argument \<open>order\<close> of the model.
\<close>

section \<open>The catalog\<close>

record cipher_meta =
  cm_id :: nat
  cm_name :: string
  cm_class :: string
  cm_forwardS :: bool

definition meta :: "nat \<Rightarrow> string \<Rightarrow> string \<Rightarrow> bool \<Rightarrow> cipher_meta" where
  "meta i n c f = \<lparr>cm_id = i, cm_name = n, cm_class = c, cm_forwardS = f\<rparr>"

definition cipherCatalog :: "cipher_meta list" where
  "cipherCatalog =
     [meta 0x1301 ''TLS_AES_128_GCM_SHA256'' ''strong'' True,
      meta 0x1302 ''TLS_AES_256_GCM_SHA384'' ''strong'' True,
      meta 0x1303 ''TLS_CHACHA20_POLY1305_SHA256'' ''strong'' True,
      meta 0xc02f ''ECDHE_RSA_AES_128_GCM'' ''strong'' True,
      meta 0xc030 ''ECDHE_RSA_AES_256_GCM'' ''strong'' True,
      meta 0xc02b ''ECDHE_ECDSA_AES_128_GCM'' ''strong'' True,
      meta 0xc013 ''ECDHE_RSA_AES_128_CBC_SHA'' ''weak'' True,
      meta 0x009c ''RSA_AES_128_GCM'' ''weak'' False,
      meta 0x002f ''RSA_AES_128_CBC_SHA'' ''weak'' False,
      meta 0x000a ''RSA_3DES_EDE_CBC_SHA'' ''insecure'' False,
      meta 0xc011 ''ECDHE_RSA_RC4_128_SHA'' ''insecure'' True]"

section \<open>Probing\<close>

definition cipher_config :: "options \<Rightarrow> nat \<Rightarrow> tls_config" where
  "cipher_config opts suite =
     \<lparr>tc_ServerName = Host opts, tc_MinVersion = VersionTLS12, tc_MaxVersion = VersionTLS12,
      tc_CipherSuites = [suite], tc_NextProtos = []\<rparr>"

definition cipherAccepted :: "tls_client \<Rightarrow> int option \<Rightarrow> options \<Rightarrow> nat \<Rightarrow> world \<Rightarrow> bool \<times> world" where
  "cipherAccepted tls ctx opts suite =
     with_conn ctx (Timeout opts) (\<lambda>_. False)
       (handshake tls ctx (cipher_config opts suite) (\<lambda>r. case r of Inl e \<Rightarrow> False | Inr st \<Rightarrow> True))"

text \<open>One round of the loop: file the accepted suite under its class and note forward secrecy.\<close>

definition add_cipher :: "cipher_meta \<Rightarrow> cipher_summary \<times> bool \<Rightarrow> cipher_summary \<times> bool" where
  "add_cipher m st =
     (case st of (summ, fs) \<Rightarrow>
        (if cm_class m = ''strong'' then summ\<lparr>Strong := Strong summ @ [cm_name m]\<rparr>
         else if cm_class m = ''weak'' then summ\<lparr>Weak := Weak summ @ [cm_name m]\<rparr>
         else if cm_class m = ''insecure'' then summ\<lparr>Insecure := Insecure summ @ [cm_name m]\<rparr>
         else summ,
         if cm_forwardS m then True else fs))"

fun probeCiphers_loop ::
  "tls_client \<Rightarrow> int option \<Rightarrow> options \<Rightarrow> cipher_meta list \<Rightarrow> cipher_summary \<times> bool \<Rightarrow> world \<Rightarrow>
   (cipher_summary \<times> bool) \<times> world" where
  "probeCiphers_loop tls ctx opts [] st w = (st, w)"
| "probeCiphers_loop tls ctx opts (m # ms) st w =
     (case cipherAccepted tls ctx opts (cm_id m) w of
        (ok, w1) \<Rightarrow> probeCiphers_loop tls ctx opts ms (if ok then add_cipher m st else st) w1)"

definition probeCiphers ::
  "cipher_meta list \<Rightarrow> tls_client \<Rightarrow> int option \<Rightarrow> options \<Rightarrow> world \<Rightarrow> (cipher_summary \<times> bool) \<times> world" where
  "probeCiphers order tls ctx opts = probeCiphers_loop tls ctx opts order (no_ciphers, False)"

section \<open>Resources\<close>

lemma cipherAccepted_net_op:
  assumes "tls_contract tls"
  shows "net_op (cipherAccepted tls ctx opts suite) (0 < Timeout opts) (2 * max 0 (Timeout opts))"
  unfolding cipherAccepted_def by (rule net_op_mono [OF handshake_net_op [OF assms]]) auto

lemma probeCiphers_loop_net_op:
  assumes "tls_contract tls"
  shows "net_op (probeCiphers_loop tls ctx opts ms st) (0 < Timeout opts)
    (int (length ms) * (2 * max 0 (Timeout opts)))"
proof (induction ms arbitrary: st)
  case Nil
  have "probeCiphers_loop tls ctx opts [] st = Pair st" by (simp add: fun_eq_iff)
  then show ?case using net_op_pure by simp
next
  case (Cons m ms)
  have "probeCiphers_loop tls ctx opts (m # ms) st = seq (cipherAccepted tls ctx opts (cm_id m))
      (\<lambda>ok. probeCiphers_loop tls ctx opts ms (if ok then add_cipher m st else st))"
    by (simp add: fun_eq_iff seq_def)
  then have "net_op (probeCiphers_loop tls ctx opts (m # ms) st) (0 < Timeout opts)
      (2 * max 0 (Timeout opts) + int (length ms) * (2 * max 0 (Timeout opts)))"
    using net_op_seq [OF cipherAccepted_net_op [OF assms] Cons.IH] by metis
  moreover have "2 * max 0 (Timeout opts) + int (length ms) * (2 * max 0 (Timeout opts)) =
      int (length (m # ms)) * (2 * max 0 (Timeout opts))"
    by (simp add: algebra_simps)
  ultimately show ?case by (simp only:)
qed

section \<open>What the summary says\<close>

text \<open>The answers of a run, in the order of the loop.\<close>

fun accepts ::
  "tls_client \<Rightarrow> int option \<Rightarrow> options \<Rightarrow> cipher_meta list \<Rightarrow> world \<Rightarrow> bool list" where
  "accepts tls ctx opts [] w = []"
| "accepts tls ctx opts (m # ms) w =
     (case cipherAccepted tls ctx opts (cm_id m) w of
        (ok, w1) \<Rightarrow> ok # accepts tls ctx opts ms w1)"

definition accepted :: "cipher_meta list \<Rightarrow> bool list \<Rightarrow> cipher_meta list" where
  "accepted order oks = map fst (filter snd (zip order oks))"

definition names_of :: "string \<Rightarrow> cipher_meta list \<Rightarrow> string list" where
  "names_of cls ms = map cm_name (filter (\<lambda>m. cm_class m = cls) ms)"

lemma probeCiphers_loop_eq:
  "fst (probeCiphers_loop tls ctx opts ms (summ, fs) w) =
     (let acc = accepted ms (accepts tls ctx opts ms w)
      in (\<lparr>Strong = Strong summ @ names_of ''strong'' acc, Weak = Weak summ @ names_of ''weak'' acc,
           Insecure = Insecure summ @ names_of ''insecure'' acc, ServerPreferred = ServerPreferred summ\<rparr>,
          fs \<or> list_ex cm_forwardS acc))"
proof (induction ms arbitrary: summ fs w)
  case Nil
  then show ?case by (simp add: accepted_def names_of_def)
next
  case (Cons m ms)
  obtain ok w1 where a: "cipherAccepted tls ctx opts (cm_id m) w = (ok, w1)" by (metis surj_pair)
  obtain summ' fs' where st: "(if ok then add_cipher m (summ, fs) else (summ, fs)) = (summ', fs')"
    by (metis surj_pair)
  have "fst (probeCiphers_loop tls ctx opts (m # ms) (summ, fs) w) =
      fst (probeCiphers_loop tls ctx opts ms (summ', fs') w1)"
    using a st by simp
  moreover have "accepted (m # ms) (accepts tls ctx opts (m # ms) w) =
      (if ok then [m] else []) @ accepted ms (accepts tls ctx opts ms w1)"
    using a by (simp add: accepted_def)
  moreover have "names_of cls ((if ok then [m] else []) @ acc) =
      (if ok \<and> cm_class m = cls then [cm_name m] else []) @ names_of cls acc" for cls acc
    by (simp add: names_of_def)
  moreover have "summ' = summ\<lparr>Strong := Strong summ @ (if ok \<and> cm_class m = ''strong'' then [cm_name m] else []),
        Weak := Weak summ @ (if ok \<and> cm_class m = ''weak'' then [cm_name m] else []),
        Insecure := Insecure summ @ (if ok \<and> cm_class m = ''insecure'' then [cm_name m] else [])\<rparr>"
    and "fs' = (fs \<or> ok \<and> cm_forwardS m)"
    using st by (auto simp: add_cipher_def split: if_splits)
  ultimately show ?case
    using Cons.IH [of summ' fs' w1] by (auto simp: Let_def)
qed

text \<open>
  The summary is exact. Its three lists are the names of the suites the server accepted, by class
  and in the order of the loop, and forward secrecy is reported exactly if an accepted suite has it.
\<close>

theorem probeCiphers_exact:
  "fst (probeCiphers order tls ctx opts w) =
     (let acc = accepted order (accepts tls ctx opts order w)
      in (\<lparr>Strong = names_of ''strong'' acc, Weak = names_of ''weak'' acc,
           Insecure = names_of ''insecure'' acc, ServerPreferred = False\<rparr>,
          list_ex cm_forwardS acc))"
  by (simp add: probeCiphers_def probeCiphers_loop_eq no_ciphers_def)

lemma accepts_stable:
  assumes "\<And>suite w. I w \<Longrightarrow> fst (cipherAccepted tls ctx opts suite w) = A suite \<and> I (snd (cipherAccepted tls ctx opts suite w))"
    and "I w"
  shows "accepted ms (accepts tls ctx opts ms w) = filter (\<lambda>m. A (cm_id m)) ms"
  using assms(2)
proof (induction ms arbitrary: w)
  case Nil
  then show ?case by (simp add: accepted_def)
next
  case (Cons m ms)
  obtain ok w1 where a: "cipherAccepted tls ctx opts (cm_id m) w = (ok, w1)" by (metis surj_pair)
  with assms(1) [OF Cons.prems, of "cm_id m"] have "ok = A (cm_id m)" "I w1" by simp_all
  with a Cons.IH [of w1] show ?case by (auto simp: accepted_def)
qed

text \<open>
  The map's iteration order does not matter. For a server whose acceptance of a suite does not
  change during the scan (an invariant \<open>I\<close> of the world fixes it), two enumerations in different
  orders yield the same suites in each class and the same forward secrecy, so every score and every
  vulnerability read off them is the same.
\<close>

theorem probeCiphers_order:
  assumes "\<And>suite w. I w \<Longrightarrow> fst (cipherAccepted tls ctx opts suite w) = A suite \<and> I (snd (cipherAccepted tls ctx opts suite w))"
    and "I w" and "I w'"
    and "mset order = mset cipherCatalog" and "mset order' = mset cipherCatalog"
    and "fst (probeCiphers order tls ctx opts w) = (summ, fs)"
    and "fst (probeCiphers order' tls ctx opts w') = (summ', fs')"
  shows "mset (Strong summ) = mset (Strong summ') \<and> mset (Weak summ) = mset (Weak summ') \<and>
    mset (Insecure summ) = mset (Insecure summ') \<and> fs = fs'"
proof -
  have "probeCiphers order tls ctx opts w = probeCiphers_loop tls ctx opts order (no_ciphers, False) w"
    for order w by (simp add: probeCiphers_def)
  note eq = this probeCiphers_loop_eq accepts_stable [of I, OF assms(1,2)] accepts_stable [of I, OF assms(1,3)]
  have "mset (names_of cls (filter P order)) = mset (names_of cls (filter P order'))" for cls P
    using assms(4,5) by (simp add: names_of_def mset_filter)
  moreover have "list_ex cm_forwardS (filter P order) = list_ex cm_forwardS (filter P order')" for P
    using mset_eq_setD [of order order'] assms(4,5) by (auto simp: list_ex_iff)
  ultimately show ?thesis
    using assms(6,7) by (auto simp: eq Let_def no_ciphers_def)
qed

text \<open>A server that takes one suite only.\<close>

definition picky_tls :: "nat \<Rightarrow> tls_client" where
  "picky_tls suite ctx cfg c w =
     (if suite \<in> set (tc_CipherSuites cfg)
      then (Inr \<lparr>cs_Version = VersionTLS12, cs_PeerCertificates = [], cs_NegotiatedProtocol = []\<rparr>, c, w)
      else (Inl err_eof, c, w))"

definition demo_options :: options where
  "demo_options = \<lparr>Host = ''www.example.com'', Port = 443, Timeout = second, CheckVulns = True, IPVersion = []\<rparr>"

definition listening :: "world \<Rightarrow> bool" where
  "listening w \<longleftrightarrow> w_net w = w_net (answering [])"

lemma picky_accepts:
  "listening w \<Longrightarrow> fst (cipherAccepted (picky_tls s) None demo_options suite w) = (suite = s) \<and>
     listening (snd (cipherAccepted (picky_tls s) None demo_options suite w))"
  by (auto simp: listening_def cipherAccepted_def with_conn_def answering_def dial_def dial_limit_def
      expired_def demo_options_def second_def handshake_def picky_tls_def cipher_config_def Let_def
      conn_close_def)

theorem probeCiphers_order_witness:
  "\<exists>summ fs summ' fs'.
     fst (probeCiphers cipherCatalog (picky_tls 0x000a) None demo_options (answering [])) = (summ, fs) \<and>
     fst (probeCiphers (rev cipherCatalog) (picky_tls 0x000a) None demo_options (answering [])) = (summ', fs') \<and>
     mset (Insecure summ) = mset (Insecure summ') \<and> fs = fs'"
proof -
  have l: "listening (answering [])" by (simp add: listening_def)
  obtain summ fs summ' fs' where
    p: "fst (probeCiphers cipherCatalog (picky_tls 0x000a) None demo_options (answering [])) = (summ, fs)"
      "fst (probeCiphers (rev cipherCatalog) (picky_tls 0x000a) None demo_options (answering [])) = (summ', fs')"
    by (metis surj_pair)
  from probeCiphers_order [OF picky_accepts l l refl mset_rev p] p show ?thesis by auto
qed

end
