(* ===== verification/Records.thy ===== *)
theory Records
  imports Probing
begin

text \<open>
  The record and handshake framing of internal/handshake (legacy.go, probes.go, robot.go, cbc.go) and
  internal/vulns (heartbleed.go): the constants, the functions that prepend a header, and the
  reader of a record header. The three record wrappers share one contract, \<open>record_framing\<close>.
\<close>

section \<open>Constants\<close>

definition recordChangeCipherSpec :: byte where [simp]: "recordChangeCipherSpec = 0x14"
definition recordAlert :: byte where [simp]: "recordAlert = 0x15"
definition recordHandshake :: byte where [simp]: "recordHandshake = 0x16"
definition recordApplicationData :: byte where [simp]: "recordApplicationData = 0x17"
definition recordHeartbeat :: byte where [simp]: "recordHeartbeat = 0x18"

definition handshakeServerHello :: byte where [simp]: "handshakeServerHello = 0x02"
definition handshakeCertificate :: byte where [simp]: "handshakeCertificate = 0x0b"
definition handshakeServerKeyExchange :: byte where [simp]: "handshakeServerKeyExchange = 0x0c"
definition handshakeServerHelloDone :: byte where [simp]: "handshakeServerHelloDone = 0x0e"
definition handshakeClientKeyExchange :: byte where [simp]: "handshakeClientKeyExchange = 0x10"
definition handshakeFinished :: byte where [simp]: "handshakeFinished = 0x14"

definition versionSSL30 :: nat where [simp]: "versionSSL30 = 0x0300"
definition versionTLS10 :: nat where [simp]: "versionTLS10 = 0x0301"
definition versionTLS11 :: nat where [simp]: "versionTLS11 = 0x0302"
definition versionTLS12 :: nat where [simp]: "versionTLS12 = 0x0303"
definition tlsVersion11 :: nat where [simp]: "tlsVersion11 = 0x0302"

section \<open>Prepending headers\<close>

definition wrapSSL3Record :: "byte \<Rightarrow> bytes \<Rightarrow> bytes" where
  "wrapSSL3Record contentType body =
     [contentType] @ put16 versionSSL30 @ put16 (length body) @ body"

definition wrapTLS12Record :: "byte \<Rightarrow> bytes \<Rightarrow> bytes" where
  "wrapTLS12Record contentType body =
     [contentType] @ put16 versionTLS12 @ put16 (length body) @ body"

text \<open>The copy of internal/vulns, at TLS 1.1.\<close>

definition wrapRecord :: "byte \<Rightarrow> bytes \<Rightarrow> bytes" where
  "wrapRecord contentType body =
     [contentType] @ put16 tlsVersion11 @ put16 (length body) @ body"

definition wrapHandshake :: "byte \<Rightarrow> bytes \<Rightarrow> bytes" where
  "wrapHandshake msgType body = [msgType] @ put24 (length body) @ body"

text \<open>The length a handshake header declares, header included: \<open>4 + int(uint32(b[1])<<16|...)\<close>.\<close>

definition msg_len :: "bytes \<Rightarrow> nat" where
  "msg_len buf = 4 + get24 (buf ! 1) (buf ! 2) (buf ! 3)"

lemma length_wrapHandshake [simp, wire]: "length (wrapHandshake t body) = 4 + length body"
  by (simp add: wrapHandshake_def)

lemma wrapHandshake_hd [simp, wire]: "wrapHandshake t body ! 0 = t"
  by (simp add: wrapHandshake_def)

lemma wrapHandshake_append_nth0 [simp, wire]: "(wrapHandshake t body @ xs) ! 0 = t"
  by (simp add: wrapHandshake_def)

lemma msg_len_wrapHandshake [wire]:
  "length body < 16777216 \<Longrightarrow> msg_len (wrapHandshake t body @ rest) = 4 + length body"
  by (simp add: msg_len_def wrapHandshake_def put24_def get24_put24 [simplified])

lemma msg_len_prefix: "4 \<le> length buf \<Longrightarrow> msg_len (buf @ xs) = msg_len buf"
  by (simp add: msg_len_def nth_append)

lemma msg_len_ge4: "4 \<le> msg_len buf"
  by (simp add: msg_len_def)

section \<open>The header reader\<close>

text \<open>\<open>readRecordHeader\<close>: content type, version and declared length of the next record.\<close>

definition readRecordHeader :: "conn \<Rightarrow> (net_err + byte \<times> nat \<times> nat) \<times> conn" where
  "readRecordHeader c =
     (case readFull 5 c of
        (Inl e, c') \<Rightarrow> (Inl e, c')
      | (Inr h, c') \<Rightarrow> (Inr (h ! 0, get16 (h ! 1) (h ! 2), get16 (h ! 3) (h ! 4)), c'))"

lemma length5_cases:
  assumes "length h = 5"
  obtains a b c d e where "h = [a, b, c, d, e]"
  using assms by (auto simp: numeral_eq_Suc length_Suc_conv)

lemma readRecordHeader_sound:
  assumes "readRecordHeader c = (Inr (t, v, l), c')"
  shows "\<exists>v1 v2 l1 l2. stream c = [t, v1, v2, l1, l2] @ stream c' \<and>
           v = get16 v1 v2 \<and> l = get16 l1 l2"
proof -
  from assms obtain h where h: "readFull 5 c = (Inr h, c')"
    and eq: "t = h ! 0" "v = get16 (h ! 1) (h ! 2)" "l = get16 (h ! 3) (h ! 4)"
    by (auto simp: readRecordHeader_def split: prod.splits sum.splits)
  from src.sound [OF h] have "length h = 5" and s: "stream c = h @ stream c'" by auto
  then obtain a b d e f where "h = [a, b, d, e, f]" by (elim length5_cases)
  with s eq show ?thesis by auto
qed

lemma readRecordHeader_len: "readRecordHeader c = (Inr (t, v, l), c') \<Longrightarrow> l < 65536"
  by (auto dest!: readRecordHeader_sound simp: get16_less)

lemma readRecordHeader_frame:
  "readRecordHeader c = (r, c') \<Longrightarrow>
     keeps c c' \<and> c_sent c' = c_sent c \<and> (in_time lim c \<longrightarrow> in_time lim c') \<and> (clean c \<longrightarrow> clean c')"
  using readFull_frame [of 5 c _ c' lim] net.ok_step [of c 5 _ c']
  by (auto simp: readRecordHeader_def split: prod.splits sum.splits)

lemma readRecordHeader_keeps: "readRecordHeader c = (r, c') \<Longrightarrow> keeps c c'"
  and readRecordHeader_sent: "readRecordHeader c = (r, c') \<Longrightarrow> c_sent c' = c_sent c"
  and readRecordHeader_in_time: "readRecordHeader c = (r, c') \<Longrightarrow> in_time lim c \<Longrightarrow> in_time lim c'"
  and readRecordHeader_clean: "readRecordHeader c = (r, c') \<Longrightarrow> clean c \<Longrightarrow> clean c'"
  using readRecordHeader_frame by blast+

lemma readRecordHeader_short:
  "clean c \<Longrightarrow> readRecordHeader c = (Inl e, c') \<Longrightarrow> length (stream c) < 5"
  by (auto simp: readRecordHeader_def split: prod.splits sum.splits dest: net.short)

lemma readRecordHeader_fails:
  assumes "length (stream c) < 5"
  shows "\<exists>e c'. readRecordHeader c = (Inl e, c')"
  using net.full_fails [OF assms] by (auto simp: readRecordHeader_def)

text \<open>The whole behaviour on a clean connection: five bytes or an error.\<close>

lemma readRecordHeader_Cons:
  assumes "clean c" and "stream c = [t, v1, v2, l1, l2] @ rest"
  shows "\<exists>c'. readRecordHeader c = (Inr (t, get16 v1 v2, get16 l1 l2), c') \<and>
           stream c' = rest \<and> clean c'"
proof -
  have "take 5 (stream c) = [t, v1, v2, l1, l2]" and "drop 5 (stream c) = rest"
    using assms(2) by simp_all
  with net.full_enough [OF assms(1), of 5] assms(2) obtain c' where
    "readFull 5 c = (Inr [t, v1, v2, l1, l2], c')" "stream c' = rest" "clean c'" by auto
  then show ?thesis by (simp add: readRecordHeader_def)
qed

section \<open>The contract of the record wrappers\<close>

locale record_framing =
  fixes wrap :: "byte \<Rightarrow> bytes \<Rightarrow> bytes" and ver :: nat
  assumes ver16: "ver < 65536"
    and frame: "wrap t body = [t] @ put16 ver @ put16 (length body) @ body"
begin

lemma length_wrap: "length (wrap t body) = 5 + length body"
  by (simp add: frame)

lemma header_of_wrap:
  "wrap t body ! 0 = t"
  "get16 (wrap t body ! 1) (wrap t body ! 2) = ver"
  "get16 (wrap t body ! 3) (wrap t body ! 4) = length body mod 65536"
  "drop 5 (wrap t body) = body"
  using get16_put16 [of ver] get16_put16 [of "length body"] ver16
  by (simp_all add: frame put16_def)

text \<open>Reading back a record whose body fits the length field.\<close>

lemma read_wrapped:
  assumes "clean c" and "stream c = wrap t body @ rest" and "length body < 65536"
  shows "\<exists>c1 c2. readRecordHeader c = (Inr (t, ver, length body), c1) \<and>
           readFull (length body) c1 = (Inr body, c2) \<and> stream c2 = rest \<and> clean c1 \<and> clean c2"
proof -
  have "stream c = [t, of_nat (ver div 256), of_nat ver,
                    of_nat (length body div 256), of_nat (length body)] @ (body @ rest)"
    using assms by (simp add: frame put16_def)
  from readRecordHeader_Cons [OF assms(1) this] obtain c1 where
    c1: "readRecordHeader c = (Inr (t, ver, length body), c1)" "stream c1 = body @ rest" "clean c1"
    using get16_put16 [of ver] get16_put16 [of "length body"] assms(3) ver16 by auto
  with net.full_enough [of c1 "length body"] show ?thesis by auto
qed

end

interpretation ssl3_record: record_framing wrapSSL3Record versionSSL30
  by unfold_locales (simp_all add: wrapSSL3Record_def)

interpretation tls12_record: record_framing wrapTLS12Record versionTLS12
  by unfold_locales (simp_all add: wrapTLS12Record_def)

interpretation tls11_record: record_framing wrapRecord tlsVersion11
  by unfold_locales (simp_all add: wrapRecord_def)

lemmas record_lengths [simp, wire] =
  ssl3_record.length_wrap tls12_record.length_wrap tls11_record.length_wrap

end
