(* ===== verification/Hello.thy ===== *)
theory Hello
  imports Records
begin

text \<open>
  The hand-made hello messages: \<open>clientHelloTLS\<close> (probes.go), \<open>sniExtension\<close> and \<open>robotClientHello\<close>
  (robot.go), \<open>cbcExtensions\<close> and \<open>cbcClientHello\<close> (cbc.go), \<open>clientHelloSSL3\<close> and \<open>clientHelloSSL2\<close>
  (legacy.go), \<open>clientHelloWithHeartbeat\<close> and \<open>maliciousHeartbeat\<close> (heartbleed.go). They are checked
  against strict parsers of the two hello formats, written from the formats and not from the code:
  every length field must be exact and nothing may be left over.
\<close>

section \<open>Builders\<close>

text \<open>\<open>[]byte(s)\<close>: strings are byte strings.\<close>

definition bytes_of :: "string \<Rightarrow> bytes" where
  "bytes_of s = map of_char s"

lemma length_bytes_of [simp, wire]: "length (bytes_of s) = length s"
  by (simp add: bytes_of_def)

lemma bytes_of_Nil_iff [simp]: "bytes_of s = [] \<longleftrightarrow> s = []"
  by (simp add: bytes_of_def)

definition suite_bytes :: "nat list \<Rightarrow> bytes" where
  "suite_bytes suites = concat (map put16 suites)"

definition clientHelloTLS :: "nat \<Rightarrow> nat \<Rightarrow> nat list \<Rightarrow> bytes \<Rightarrow> bytes" where
  "clientHelloTLS recordVersion clientVersion suites extensions =
     (let sb = suite_bytes suites;
          body = put16 clientVersion @ replicate 32 0 @ [0x00] @
                 put16 (length sb) @ sb @ [0x01, 0x00] @
                 (if length extensions > 0 then put16 (length extensions) @ extensions else []);
          hs = [0x01] @ put24 (length body) @ body
      in [recordHandshake] @ put16 recordVersion @ put16 (length hs) @ hs)"

definition sniExtension :: "string \<Rightarrow> bytes" where
  "sniExtension host =
     (if host = [] then []
      else let name = bytes_of host;
               entry = [0x00] @ put16 (length name) @ name;
               list = put16 (length entry) @ entry
           in [0x00, 0x00] @ put16 (length list) @ list)"

definition rsaKexSuites :: "nat list" where
  "rsaKexSuites = [0x009d, 0x009c, 0x003d, 0x003c, 0x0035, 0x002f, 0x000a]"

definition robotClientHello :: "string \<Rightarrow> bytes" where
  "robotClientHello host =
     clientHelloTLS versionTLS12 versionTLS12 rsaKexSuites (sniExtension host)"

text \<open>The suites the CBC client can drive, and the curves of its key exchange.\<close>

definition suiteECDHE_RSA_AES128_CBC_SHA :: nat where [simp]: "suiteECDHE_RSA_AES128_CBC_SHA = 0xc013"
definition suiteECDHE_RSA_AES256_CBC_SHA :: nat where [simp]: "suiteECDHE_RSA_AES256_CBC_SHA = 0xc014"
definition suiteRSA_AES128_CBC_SHA :: nat where [simp]: "suiteRSA_AES128_CBC_SHA = 0x002f"
definition suiteRSA_AES256_CBC_SHA :: nat where [simp]: "suiteRSA_AES256_CBC_SHA = 0x0035"

definition curveSecp256r1 :: nat where [simp]: "curveSecp256r1 = 0x0017"
definition curveSecp384r1 :: nat where [simp]: "curveSecp384r1 = 0x0018"
definition curveSecp521r1 :: nat where [simp]: "curveSecp521r1 = 0x0019"
definition curveX25519 :: nat where [simp]: "curveX25519 = 0x001d"

definition cbcSuites :: "nat list" where
  "cbcSuites =
     [suiteECDHE_RSA_AES128_CBC_SHA, suiteECDHE_RSA_AES256_CBC_SHA, suiteRSA_AES128_CBC_SHA, suiteRSA_AES256_CBC_SHA]"

definition cbcExtensions :: "string \<Rightarrow> bytes" where
  "cbcExtensions host =
     (let groups = put16 curveX25519 @ put16 curveSecp256r1 @ put16 curveSecp384r1 @ put16 curveSecp521r1;
          sg = [0x00, 0x0a] @ put16 (length groups + 2) @ put16 (length groups) @ groups;
          sigs = [0x04, 0x01, 0x05, 0x01, 0x06, 0x01, 0x02, 0x01, 0x04, 0x03, 0x05, 0x03, 0x06, 0x03];
          sa = [0x00, 0x0d] @ put16 (length sigs + 2) @ put16 (length sigs) @ sigs
      in sniExtension host @ sg @ [0x00, 0x0b, 0x00, 0x02, 0x01, 0x00] @ sa)"

definition cbcClientHello :: "string \<Rightarrow> bytes \<Rightarrow> bytes" where
  "cbcClientHello host clientRandom =
     (let sb = suite_bytes cbcSuites;
          ext = cbcExtensions host;
          body = [0x03, 0x03] @ clientRandom @ [0x00] @ put16 (length sb) @ sb @ [0x01, 0x00] @
                 put16 (length ext) @ ext
      in wrapTLS12Record recordHandshake (wrapHandshake 0x01 body))"

definition clientHelloSSL3 :: bytes where
  "clientHelloSSL3 =
     (let suites = [0x00, 0x2f, 0x00, 0x35, 0x00, 0x0a, 0x00, 0x05];
          body = [0x03, 0x00] @ replicate 32 0 @ [0x00] @ put16 (length suites) @ suites @
                 [0x01, 0x00];
          hs = [0x01] @ put24 (length body) @ body
      in wrapSSL3Record recordHandshake hs)"

definition sslv2ClientHello :: byte where [simp]: "sslv2ClientHello = 0x01"
definition sslv2ServerHello :: byte where [simp]: "sslv2ServerHello = 0x04"

definition clientHelloSSL2 :: bytes where
  "clientHelloSSL2 =
     (let cipherSpecs = [0x01, 0x00, 0x80, 0x02, 0x00, 0x80, 0x04, 0x00, 0x80,
                         0x06, 0x00, 0x40, 0x07, 0x00, 0xc0];
          challenge = replicate 16 0;
          body = [sslv2ClientHello, 0x00, 0x02] @ put16 (length cipherSpecs) @ [0x00, 0x00] @
                 put16 (length challenge) @ cipherSpecs @ challenge
      in [or 0x80 (of_nat (length body div 256)), of_nat (length body)] @ body)"

text \<open>The heartbeat hello is built with a placeholder length that is then overwritten.\<close>

definition clientHelloWithHeartbeat :: bytes where
  "clientHelloWithHeartbeat =
     (let ext = [0x00, 0x0f, 0x00, 0x01, 0x01];
          hello = [0x01, 0x00, 0x00, 0x2f, 0x03, 0x02] @ replicate 32 0 @ [0x00] @
                  [0x00, 0x02, 0x00, 0x2f] @ [0x01, 0x00] @ put16 (length ext) @ ext;
          bodyLen = length hello - 4
      in wrapRecord recordHandshake
           (hello[1 := of_nat (bodyLen div 65536), 2 := of_nat (bodyLen div 256),
                  3 := of_nat bodyLen]))"

definition maliciousHeartbeat :: bytes where
  "maliciousHeartbeat = wrapRecord recordHeartbeat [0x01, 0x40, 0x00, 0x01]"

section \<open>A strict parser of ClientHello records\<close>

record client_hello =
  ch_record_version :: nat
  ch_version :: nat
  ch_random :: bytes
  ch_session :: bytes
  ch_suites :: "nat list"
  ch_compression :: bytes
  ch_extensions :: "(nat \<times> bytes) list"

definition take_bytes :: "nat \<Rightarrow> bytes \<Rightarrow> (bytes \<times> bytes) option" where
  "take_bytes n xs = (if n \<le> length xs then Some (take n xs, drop n xs) else None)"

fun u8 :: "bytes \<Rightarrow> (nat \<times> bytes) option" where
  "u8 (a # xs) = Some (unat a, xs)"
| "u8 _ = None"

fun u16 :: "bytes \<Rightarrow> (nat \<times> bytes) option" where
  "u16 (a # b # xs) = Some (get16 a b, xs)"
| "u16 _ = None"

fun u24 :: "bytes \<Rightarrow> (nat \<times> bytes) option" where
  "u24 (a # b # c # xs) = Some (get24 a b c, xs)"
| "u24 _ = None"

definition vec8 :: "bytes \<Rightarrow> (bytes \<times> bytes) option" where
  "vec8 xs = do { (n, ys) \<leftarrow> u8 xs; take_bytes n ys }"

definition vec16 :: "bytes \<Rightarrow> (bytes \<times> bytes) option" where
  "vec16 xs = do { (n, ys) \<leftarrow> u16 xs; take_bytes n ys }"

definition vec24 :: "bytes \<Rightarrow> (bytes \<times> bytes) option" where
  "vec24 xs = do { (n, ys) \<leftarrow> u24 xs; take_bytes n ys }"

fun u16_list :: "bytes \<Rightarrow> nat list option" where
  "u16_list [] = Some []"
| "u16_list [a] = None"
| "u16_list (a # b # xs) = map_option (Cons (get16 a b)) (u16_list xs)"

function ext_list :: "bytes \<Rightarrow> (nat \<times> bytes) list option" where
  "ext_list xs =
     (if xs = [] then Some []
      else case u16 xs of
             None \<Rightarrow> None
           | Some (t, ys) \<Rightarrow>
               (case vec16 ys of
                  None \<Rightarrow> None
                | Some (d, zs) \<Rightarrow> map_option (Cons (t, d)) (ext_list zs)))"
  by pat_completeness auto
termination
  by (relation "measure length")
     (auto simp: vec16_def take_bytes_def Option.bind_eq_Some_conv
      elim!: u16.elims split: if_splits)

declare ext_list.simps [simp del]

definition parse_hello_body :: "nat \<Rightarrow> bytes \<Rightarrow> client_hello option" where
  "parse_hello_body rv body = do {
     (cv, body) \<leftarrow> u16 body;
     (rnd, body) \<leftarrow> take_bytes 32 body;
     (sid, body) \<leftarrow> vec8 body;
     (sb, body) \<leftarrow> vec16 body;
     (comp, body) \<leftarrow> vec8 body;
     suites \<leftarrow> u16_list sb;
     exts \<leftarrow> (if body = [] then Some []
              else do { (eb, rest) \<leftarrow> vec16 body; if rest \<noteq> [] then None else ext_list eb });
     Some \<lparr>ch_record_version = rv, ch_version = cv, ch_random = rnd, ch_session = sid,
           ch_suites = suites, ch_compression = comp, ch_extensions = exts\<rparr> }"

definition parse_client_hello :: "bytes \<Rightarrow> client_hello option" where
  "parse_client_hello xs = do {
     (t, xs) \<leftarrow> u8 xs;
     (rv, xs) \<leftarrow> u16 xs;
     (frag, rest) \<leftarrow> vec16 xs;
     if t \<noteq> 22 \<or> rest \<noteq> [] then None else do {
       (ht, frag) \<leftarrow> u8 frag;
       (body, rest) \<leftarrow> vec24 frag;
       if ht \<noteq> 1 \<or> rest \<noteq> [] then None else parse_hello_body rv body }}"

subsection \<open>Parsing what was built\<close>

lemma take_bytes_append [wire]: "take_bytes (length xs) (xs @ ys) = Some (xs, ys)"
  by (simp add: take_bytes_def)

lemma u16_put16 [wire]: "n < 65536 \<Longrightarrow> u16 (put16 n @ xs) = Some (n, xs)"
  using get16_put16 [of n] by (simp add: put16_def)

lemma u24_put24 [wire]: "n < 16777216 \<Longrightarrow> u24 (put24 n @ xs) = Some (n, xs)"
  using get24_put24 [of n] by (simp add: put24_def)

lemma vec16_put16 [wire]: "length d < 65536 \<Longrightarrow> vec16 (put16 (length d) @ d @ xs) = Some (d, xs)"
  by (simp add: vec16_def u16_put16 take_bytes_append)

lemma vec16_put16_end [wire]: "length d < 65536 \<Longrightarrow> vec16 (put16 (length d) @ d) = Some (d, [])"
  using vec16_put16 [of d "[]"] by simp

lemma vec24_put24_end [wire]: "length d < 16777216 \<Longrightarrow> vec24 (put24 (length d) @ d) = Some (d, [])"
  using take_bytes_append [of d "[]"] by (simp add: vec24_def u24_put24)

lemma put16_nonempty [simp]: "put16 n \<noteq> []"
  by (simp add: put16_def)

lemma u16_list_suite_bytes [wire]:
  "list_all (\<lambda>s. s < 65536) suites \<Longrightarrow> u16_list (suite_bytes suites) = Some suites"
proof (induction suites)
  case Nil
  then show ?case by (simp add: suite_bytes_def)
next
  case (Cons s ss)
  with get16_put16 [of s] show ?case by (simp add: suite_bytes_def put16_def)
qed

lemma length_suite_bytes [simp, wire]: "length (suite_bytes suites) = 2 * length suites"
  by (induction suites) (simp_all add: suite_bytes_def)

text \<open>An extension block as a list of typed extensions.\<close>

definition enc_ext :: "nat \<times> bytes \<Rightarrow> bytes" where
  "enc_ext e = put16 (fst e) @ put16 (length (snd e)) @ snd e"

definition enc_exts :: "(nat \<times> bytes) list \<Rightarrow> bytes" where
  "enc_exts es = concat (map enc_ext es)"

definition wf_exts :: "(nat \<times> bytes) list \<Rightarrow> bool" where
  "wf_exts es \<longleftrightarrow> list_all (\<lambda>e. fst e < 65536 \<and> length (snd e) < 65536) es"

lemma ext_list_enc: "wf_exts es \<Longrightarrow> ext_list (enc_exts es) = Some es"
proof (induction es)
  case Nil
  then show ?case by (simp add: enc_exts_def ext_list.simps)
next
  case (Cons e es)
  then show ?case
    by (subst ext_list.simps)
       (auto simp: enc_exts_def enc_ext_def wf_exts_def u16_put16 vec16_put16 put16_nonempty)
qed

lemma enc_exts_Nil_iff: "enc_exts es = [] \<longleftrightarrow> es = []"
  by (cases es) (simp_all add: enc_exts_def enc_ext_def put16_def)

text \<open>The round trip behind all the TLS hellos.\<close>

lemma parse_hello_body_parts:
  assumes "cv < 65536" and rnd: "length rnd = 32" and suites: "list_all (\<lambda>s. s < 65536) suites"
    and exts: "wf_exts es" and small: "2 * length suites + length (enc_exts es) < 65400"
    and eb: "eb = put16 (length (enc_exts es)) @ enc_exts es \<or> es = [] \<and> eb = []"
  shows "parse_hello_body rv
      (put16 cv @ rnd @ [0] @ put16 (2 * length suites) @ suite_bytes suites @ [1, 0] @ eb) =
    Some \<lparr>ch_record_version = rv, ch_version = cv, ch_random = rnd, ch_session = [],
          ch_suites = suites, ch_compression = [0], ch_extensions = es\<rparr>"
proof -
  have r: "take_bytes 32 (rnd @ ys) = Some (rnd, ys)" for ys
    using take_bytes_append [of rnd ys] rnd by simp
  have sb: "vec16 (put16 (2 * length suites) @ suite_bytes suites @ ys) = Some (suite_bytes suites, ys)"
    for ys
    using vec16_put16 [of "suite_bytes suites" ys] small by simp
  have ex: "(if eb = [] then Some []
             else do { (eb', rest) \<leftarrow> vec16 eb; if rest \<noteq> [] then None else ext_list eb' }) = Some es"
    using eb vec16_put16_end [of "enc_exts es"] ext_list_enc [OF exts] small
    by (auto simp: put16_def)
  have u8: "vec8 (0 # ys) = Some ([], ys)" "vec8 (1 # 0 # ys) = Some ([0], ys)" for ys
    by (simp_all add: vec8_def take_bytes_def)
  show ?thesis
    using ex by (simp add: parse_hello_body_def u16_put16 assms(1) r sb u8 u16_list_suite_bytes [OF suites])
qed

lemma parse_hello_parts:
  assumes "rv < 65536" "cv < 65536" "length rnd = 32" "list_all (\<lambda>s. s < 65536) suites"
    and "wf_exts es" and small: "2 * length suites + length (enc_exts es) < 65400"
    and eb: "eb = put16 (length (enc_exts es)) @ enc_exts es \<or> es = [] \<and> eb = []"
    and body: "body = put16 cv @ rnd @ [0] @ put16 (length (suite_bytes suites)) @
           suite_bytes suites @ [1, 0] @ eb"
    and hs: "hs = [1] @ put24 (length body) @ body"
  shows "parse_client_hello ([22] @ put16 rv @ put16 (length hs) @ hs) =
    Some \<lparr>ch_record_version = rv, ch_version = cv, ch_random = rnd, ch_session = [],
          ch_suites = suites, ch_compression = [0], ch_extensions = es\<rparr>"
proof -
  have leb: "length eb \<le> 2 + length (enc_exts es)" using eb by auto
  then have lb: "length body < 65500" using assms(3) small body by simp
  have outer: "vec16 (put16 (length hs) @ hs) = Some (hs, [])"
    using lb by (intro vec16_put16_end) (simp add: hs)
  have inner: "vec24 (put24 (length body) @ body) = Some (body, [])"
    using lb by (intro vec24_put24_end) simp
  have "parse_client_hello ([22] @ put16 rv @ put16 (length hs) @ hs) =
      (case u8 hs of None \<Rightarrow> None | Some (ht, frag) \<Rightarrow>
         vec24 frag \<bind> (\<lambda>(b, rest). if ht \<noteq> 1 \<or> rest \<noteq> [] then None else parse_hello_body rv b))"
    using outer by (simp add: parse_client_hello_def u16_put16 assms(1) split: option.split)
  also have "\<dots> = parse_hello_body rv body"
    using inner by (simp add: hs)
  also have "\<dots> = Some \<lparr>ch_record_version = rv, ch_version = cv, ch_random = rnd, ch_session = [],
          ch_suites = suites, ch_compression = [0], ch_extensions = es\<rparr>"
    using parse_hello_body_parts [OF assms(2,3,4,5) small eb, of rv] by (simp add: body)
  finally show ?thesis .
qed

section \<open>The hellos are well formed\<close>

definition sni_exts :: "string \<Rightarrow> (nat \<times> bytes) list" where
  "sni_exts host =
     (if host = [] then []
      else [(0, put16 (3 + length host) @ [0] @ put16 (length host) @ bytes_of host)])"

lemma sniExtension_enc: "sniExtension host = enc_exts (sni_exts host)"
  by (simp add: sniExtension_def sni_exts_def enc_exts_def enc_ext_def put16_def Let_def)

lemma wf_sni: "length host \<le> 65000 \<Longrightarrow> wf_exts (sni_exts host)"
  by (simp add: sni_exts_def wf_exts_def)

lemma length_sni: "length (enc_exts (sni_exts host)) \<le> 9 + length host"
  by (simp add: sni_exts_def enc_exts_def enc_ext_def)

lemma parse_clientHelloTLS:
  assumes "rv < 65536" "cv < 65536" "list_all (\<lambda>s. s < 65536) suites" "wf_exts es"
    and "2 * length suites + length (enc_exts es) < 65400"
  shows "parse_client_hello (clientHelloTLS rv cv suites (enc_exts es)) =
    Some \<lparr>ch_record_version = rv, ch_version = cv, ch_random = replicate 32 0, ch_session = [],
          ch_suites = suites, ch_compression = [0], ch_extensions = es\<rparr>"
proof -
  define eb where "eb = (if es = [] then [] else put16 (length (enc_exts es)) @ enc_exts es)"
  have "eb = put16 (length (enc_exts es)) @ enc_exts es \<or> es = [] \<and> eb = []"
    by (simp add: eb_def)
  note parse_hello_parts [OF assms(1,2) _ assms(3,4,5) this refl refl, of "replicate 32 0"]
  moreover have "(if 0 < length (enc_exts es) then put16 (length (enc_exts es)) @ enc_exts es else []) = eb"
    by (simp add: eb_def enc_exts_Nil_iff)
  ultimately show ?thesis by (simp add: clientHelloTLS_def Let_def)
qed

text \<open>
  C26. Every hello that \<open>clientHelloTLS\<close> builds is read back by the strict parser: the versions, the
  offered suites in order, null compression, an empty session id, zero randomness, and exactly the
  extensions of the block. All the nested length fields are therefore right.
\<close>

theorem clientHelloTLS_parses:
  assumes "rv < 65536" "cv < 65536" "list_all (\<lambda>s. s < 65536) suites" "wf_exts es"
    and "2 * length suites + length (enc_exts es) < 65400"
  shows "parse_client_hello (clientHelloTLS rv cv suites (enc_exts es)) =
    Some \<lparr>ch_record_version = rv, ch_version = cv, ch_random = replicate 32 0, ch_session = [],
          ch_suites = suites, ch_compression = [0], ch_extensions = es\<rparr>"
  by (rule parse_clientHelloTLS [OF assms])

theorem clientHelloTLS_parses_witness:
  "parse_client_hello (clientHelloTLS 0x0303 0x0303 [0xc02f, 0x002f] (enc_exts [(0xff01, [0])])) =
    Some \<lparr>ch_record_version = 0x0303, ch_version = 0x0303, ch_random = replicate 32 0,
          ch_session = [], ch_suites = [0xc02f, 0x002f], ch_compression = [0],
          ch_extensions = [(0xff01, [0])]\<rparr>"
  by (rule clientHelloTLS_parses) (simp_all add: wf_exts_def enc_exts_def enc_ext_def)

lemma put16_version12: "put16 0x0303 = [3, 3]"
  by (simp add: put16_def)

text \<open>The ROBOT hello: RSA key exchange only, with the host's name.\<close>

lemma robotClientHello_parses:
  "length host \<le> 65000 \<Longrightarrow>
     parse_client_hello (robotClientHello host) =
       Some \<lparr>ch_record_version = 0x0303, ch_version = 0x0303, ch_random = replicate 32 0,
             ch_session = [], ch_suites = rsaKexSuites, ch_compression = [0],
             ch_extensions = sni_exts host\<rparr>"
  using length_sni [of host] unfolding robotClientHello_def sniExtension_enc
  by (intro parse_clientHelloTLS [THEN trans]) (simp_all add: rsaKexSuites_def wf_sni)

definition cbc_exts :: "string \<Rightarrow> (nat \<times> bytes) list" where
  "cbc_exts host = sni_exts host @
     [(0x000a, put16 8 @ [0x00, 0x1d, 0x00, 0x17, 0x00, 0x18, 0x00, 0x19]),
      (0x000b, [0x01, 0x00]),
      (0x000d, put16 14 @ [0x04, 0x01, 0x05, 0x01, 0x06, 0x01, 0x02, 0x01, 0x04, 0x03, 0x05, 0x03,
                           0x06, 0x03])]"

lemma cbcExtensions_enc: "cbcExtensions host = enc_exts (cbc_exts host)"
  by (simp add: cbcExtensions_def cbc_exts_def sniExtension_enc enc_exts_def enc_ext_def Let_def
      put16_def)

lemma length_cbc_exts: "length (enc_exts (cbc_exts host)) \<le> 49 + length host"
  using length_sni [of host] by (simp add: cbc_exts_def enc_exts_def enc_ext_def)

text \<open>
  C27. The hello of the hand-rolled CBC client is well formed for every host name and every client
  random: the strict parser reads back the random, the four CBC suites in order, and the server
  name, supported groups, point format and signature algorithm extensions.
\<close>

theorem cbcClientHello_parses:
  assumes "length clientRandom = 32" and "length host \<le> 65000"
  shows "parse_client_hello (cbcClientHello host clientRandom) =
    Some \<lparr>ch_record_version = 0x0303, ch_version = 0x0303, ch_random = clientRandom,
          ch_session = [], ch_suites = cbcSuites, ch_compression = [0],
          ch_extensions = cbc_exts host\<rparr>"
proof -
  have "wf_exts (cbc_exts host)" using wf_sni [OF assms(2)] by (simp add: cbc_exts_def wf_exts_def)
  moreover have "list_all (\<lambda>s. s < 65536) cbcSuites" by (simp add: cbcSuites_def)
  moreover have "2 * length cbcSuites + length (enc_exts (cbc_exts host)) < 65400"
    using length_cbc_exts [of host] assms(2) by (simp add: cbcSuites_def)
  ultimately show ?thesis
    using parse_hello_parts [OF _ _ assms(1) _ _ _ disjI1 [OF refl] refl refl,
        where rv = "0x0303" and cv = "0x0303" and suites = cbcSuites and es = "cbc_exts host"]
    by (simp add: cbcClientHello_def wrapTLS12Record_def wrapHandshake_def Let_def
        cbcExtensions_enc put16_version12)
qed

theorem cbcClientHello_parses_witness:
  "parse_client_hello (cbcClientHello ''example.com'' (replicate 32 7)) =
    Some \<lparr>ch_record_version = 0x0303, ch_version = 0x0303, ch_random = replicate 32 7,
          ch_session = [], ch_suites = cbcSuites, ch_compression = [0],
          ch_extensions = cbc_exts ''example.com''\<rparr>"
  by (rule cbcClientHello_parses) simp_all

text \<open>The fixed hellos.\<close>

lemma clientHelloSSL3_parses:
  "parse_client_hello clientHelloSSL3 =
    Some \<lparr>ch_record_version = 0x0300, ch_version = 0x0300, ch_random = replicate 32 0,
          ch_session = [], ch_suites = [0x2f, 0x35, 0x0a, 0x05], ch_compression = [0],
          ch_extensions = []\<rparr>"
proof -
  have "clientHelloSSL3 =
      clientHelloTLS 0x0300 0x0300 [0x2f, 0x35, 0x0a, 0x05] (enc_exts [])"
    by (simp add: clientHelloSSL3_def clientHelloTLS_def wrapSSL3Record_def Let_def
        suite_bytes_def put16_def enc_exts_def)
  then show ?thesis
    using parse_clientHelloTLS [of "0x0300" "0x0300" "[0x2f, 0x35, 0x0a, 0x05]" "[]"]
    by (simp add: wf_exts_def enc_exts_def)
qed

lemma list_update_123: "(a # b # c # d # r)[Suc 0 := x, 2 := y, 3 := z] = a # x # y # z # r"
  by (simp add: numeral_2_eq_2 numeral_3_eq_3)

lemma clientHelloWithHeartbeat_parses:
  "parse_client_hello clientHelloWithHeartbeat =
    Some \<lparr>ch_record_version = 0x0302, ch_version = 0x0302, ch_random = replicate 32 0,
          ch_session = [], ch_suites = [0x2f], ch_compression = [0],
          ch_extensions = [(0x000f, [1])]\<rparr>"
proof -
  have "clientHelloWithHeartbeat =
      clientHelloTLS 0x0302 0x0302 [0x2f] (enc_exts [(0x000f, [1])])"
    by (simp add: clientHelloWithHeartbeat_def clientHelloTLS_def wrapRecord_def Let_def
        suite_bytes_def put16_def put24_def enc_exts_def enc_ext_def list_update_123
        del: list_update.simps)
  then show ?thesis
    using parse_clientHelloTLS [of "0x0302" "0x0302" "[0x2f]" "[(0x000f, [1])]"]
    by (simp add: wf_exts_def enc_exts_def enc_ext_def)
qed

section \<open>The SSLv2 CLIENT-HELLO\<close>

record ssl2_hello =
  s2_version :: nat
  s2_specs :: bytes
  s2_session :: bytes
  s2_challenge :: bytes

definition parse_ssl2_hello :: "bytes \<Rightarrow> ssl2_hello option" where
  "parse_ssl2_hello xs = do {
     (len, body) \<leftarrow> u16 xs;
     if len < 32768 \<or> length body \<noteq> len - 32768 then None else do {
     (t, body) \<leftarrow> u8 body;
     (v, body) \<leftarrow> u16 body;
     (n1, body) \<leftarrow> u16 body;
     (n2, body) \<leftarrow> u16 body;
     (n3, body) \<leftarrow> u16 body;
     (specs, body) \<leftarrow> take_bytes n1 body;
     (sid, body) \<leftarrow> take_bytes n2 body;
     (chal, body) \<leftarrow> take_bytes n3 body;
     if t \<noteq> 1 \<or> body \<noteq> [] \<or> n1 mod 3 \<noteq> 0 then None
     else Some \<lparr>s2_version = v, s2_specs = specs, s2_session = sid, s2_challenge = chal\<rparr> }}"

lemma clientHelloSSL2_parses:
  "parse_ssl2_hello clientHelloSSL2 =
    Some \<lparr>s2_version = 2,
          s2_specs = [0x01, 0x00, 0x80, 0x02, 0x00, 0x80, 0x04, 0x00, 0x80, 0x06, 0x00, 0x40,
                      0x07, 0x00, 0xc0],
          s2_session = [], s2_challenge = replicate 16 0\<rparr>"
  by (simp add: parse_ssl2_hello_def clientHelloSSL2_def Let_def put16_def get16_def take_bytes_def)

end
