(* ===== verification/Legacy.thy ===== *)
theory Legacy
  imports Hello
begin

text \<open>
  The SSLv3 and SSLv2 probes of internal/handshake/legacy.go, with \<open>capTimeout\<close> of probes.go. Each
  probe is the bracket of \<open>Probing\<close> around a judgement of the reply; the judgements read a short
  header and the first byte after it, a shape (\<open>peek\<close>) analysed once.
\<close>

section \<open>Capped timeouts\<close>

definition capTimeout :: "int \<Rightarrow> int" where
  "capTimeout timeout = (if timeout > 4 * second then 4 * second else timeout)"

lemma capTimeout_le: "capTimeout timeout \<le> 4 * second" "capTimeout timeout \<le> timeout"
  by (simp_all add: capTimeout_def)

lemma capTimeout_pos [simp]: "0 < capTimeout timeout \<longleftrightarrow> 0 < timeout"
  by (simp add: capTimeout_def second_def)

text \<open>A body in a bracket with a capped timeout.\<close>

context conn_body begin

lemma capped:
  "net_op (with_conn ctx (capTimeout timeout) fail body) (0 < timeout) (8 * second + extra)"
  by (rule net_op_mono [OF bracket.net_op_axioms]) (auto simp: capTimeout_def second_def)

lemma capped_stops: "stops (with_conn (Some d) (capTimeout timeout) fail body) (d + 4 * second + extra)"
  by (rule stops_mono [OF bracket_stops]) (auto simp: capTimeout_def second_def)

end

section \<open>Reading a header and one byte\<close>

definition peek :: "nat \<Rightarrow> (bytes \<Rightarrow> bool) \<Rightarrow> byte \<Rightarrow> conn \<Rightarrow> bool \<times> conn" where
  "peek n ok t c =
     (case readFull n c of
        (Inl e, c1) \<Rightarrow> (False, c1)
      | (Inr header, c1) \<Rightarrow>
          if \<not> ok header then (False, c1)
          else case readFull 1 c1 of
                 (Inl e, c2) \<Rightarrow> (False, c2)
               | (Inr first, c2) \<Rightarrow> (first ! 0 = t, c2))"

definition peek_accepts :: "nat \<Rightarrow> (bytes \<Rightarrow> bool) \<Rightarrow> byte \<Rightarrow> bytes \<Rightarrow> bool" where
  "peek_accepts n ok t bs \<longleftrightarrow> n < length bs \<and> ok (take n bs) \<and> bs ! n = t"

lemma peek_frame:
  "peek n ok t c = (r, c') \<Longrightarrow> keeps c c' \<and> (in_time lim c \<longrightarrow> in_time lim c')"
  by (auto simp: peek_def split: prod.splits sum.splits if_splits
      intro: readFull_keeps keeps_trans dest: readFull_in_time [of _ _ _ _ lim])

lemma peek_sound: "peek n ok t c = (True, c') \<Longrightarrow> peek_accepts n ok t (stream c)"
proof -
  assume "peek n ok t c = (True, c')"
  then obtain h f c1 where r: "readFull n c = (Inr h, c1)" "readFull 1 c1 = (Inr f, c')"
    and h: "ok h" "f ! 0 = t"
    by (auto simp: peek_def split: prod.splits sum.splits if_splits)
  from src.full_pair [OF r] have "stream c = h @ f @ stream c'" "length h = n" "length f = 1" by auto
  with h show ?thesis by (simp add: peek_accepts_def nth_append)
qed

lemma peek_complete:
  assumes "clean c" and "peek_accepts n ok t (stream c)"
  shows "\<exists>c'. peek n ok t c = (True, c')"
proof -
  have n: "n < length (stream c)" and ok: "ok (take n (stream c))" and t: "stream c ! n = t"
    using assms(2) by (auto simp: peek_accepts_def)
  from net.full_enough [OF assms(1), of n] n obtain c1 where
    c1: "readFull n c = (Inr (take n (stream c)), c1)" "stream c1 = drop n (stream c)" "clean c1"
    by auto
  have "1 \<le> length (stream c1)" using c1(2) n by simp
  from net.full_enough [OF c1(3) this] c1(2) obtain c2 where
    "readFull 1 c1 = (Inr (take 1 (drop n (stream c))), c2)" by metis
  with c1 ok t n show ?thesis by (simp add: peek_def)
qed

lemma peek_one_shot: "one_shot (peek n ok t) (peek_accepts n ok t)"
  using peek_complete peek_frame
  by unfold_locales (auto simp: peek_sound, fastforce)

section \<open>ProbeSSL3\<close>

text \<open>The part of \<open>ProbeSSL3\<close> after the write.\<close>

definition ssl3_judge :: "conn \<Rightarrow> bool \<times> conn" where
  "ssl3_judge c =
     (case readFull 5 c of
        (Inl e, c1) \<Rightarrow> (False, c1)
      | (Inr header, c1) \<Rightarrow>
          let contentType = header ! 0;
              recordVersion = get16 (header ! 1) (header ! 2);
              recLen = get16 (header ! 3) (header ! 4)
          in if contentType = recordAlert then (False, c1)
             else if contentType \<noteq> recordHandshake \<or> recordVersion \<noteq> versionSSL30 \<or> recLen < 1
             then (False, c1)
             else case readFull 1 c1 of
                    (Inl e, c2) \<Rightarrow> (False, c2)
                  | (Inr first, c2) \<Rightarrow> (first ! 0 = handshakeServerHello, c2))"

definition ProbeSSL3 :: "int option \<Rightarrow> int \<Rightarrow> world \<Rightarrow> bool \<times> world" where
  "ProbeSSL3 ctx timeout =
     (let timeout = (if timeout > 4 * second then 4 * second else timeout)
      in with_conn ctx timeout (\<lambda>_. False) (plain (ask clientHelloSSL3 False ssl3_judge)))"

text \<open>
  What confirms SSLv3: a non-empty handshake record of version 3.0 whose first byte is the
  ServerHello type.
\<close>

definition speaks_ssl3 :: "bytes \<Rightarrow> bool" where
  "speaks_ssl3 bs \<longleftrightarrow>
     5 < length bs \<and> take 3 bs = [0x16, 0x03, 0x00] \<and> (bs ! 3 \<noteq> 0 \<or> bs ! 4 \<noteq> 0) \<and> bs ! 5 = 0x02"

lemma length_gt5_cases:
  assumes "5 < length bs"
  obtains a b c d e f r where "bs = a # b # c # d # e # f # r"
  using assms by (auto simp: Suc_le_eq [symmetric] Suc_le_length_iff numeral_eq_Suc)

lemma speaks_ssl3_peek:
  "speaks_ssl3 = peek_accepts 5 (\<lambda>h. h ! 0 = 0x16 \<and> get16 (h ! 1) (h ! 2) = 0x0300 \<and>
     1 \<le> get16 (h ! 3) (h ! 4)) 0x02"
proof
  fix bs
  show "speaks_ssl3 bs = peek_accepts 5 (\<lambda>h. h ! 0 = 0x16 \<and> get16 (h ! 1) (h ! 2) = 0x0300 \<and>
     1 \<le> get16 (h ! 3) (h ! 4)) 0x02 bs"
  proof (cases "5 < length bs")
    case True
    then obtain a b c d e f r where "bs = a # b # c # d # e # f # r" by (elim length_gt5_cases)
    then show ?thesis
      by (simp add: speaks_ssl3_def peek_accepts_def get16_eq_0x0300 Suc_le_eq)
  next
    case False
    then show ?thesis by (simp add: speaks_ssl3_def peek_accepts_def)
  qed
qed

lemma ssl3_judge_peek:
  "ssl3_judge = peek 5 (\<lambda>h. h ! 0 = 0x16 \<and> get16 (h ! 1) (h ! 2) = 0x0300 \<and>
     1 \<le> get16 (h ! 3) (h ! 4)) 0x02"
  by (auto simp: fun_eq_iff ssl3_judge_def peek_def Let_def Suc_le_eq split: prod.splits sum.splits)

interpretation ssl3: one_shot clientHelloSSL3 ssl3_judge speaks_ssl3
  unfolding ssl3_judge_peek speaks_ssl3_peek by (rule peek_one_shot)

section \<open>ProbeSSL2\<close>

definition ssl2_judge :: "conn \<Rightarrow> bool \<times> conn" where
  "ssl2_judge c =
     (case readFull 2 c of
        (Inl e, c1) \<Rightarrow> (False, c1)
      | (Inr hdr, c1) \<Rightarrow>
          if and (hdr ! 0) 0x80 = 0 then (False, c1)
          else let recLen = get16 (and (hdr ! 0) 0x7f) (hdr ! 1)
          in if recLen < 1 then (False, c1)
             else case readFull 1 c1 of
                    (Inl e, c2) \<Rightarrow> (False, c2)
                  | (Inr first, c2) \<Rightarrow> (first ! 0 = sslv2ServerHello, c2))"

definition ProbeSSL2 :: "int option \<Rightarrow> int \<Rightarrow> world \<Rightarrow> bool \<times> world" where
  "ProbeSSL2 ctx timeout =
     (let timeout = (if timeout > 4 * second then 4 * second else timeout)
      in with_conn ctx timeout (\<lambda>_. False) (plain (ask clientHelloSSL2 False ssl2_judge)))"

text \<open>What confirms SSLv2: a non-empty two-byte-header record whose first byte is SERVER-HELLO.\<close>

definition speaks_ssl2 :: "bytes \<Rightarrow> bool" where
  "speaks_ssl2 bs \<longleftrightarrow>
     2 < length bs \<and> 0x8000 < get16 (bs ! 0) (bs ! 1) \<and> bs ! 2 = 0x04"

lemma ssl2_header:
  "0x8000 < get16 a b \<longleftrightarrow> and a 0x80 \<noteq> 0 \<and> 1 \<le> get16 (and a 0x7f) b"
proof (cases "unat a < 128")
  case True
  then show ?thesis using unat_byte_less [of b] by (simp add: and_0x80 get16_def)
next
  case False
  then have "unat a mod 128 = unat a - 128"
    using unat_byte_less [of a] mod_if [of "unat a" 128] by simp
  with False show ?thesis
    using unat_byte_less [of b] by (simp add: and_0x80 unat_and_0x7f get16_def) linarith
qed

lemma speaks_ssl2_peek:
  "speaks_ssl2 = peek_accepts 2
     (\<lambda>h. and (h ! 0) 0x80 \<noteq> 0 \<and> 1 \<le> get16 (and (h ! 0) 0x7f) (h ! 1)) 0x04"
  by (auto simp: fun_eq_iff speaks_ssl2_def peek_accepts_def ssl2_header)

lemma ssl2_judge_peek:
  "ssl2_judge = peek 2
     (\<lambda>h. and (h ! 0) 0x80 \<noteq> 0 \<and> 1 \<le> get16 (and (h ! 0) 0x7f) (h ! 1)) 0x04"
  by (auto simp: fun_eq_iff ssl2_judge_def peek_def Let_def Suc_le_eq split: prod.splits sum.splits)

interpretation ssl2: one_shot clientHelloSSL2 ssl2_judge speaks_ssl2
  unfolding ssl2_judge_peek speaks_ssl2_peek by (rule peek_one_shot)

section \<open>What the probes report\<close>

text \<open>
  C22. \<open>ProbeSSL3\<close> answers true exactly when the host accepts the connection and the hello within the
  (capped) time and its reply begins with a non-empty SSLv3 handshake record holding a ServerHello,
  however TCP splits the reply and whatever else the host does.
\<close>

theorem ProbeSSL3_iff:
  assumes "clean_net w"
  shows "fst (ProbeSSL3 ctx timeout w) \<longleftrightarrow>
    (\<exists>c. reply ctx (min timeout (4 * second)) clientHelloSSL3 w = Some c \<and> speaks_ssl3 (stream c))"
  using ssl3.probe_iff [OF assms] by (simp add: ProbeSSL3_def min_def Let_def)

theorem ProbeSSL3_iff_witness:
  "fst (ProbeSSL3 None second (answering [0x16, 3, 0, 0, 0x26, 2])) \<and>
   \<not> fst (ProbeSSL3 None second (answering [0x15, 3, 0, 0, 2, 2, 40]))"
  using ProbeSSL3_iff [OF answering_clean, of None second "[0x16, 3, 0, 0, 0x26, 2]"]
    ProbeSSL3_iff [OF answering_clean, of None second "[0x15, 3, 0, 0, 2, 2, 40]"]
    answering_reply [of second clientHelloSSL3 "[0x16, 3, 0, 0, 0x26, 2]"]
    answering_reply [of second clientHelloSSL3 "[0x15, 3, 0, 0, 2, 2, 40]"]
  by (auto simp: speaks_ssl3_def second_def)

text \<open>
  C23. \<open>ProbeSSL2\<close> answers true exactly when the reply to the SSLv2 hello begins with a two-byte-header
  record (high bit set, at least one byte long) whose first byte is SERVER-HELLO; a TLS record or
  alert never counts, so DROWN is never reported on one.
\<close>

theorem ProbeSSL2_iff:
  assumes "clean_net w"
  shows "fst (ProbeSSL2 ctx timeout w) \<longleftrightarrow>
    (\<exists>c. reply ctx (min timeout (4 * second)) clientHelloSSL2 w = Some c \<and> speaks_ssl2 (stream c))"
  using ssl2.probe_iff [OF assms] by (simp add: ProbeSSL2_def min_def Let_def)

theorem ProbeSSL2_iff_witness:
  "fst (ProbeSSL2 None second (answering [0x80, 11, 4])) \<and>
   \<not> fst (ProbeSSL2 None second (answering [0x15, 3, 1, 0, 2, 2, 40]))"
  using ProbeSSL2_iff [OF answering_clean, of None second "[0x80, 11, 4]"]
    ProbeSSL2_iff [OF answering_clean, of None second "[0x15, 3, 1, 0, 2, 2, 40]"]
    answering_reply [of second clientHelloSSL2 "[0x80, 11, 4]"]
    answering_reply [of second clientHelloSSL2 "[0x15, 3, 1, 0, 2, 2, 40]"]
  by (auto simp: speaks_ssl2_def second_def get16_def)

section \<open>Resources\<close>

text \<open>Both probes release their connection and end within twice the capped timeout.\<close>

lemma ProbeSSL3_net_op: "net_op (ProbeSSL3 ctx timeout) (0 < timeout) (8 * second)"
  unfolding ProbeSSL3_def capTimeout_def [symmetric] Let_def
  using ssl3.capped by simp

lemma ProbeSSL2_net_op: "net_op (ProbeSSL2 ctx timeout) (0 < timeout) (8 * second)"
  unfolding ProbeSSL2_def capTimeout_def [symmetric] Let_def
  using ssl2.capped by simp

lemma legacy_stops:
  "stops (ProbeSSL3 (Some d) timeout) (d + 4 * second)" "stops (ProbeSSL2 (Some d) timeout) (d + 4 * second)"
  unfolding ProbeSSL3_def ProbeSSL2_def capTimeout_def [symmetric] Let_def
  using ssl3.capped_stops ssl2.capped_stops by simp_all

end
