(* ===== verification/Handshake.thy ===== *)
theory Handshake
  imports Records
begin

text \<open>
  The handshake message reader \<open>hsReader\<close> of internal/handshake/cbc.go. Messages are cut out of a
  buffer that is refilled record by record; how the server splits its flight into records, and TCP
  into segments, does not matter.
\<close>

section \<open>The next handshake record\<close>

text \<open>
  The step the message loops share: read a record header; unless it announces a non-empty handshake
  record, stop; read its payload. (\<open>recLen\<close> comes from a 16-bit field, so the code's further guard
  \<open>recLen > 1<<16\<close>, kept here, never fires: see \<open>readRecordHeader_len\<close>.)
\<close>

datatype fill = ReadFailed net_err | OtherRecord | Payload bytes

definition next_payload :: "conn \<Rightarrow> fill \<times> conn" where
  "next_payload c =
     (case readRecordHeader c of
        (Inl e, c1) \<Rightarrow> (ReadFailed e, c1)
      | (Inr (contentType, ver, recLen), c1) \<Rightarrow>
          if contentType \<noteq> recordHandshake \<or> recLen < 1 \<or> recLen > 2 ^ 16 then (OtherRecord, c1)
          else case readFull recLen c1 of
                 (Inl e, c2) \<Rightarrow> (ReadFailed e, c2)
               | (Inr payload, c2) \<Rightarrow> (Payload payload, c2))"

definition hs_record :: "nat \<times> bytes \<Rightarrow> bytes" where
  "hs_record r = [recordHandshake] @ put16 (fst r) @ put16 (length (snd r)) @ snd r"

lemma next_payload_frame:
  "next_payload c = (r, c') \<Longrightarrow>
     keeps c c' \<and> c_sent c' = c_sent c \<and> (in_time lim c \<longrightarrow> in_time lim c') \<and> (clean c \<longrightarrow> clean c')"
proof -
  assume a: "next_payload c = (r, c')"
  obtain h c1 where h: "readRecordHeader c = (h, c1)" by (metis surj_pair)
  show ?thesis
  proof (cases "c' = c1")
    case True
    then show ?thesis using readRecordHeader_frame [OF h, of lim] by simp
  next
    case False
    with a h obtain l p where "readFull l c1 = (p, c')"
      by (auto simp: next_payload_def split: if_splits sum.splits prod.splits)
    with readFull_frame [OF this, of lim] net.ok_step [OF _ this] readRecordHeader_frame [OF h, of lim]
    show ?thesis by (auto intro: keeps_trans)
  qed
qed

lemma next_payload_sound:
  assumes "next_payload c = (Payload p, c')"
  shows "1 \<le> length p \<and> length p < 65536 \<and> (\<exists>v < 65536. stream c = hs_record (v, p) @ stream c')"
proof -
  from assms obtain v l c1 where h: "readRecordHeader c = (Inr (recordHandshake, v, l), c1)"
    and l: "1 \<le> l" and p: "readFull l c1 = (Inr p, c')"
    by (auto simp: next_payload_def split: if_splits sum.splits prod.splits)
  from readRecordHeader_sound [OF h] obtain v1 v2 l1 l2 where
    s: "stream c = [recordHandshake, v1, v2, l1, l2] @ stream c1"
    and v: "v = get16 v1 v2" and ll: "l = get16 l1 l2" by auto
  from src.sound [OF p] have p': "length p = l" "stream c1 = p @ stream c'" by auto
  then have "stream c = hs_record (v, p) @ stream c'"
    using s v ll by (simp add: hs_record_def put16_get16)
  with p' l readRecordHeader_len [OF h] v get16_less [of v1 v2] show ?thesis by auto
qed

lemma next_payload_record:
  assumes "clean c" and "stream c = hs_record r @ rest"
    and "fst r < 65536" "1 \<le> length (snd r)" "length (snd r) < 65536"
  shows "\<exists>c'. next_payload c = (Payload (snd r), c') \<and> stream c' = rest \<and> clean c'"
proof -
  have w: "record_framing (\<lambda>t body. [t] @ put16 (fst r) @ put16 (length body) @ body) (fst r)"
    using assms(3) by unfold_locales simp_all
  from record_framing.read_wrapped [OF w assms(1), of recordHandshake "snd r" rest] assms
  obtain c1 c2 where
    "readRecordHeader c = (Inr (recordHandshake, fst r, length (snd r)), c1)"
    "readFull (length (snd r)) c1 = (Inr (snd r), c2)" "stream c2 = rest" "clean c2"
    by (auto simp: hs_record_def)
  with assms(4,5) show ?thesis
    by (intro exI [of _ c2]) (auto simp: next_payload_def)
qed

section \<open>hsReader.next\<close>

definition errNotHandshake :: net_err where
  "errNotHandshake =
     \<lparr>ne_timeout = False, ne_msg = ''non-handshake record during handshake''\<rparr>"

definition complete_msg :: "bytes \<Rightarrow> bool" where
  "complete_msg buf \<longleftrightarrow> 4 \<le> length buf \<and> msg_len buf \<le> length buf"

text \<open>
  \<open>next\<close>, with the reader's buffer and connection as arguments and results. Every round adds at
  least one byte to a buffer of at most \<open>2^18\<close>, so the loop ends.
\<close>

function hs_next :: "bytes \<Rightarrow> conn \<Rightarrow> (net_err + byte \<times> bytes) \<times> bytes \<times> conn" where
  "hs_next buf c =
     (if complete_msg buf
      then (Inr (buf ! 0, take (msg_len buf) buf), drop (msg_len buf) buf, c)
      else case next_payload c of
             (ReadFailed e, c1) \<Rightarrow> (Inl e, buf, c1)
           | (OtherRecord, c1) \<Rightarrow> (Inl errNotHandshake, buf, c1)
           | (Payload payload, c1) \<Rightarrow>
               if length (buf @ payload) > 2 ^ 18
               then (Inl errNotHandshake, buf @ payload, c1)
               else hs_next (buf @ payload) c1)"
  by pat_completeness auto
termination
  by (relation "measure (\<lambda>(buf, c). 2 ^ 18 + 1 - length buf)")
     (auto dest!: next_payload_sound [OF sym])

declare hs_next.simps [simp del]

lemma hs_next_complete:
  "complete_msg buf \<Longrightarrow>
     hs_next buf c = (Inr (buf ! 0, take (msg_len buf) buf), drop (msg_len buf) buf, c)"
  by (simp add: hs_next.simps)

lemma hs_next_frame:
  "hs_next buf c = (r, buf', c') \<Longrightarrow>
     keeps c c' \<and> c_sent c' = c_sent c \<and> (in_time lim c \<longrightarrow> in_time lim c') \<and> (clean c \<longrightarrow> clean c')"
proof (induction buf c rule: hs_next.induct)
  case (1 buf c)
  obtain f c1 where f: "next_payload c = (f, c1)" by (metis surj_pair)
  note fr = next_payload_frame [OF f, of lim]
  show ?case
  proof (cases "\<exists>p. f = Payload p \<and> \<not> complete_msg buf \<and> \<not> length (buf @ p) > 2 ^ 18")
    case True
    then obtain p where p: "f = Payload p" "\<not> complete_msg buf" "\<not> length (buf @ p) > 2 ^ 18" by auto
    with "1.prems" f have "hs_next (buf @ p) c1 = (r, buf', c')" by (simp add: hs_next.simps [of buf])
    from "1.IH" [OF p(2) f [symmetric] p(1,3) this] fr show ?thesis by (auto intro: keeps_trans)
  next
    case False
    with "1.prems" f have "c' = c \<or> c' = c1"
      by (auto simp: hs_next.simps [of buf] split: if_splits fill.splits)
    with fr show ?thesis by auto
  qed
qed

lemma hs_next_keeps: "hs_next buf c = (r, buf', c') \<Longrightarrow> keeps c c'"
  and hs_next_in_time: "hs_next buf c = (r, buf', c') \<Longrightarrow> in_time lim c \<Longrightarrow> in_time lim c'"
  using hs_next_frame by blast+

text \<open>A message that is returned is complete and carries its own type and length.\<close>

lemma hs_next_wf:
  "hs_next buf c = (Inr (t, msg), buf', c') \<Longrightarrow>
     4 \<le> length msg \<and> msg ! 0 = t \<and> length msg = msg_len msg"
proof (induction buf c rule: hs_next.induct)
  case (1 buf c)
  show ?case
  proof (cases "complete_msg buf")
    case True
    with "1.prems" show ?thesis
      using msg_len_ge4 [of buf]
      by (auto simp: hs_next_complete complete_msg_def msg_len_def)
  next
    case False
    from "1.prems" False obtain p c1 where
      f: "next_payload c = (Payload p, c1)" and n: "\<not> length (buf @ p) > 2 ^ 18"
      and rest: "hs_next (buf @ p) c1 = (Inr (t, msg), buf', c')"
      by (auto simp: hs_next.simps [of buf] split: if_splits fill.splits prod.splits)
    show ?thesis by (rule "1.IH" [OF False f [symmetric] refl n rest])
  qed
qed

section \<open>Fragmentation\<close>

text \<open>
  A flight: handshake records of any version, each with a payload of 1 to 65535 bytes. The messages
  in it are the concatenated payloads, wherever the record boundaries fall.
\<close>

definition flight :: "(nat \<times> bytes) list \<Rightarrow> bytes" where
  "flight rs = concat (map hs_record rs)"

definition payloads :: "(nat \<times> bytes) list \<Rightarrow> bytes" where
  "payloads rs = concat (map snd rs)"

definition wf_flight :: "(nat \<times> bytes) list \<Rightarrow> bool" where
  "wf_flight rs \<longleftrightarrow> list_all (\<lambda>r. fst r < 65536 \<and> 1 \<le> length (snd r) \<and> length (snd r) < 65536) rs"

lemma flight_simps [simp]:
  "flight [] = []" "flight (r # rs) = hs_record r @ flight rs"
  "payloads [] = []" "payloads (r # rs) = snd r @ payloads rs"
  "wf_flight []"
  "wf_flight (r # rs) \<longleftrightarrow>
     fst r < 65536 \<and> 1 \<le> length (snd r) \<and> length (snd r) < 65536 \<and> wf_flight rs"
  by (simp_all add: flight_def payloads_def wf_flight_def)

lemma hs_next_flight:
  assumes "clean c" and "stream c = flight rs @ rest" and "wf_flight rs"
    and "buf @ payloads rs = wrapHandshake t body @ sfx"
    and "length body < 16777216" and "length (buf @ payloads rs) \<le> 2 ^ 18"
  shows "\<exists>buf' rs' c'. hs_next buf c = (Inr (t, wrapHandshake t body), buf', c') \<and>
           clean c' \<and> stream c' = flight rs' @ rest \<and> wf_flight rs' \<and> buf' @ payloads rs' = sfx"
  using assms
proof (induction rs arbitrary: buf c)
  case Nil
  then have "complete_msg buf" and "msg_len buf = 4 + length body"
    by (auto simp: complete_msg_def msg_len_wrapHandshake)
  with Nil show ?case
    by (intro exI [of _ sfx] exI [of _ "[]"] exI [of _ c]) (simp add: hs_next_complete)
next
  case (Cons r rs)
  show ?case
  proof (cases "complete_msg buf")
    case True
    have ml: "msg_len buf = 4 + length body"
      using True Cons.prems(4,5) msg_len_prefix [of buf "payloads (r # rs)"]
      by (auto simp: complete_msg_def msg_len_wrapHandshake)
    then have "4 + length body \<le> length buf" using True by (simp add: complete_msg_def)
    then have tk: "take (4 + length body) buf = wrapHandshake t body"
      and dr: "drop (4 + length body) buf @ payloads (r # rs) = sfx"
      using arg_cong [OF Cons.prems(4), of "take (4 + length body)"]
        arg_cong [OF Cons.prems(4), of "drop (4 + length body)"] by simp_all
    have "buf ! 0 = t"
      using tk True nth_take [of 0 "4 + length body" buf] by simp
    with tk dr ml True Cons.prems show ?thesis
      by (intro exI [of _ "drop (4 + length body) buf"] exI [of _ "r # rs"] exI [of _ c])
         (simp add: hs_next_complete)
  next
    case False
    from Cons.prems next_payload_record [of c r "flight rs @ rest"] obtain c2 where
      p: "next_payload c = (Payload (snd r), c2)"
      and c2: "stream c2 = flight rs @ rest" "clean c2"
      by auto
    have len: "\<not> length (buf @ snd r) > 2 ^ 18" using Cons.prems(6) by simp
    have step: "hs_next buf c = hs_next (buf @ snd r) c2"
      using False p len by (subst hs_next.simps) simp
    show ?thesis
      unfolding step
      by (rule Cons.IH) (use c2 Cons.prems in simp_all)
  qed
qed

text \<open>Reading several messages in a row.\<close>

fun hs_nexts :: "nat \<Rightarrow> bytes \<Rightarrow> conn \<Rightarrow> ((byte \<times> bytes) list \<times> bytes \<times> conn) option" where
  "hs_nexts 0 buf c = Some ([], buf, c)"
| "hs_nexts (Suc n) buf c =
     (case hs_next buf c of
        (Inl e, _, _) \<Rightarrow> None
      | (Inr m, buf', c') \<Rightarrow> map_option (apfst (Cons m)) (hs_nexts n buf' c'))"

definition hs_bytes :: "(byte \<times> bytes) list \<Rightarrow> bytes" where
  "hs_bytes ms = concat (map (\<lambda>(t, body). wrapHandshake t body) ms)"

lemma hs_nexts_flight:
  assumes "clean c" and "stream c = flight rs @ rest" and "wf_flight rs"
    and "buf @ payloads rs = hs_bytes ms @ sfx"
    and "list_all (\<lambda>m. length (snd m) < 16777216) ms" and "length (buf @ payloads rs) \<le> 2 ^ 18"
  shows "\<exists>buf' rs' c'.
    hs_nexts (length ms) buf c = Some (map (\<lambda>(t, body). (t, wrapHandshake t body)) ms, buf', c') \<and>
    clean c' \<and> stream c' = flight rs' @ rest \<and> wf_flight rs' \<and> buf' @ payloads rs' = sfx"
  using assms
proof (induction ms arbitrary: buf rs c)
  case Nil
  then show ?case by (auto simp: hs_bytes_def)
next
  case (Cons m ms)
  obtain t body where m: "m = (t, body)" by (metis surj_pair)
  from Cons.prems m hs_next_flight [of c rs rest buf t body "hs_bytes ms @ sfx"]
  obtain buf1 rs1 c1 where
    n: "hs_next buf c = (Inr (t, wrapHandshake t body), buf1, c1)"
    and c1: "clean c1" "stream c1 = flight rs1 @ rest" "wf_flight rs1"
            "buf1 @ payloads rs1 = hs_bytes ms @ sfx"
    by (auto simp: hs_bytes_def)
  have "length (buf1 @ payloads rs1) \<le> 2 ^ 18"
    using Cons.prems(4,6) c1(4) m by (simp add: hs_bytes_def)
  with Cons.IH [of c1 rs1 buf1] c1 Cons.prems(5) n m show ?case by auto
qed

end
