(* ===== verification/Probes.thy ===== *)
theory Probes
  imports Legacy Handshake
begin

text \<open>
  The export, fallback and renegotiation probes of internal/handshake/probes.go: the hellos they
  send, the judgement of the reply, the ServerHello reader and the extension walk.
\<close>

section \<open>FREAK and Logjam: does the server select an offered suite?\<close>

text \<open>\<open>serverSelectsOffered\<close> after the write.\<close>

definition offered_judge :: "conn \<Rightarrow> bool \<times> conn" where
  "offered_judge c =
     (case readRecordHeader c of
        (Inl e, c1) \<Rightarrow> (False, c1)
      | (Inr (contentType, ver, recLen), c1) \<Rightarrow>
          if contentType \<noteq> recordHandshake \<or> recLen < 1 then (False, c1)
          else case readFull 1 c1 of
                 (Inl e, c2) \<Rightarrow> (False, c2)
               | (Inr first, c2) \<Rightarrow> (first ! 0 = handshakeServerHello, c2))"

definition serverSelectsOffered :: "int option \<Rightarrow> int \<Rightarrow> bytes \<Rightarrow> world \<Rightarrow> bool \<times> world" where
  "serverSelectsOffered ctx timeout helloBytes =
     with_conn ctx (capTimeout timeout) (\<lambda>_. False) (plain (ask helloBytes False offered_judge))"

definition exportRSASuites :: "nat list" where
  "exportRSASuites = [0x0003, 0x0008, 0x0064, 0x0062]"

definition ProbeExportRSA :: "int option \<Rightarrow> int \<Rightarrow> world \<Rightarrow> bool \<times> world" where
  "ProbeExportRSA ctx timeout =
     (let hello = clientHelloTLS versionTLS10 versionTLS10 exportRSASuites []
      in serverSelectsOffered ctx timeout hello)"

definition exportDHSuites :: "nat list" where
  "exportDHSuites = [0x0014, 0x0011]"

definition ProbeExportDH :: "int option \<Rightarrow> int \<Rightarrow> world \<Rightarrow> bool \<times> world" where
  "ProbeExportDH ctx timeout =
     (let hello = clientHelloTLS versionTLS10 versionTLS10 exportDHSuites []
      in serverSelectsOffered ctx timeout hello)"

text \<open>A reply that starts with a non-empty handshake record whose first byte is the ServerHello type.\<close>

definition selects :: "bytes \<Rightarrow> bool" where
  "selects bs \<longleftrightarrow> 5 < length bs \<and> bs ! 0 = 0x16 \<and> (bs ! 3 \<noteq> 0 \<or> bs ! 4 \<noteq> 0) \<and> bs ! 5 = 0x02"

lemma selects_examples:
  "selects [0x16, 3, v, 0, 0x26, 2]" "\<not> selects (0x15 # bs)"
  by (simp_all add: selects_def)

lemma selects_peek:
  "selects = peek_accepts 5 (\<lambda>h. h ! 0 = 0x16 \<and> 1 \<le> get16 (h ! 3) (h ! 4)) 0x02"
  by (auto simp: fun_eq_iff selects_def peek_accepts_def Suc_le_eq)

lemma offered_judge_peek:
  "offered_judge = peek 5 (\<lambda>h. h ! 0 = 0x16 \<and> 1 \<le> get16 (h ! 3) (h ! 4)) 0x02"
  by (auto simp: fun_eq_iff offered_judge_def readRecordHeader_def peek_def Suc_le_eq
      split: prod.splits sum.splits)

lemma offered_one_shot: "one_shot offered_judge selects"
  unfolding offered_judge_peek selects_peek by (rule peek_one_shot)

interpretation offered: one_shot helloBytes offered_judge selects for helloBytes
  by (rule offered_one_shot)

lemma serverSelectsOffered_net_op:
  "net_op (serverSelectsOffered ctx timeout hello) (0 < timeout) (8 * second)"
  unfolding serverSelectsOffered_def using offered.capped by simp

lemma parse_bare_hello:
  assumes "rv < 65536" "cv < 65536" "list_all (\<lambda>s. s < 65536) suites" "length suites < 32000"
  shows "map_option ch_suites (parse_client_hello (clientHelloTLS rv cv suites [])) = Some suites"
  using parse_clientHelloTLS [of rv cv suites "[]"] assms by (simp add: wf_exts_def enc_exts_def)

text \<open>
  C24. FREAK and Logjam. The two export probes offer only the RSA export and the DHE export suites,
  in a well-formed TLS 1.0 hello, and answer true exactly when the reply starts with a non-empty
  handshake record holding a ServerHello, that is when the server went on with one of them.
\<close>

theorem export_probes_iff:
  assumes "clean_net w"
  shows "map_option ch_suites (parse_client_hello (clientHelloTLS 0x0301 0x0301 exportRSASuites [])) =
      Some [0x0003, 0x0008, 0x0064, 0x0062] \<and>
    map_option ch_suites (parse_client_hello (clientHelloTLS 0x0301 0x0301 exportDHSuites [])) =
      Some [0x0014, 0x0011] \<and>
    (fst (ProbeExportRSA ctx timeout w) \<longleftrightarrow>
      (\<exists>c. reply ctx (min timeout (4 * second)) (clientHelloTLS 0x0301 0x0301 exportRSASuites []) w =
             Some c \<and> selects (stream c))) \<and>
    (fst (ProbeExportDH ctx timeout w) \<longleftrightarrow>
      (\<exists>c. reply ctx (min timeout (4 * second)) (clientHelloTLS 0x0301 0x0301 exportDHSuites []) w =
             Some c \<and> selects (stream c)))"
  using offered.probe_iff [OF assms, of ctx "capTimeout timeout"]
  by (simp add: parse_bare_hello ProbeExportRSA_def ProbeExportDH_def exportRSASuites_def
      exportDHSuites_def serverSelectsOffered_def capTimeout_def min_def)

theorem export_probes_iff_witness:
  "fst (ProbeExportRSA None second (answering [0x16, 3, 1, 0, 0x26, 2])) \<and>
   \<not> fst (ProbeExportDH None second (answering [0x15, 3, 1, 0, 2, 2, 40]))"
  using export_probes_iff [OF answering_clean, of None second "[0x16, 3, 1, 0, 0x26, 2]"]
    export_probes_iff [OF answering_clean, of None second "[0x15, 3, 1, 0, 2, 2, 40]"]
  by (simp add: answering_iff selects_examples)

section \<open>The fallback signalling suite\<close>

definition alertLevelFatal :: byte where [simp]: "alertLevelFatal = 0x02"
definition alertInappropriateFallback :: byte where [simp]: "alertInappropriateFallback = 0x56"
definition cipherFallbackSCSV :: nat where [simp]: "cipherFallbackSCSV = 0x5600"

definition fallback_judge :: "conn \<Rightarrow> bool \<times> conn" where
  "fallback_judge c =
     (case readRecordHeader c of
        (Inl e, c1) \<Rightarrow> (False, c1)
      | (Inr (contentType, ver, recLen), c1) \<Rightarrow>
          if contentType = recordAlert
          then if recLen \<ge> 2
               then case readFull 2 c1 of
                      (Inl e, c2) \<Rightarrow> (False, c2)
                    | (Inr alert, c2) \<Rightarrow>
                        if alert ! 0 = alertLevelFatal \<and> alert ! 1 = alertInappropriateFallback
                        then (False, c2) else (False, c2)
               else (False, c1)
          else if contentType = recordHandshake \<and> recLen \<ge> 1
          then case readFull 1 c1 of
                 (Inl e, c2) \<Rightarrow> (False, c2)
               | (Inr first, c2) \<Rightarrow> (first ! 0 = handshakeServerHello, c2)
          else (False, c1))"

definition fallbackSuites :: "nat list" where
  "fallbackSuites =
     [0xc02f, 0xc030, 0xc013, 0xc014, 0x002f, 0x0035, 0x000a, cipherFallbackSCSV]"

definition ProbeFallbackSCSVMissing :: "int option \<Rightarrow> nat \<Rightarrow> int \<Rightarrow> world \<Rightarrow> bool \<times> world" where
  "ProbeFallbackSCSVMissing ctx fallbackVersion timeout =
     (let timeout = capTimeout timeout;
          hello = clientHelloTLS fallbackVersion fallbackVersion fallbackSuites []
      in with_conn ctx timeout (\<lambda>_. False) (plain (ask hello False fallback_judge)))"

text \<open>The answer of the fallback judgement is that of the export judgement: no alert changes it.\<close>

lemma fallback_judge_fst: "fst (fallback_judge c) = fst (offered_judge c)"
  by (auto simp: fallback_judge_def offered_judge_def split: prod.splits sum.splits)

lemma fallback_judge_frame:
  "fallback_judge c = (r, c') \<Longrightarrow> keeps c c' \<and> (in_time lim c \<longrightarrow> in_time lim c')"
  by (auto simp: fallback_judge_def split: prod.splits sum.splits if_splits
      intro: readFull_keeps readRecordHeader_keeps keeps_trans
      dest: readFull_in_time [of _ _ _ _ lim] readRecordHeader_in_time [of _ _ _ lim])

interpretation fallback: one_shot helloBytes fallback_judge selects for helloBytes
proof
  fix c c' r lim
  show "fallback_judge c = (r, c') \<Longrightarrow> keeps c c' \<and> (in_time lim c \<longrightarrow> in_time lim c')"
    by (rule fallback_judge_frame)
  show "fallback_judge c = (True, c') \<Longrightarrow> selects (stream c)"
    using fallback_judge_fst [of c] offered.judge_sound [of c "snd (offered_judge c)"]
    by (cases "offered_judge c") auto
  show "clean c \<Longrightarrow> fallback_judge c = (False, c') \<Longrightarrow> \<not> selects (stream c)"
    using fallback_judge_fst [of c] offered.judge_complete [of c "snd (offered_judge c)"]
    by (cases "offered_judge c") auto
qed

text \<open>
  C25. \<open>ProbeFallbackSCSVMissing\<close> pins a hello to the fallback version, marks it with
  TLS_FALLBACK_SCSV as the last suite, and reports missing downgrade protection exactly when the
  reply starts with a ServerHello in a handshake record. An alert, inappropriate_fallback or any
  other, never counts.
\<close>

theorem ProbeFallbackSCSVMissing_iff:
  assumes "clean_net w" and "version < 65536"
  shows "map_option (\<lambda>ch. (ch_version ch, last (ch_suites ch)))
      (parse_client_hello (clientHelloTLS version version fallbackSuites [])) =
      Some (version, 0x5600) \<and>
    (fst (ProbeFallbackSCSVMissing ctx version timeout w) \<longleftrightarrow>
      (\<exists>c. reply ctx (min timeout (4 * second)) (clientHelloTLS version version fallbackSuites []) w =
             Some c \<and> selects (stream c)))"
  using fallback.probe_iff [OF assms(1), of ctx "capTimeout timeout"] assms(2)
    parse_clientHelloTLS [of version version fallbackSuites "[]"]
  by (simp add: ProbeFallbackSCSVMissing_def fallbackSuites_def capTimeout_def min_def wf_exts_def
      enc_exts_def)

theorem ProbeFallbackSCSVMissing_iff_witness:
  "fst (ProbeFallbackSCSVMissing None 0x0302 second (answering [0x16, 3, 2, 0, 0x26, 2])) \<and>
   \<not> fst (ProbeFallbackSCSVMissing None 0x0302 second (answering [0x15, 3, 2, 0, 2, 2, 0x56]))"
  using ProbeFallbackSCSVMissing_iff [OF answering_clean, of "0x0302" None second "[0x16, 3, 2, 0, 0x26, 2]"]
    ProbeFallbackSCSVMissing_iff [OF answering_clean, of "0x0302" None second "[0x15, 3, 2, 0, 2, 2, 0x56]"]
  by (simp add: answering_iff selects_examples)

lemma ProbeFallbackSCSVMissing_net_op:
  "net_op (ProbeFallbackSCSVMissing ctx version timeout) (0 < timeout) (8 * second)"
  unfolding ProbeFallbackSCSVMissing_def Let_def using fallback.capped by simp

lemma signalling_stops:
  "stops (ProbeExportRSA (Some d) timeout) (d + 4 * second)"
  "stops (ProbeExportDH (Some d) timeout) (d + 4 * second)"
  "stops (ProbeFallbackSCSVMissing (Some d) version timeout) (d + 4 * second)"
  unfolding ProbeExportRSA_def ProbeExportDH_def serverSelectsOffered_def ProbeFallbackSCSVMissing_def Let_def
  using offered.capped_stops fallback.capped_stops by simp_all

lemma export_net_op:
  "net_op (ProbeExportRSA ctx timeout) (0 < timeout) (8 * second)"
  "net_op (ProbeExportDH ctx timeout) (0 < timeout) (8 * second)"
  unfolding ProbeExportRSA_def ProbeExportDH_def Let_def by (rule serverSelectsOffered_net_op)+

end
