(* ===== verification/Renegotiation.thy ===== *)
theory Renegotiation
  imports Probes
begin

text \<open>
  \<open>ProbeInsecureRenegotiation\<close> of internal/handshake/probes.go with its two helpers: the ServerHello
  reader, which reassembles a message from records, and the extension walk, whose slice accesses
  are checked here (\<open>None\<close> would be a run-time panic).
\<close>

section \<open>readServerHelloMessage\<close>

text \<open>What follows the loop: the message if it is a complete ServerHello.\<close>

definition server_hello_of :: "bytes \<Rightarrow> bytes option" where
  "server_hello_of buf =
     (if length buf < 4 \<or> buf ! 0 \<noteq> handshakeServerHello then None
      else let msgLen = msg_len buf
           in if msgLen > length buf then None else Some (take msgLen buf))"

text \<open>
  The loop. Every round adds a byte to a buffer that is abandoned above \<open>2^16\<close> bytes. The code
  returns \<open>(nil, nil)\<close> for a reply that is no ServerHello: \<open>Inr None\<close>.
\<close>

lemma shrinks: "xs \<noteq> [] \<Longrightarrow> a + length xs < b \<Longrightarrow> b - (a + length xs) < b - (a :: nat)"
  by (cases xs) auto

function readServerHelloMessage_loop :: "bytes \<Rightarrow> conn \<Rightarrow> (net_err + bytes option) \<times> conn" where
  "readServerHelloMessage_loop buf c =
     (if complete_msg buf then (Inr (server_hello_of buf), c)
      else case readRecordHeader c of
             (Inl e, c1) \<Rightarrow> (Inl e, c1)
           | (Inr (contentType, ver, recLen), c1) \<Rightarrow>
               if contentType \<noteq> recordHandshake \<or> recLen < 1 then (Inr None, c1)
               else case readFull recLen c1 of
                      (Inl e, c2) \<Rightarrow> (Inl e, c2)
                    | (Inr payload, c2) \<Rightarrow>
                        if length (buf @ payload) > 2 ^ 16 then (Inr (server_hello_of (buf @ payload)), c2)
                        else if length (buf @ payload) \<ge> 4 \<and> msg_len (buf @ payload) > 2 ^ 16
                        then (Inr None, c2)
                        else readServerHelloMessage_loop (buf @ payload) c2)"
  by pat_completeness auto
termination
  by (relation "measure (\<lambda>(buf, c). 2 ^ 16 + 1 - length buf)")
     (auto dest!: src.sound [OF sym] intro!: shrinks)

declare readServerHelloMessage_loop.simps [simp del]

definition readServerHelloMessage :: "conn \<Rightarrow> (net_err + bytes option) \<times> conn" where
  "readServerHelloMessage c = readServerHelloMessage_loop [] c"

text \<open>A round of the loop in terms of the record step it shares with \<open>hsReader\<close>.\<close>

lemma shm_step:
  "readServerHelloMessage_loop buf c =
     (if complete_msg buf then (Inr (server_hello_of buf), c)
      else case next_payload c of
             (ReadFailed e, c1) \<Rightarrow> (Inl e, c1)
           | (OtherRecord, c1) \<Rightarrow> (Inr None, c1)
           | (Payload payload, c2) \<Rightarrow>
               if length (buf @ payload) > 2 ^ 16 then (Inr (server_hello_of (buf @ payload)), c2)
               else if length (buf @ payload) \<ge> 4 \<and> msg_len (buf @ payload) > 2 ^ 16
               then (Inr None, c2)
               else readServerHelloMessage_loop (buf @ payload) c2)"
  by (subst readServerHelloMessage_loop.simps)
     (auto simp: next_payload_def dest: readRecordHeader_len split: prod.splits sum.splits)

lemma shm_frame:
  "readServerHelloMessage_loop buf c = (r, c') \<Longrightarrow> keeps c c' \<and> (in_time lim c \<longrightarrow> in_time lim c')"
proof (induction "2 ^ 16 + 1 - length buf" arbitrary: buf c rule: less_induct)
  case less
  obtain f c1 where f: "next_payload c = (f, c1)" by (metis surj_pair)
  note fr = next_payload_frame [OF f, of lim]
  show ?case
  proof (cases "c' = c \<or> c' = c1")
    case True
    then show ?thesis using fr by auto
  next
    case False
    with less.prems f obtain p where p: "f = Payload p" "length (buf @ p) \<le> 2 ^ 16"
      and rest: "readServerHelloMessage_loop (buf @ p) c1 = (r, c')"
      by (auto simp: shm_step [of buf] split: if_splits fill.splits)
    from next_payload_sound [of c p c1] f p have "1 \<le> length p" by simp
    then have "2 ^ 16 + 1 - length (buf @ p) < 2 ^ 16 + 1 - length buf" using p(2) by auto
    from less.hyps [OF this rest] fr show ?thesis by (auto intro: keeps_trans)
  qed
qed

text \<open>
  Whatever the record boundaries, a ServerHello at the start of the handshake stream is returned
  whole and nothing else is.
\<close>

lemma shm_flight:
  assumes "clean c" and "stream c = flight rs @ rest" and "wf_flight rs"
    and "buf @ payloads rs = wrapHandshake t body @ sfx"
    and "4 + length body \<le> 2 ^ 16" and "length (buf @ payloads rs) \<le> 2 ^ 16"
  shows "\<exists>c'. readServerHelloMessage_loop buf c =
    (Inr (if t = handshakeServerHello then Some (wrapHandshake t body) else None), c')"
  using assms
proof (induction rs arbitrary: buf c)
  case Nil
  then have "buf = wrapHandshake t body @ sfx" by simp
  with Nil.prems(5) have "complete_msg buf"
    and "server_hello_of buf = (if t = handshakeServerHello then Some (wrapHandshake t body) else None)"
    by (auto simp: complete_msg_def server_hello_of_def msg_len_wrapHandshake)
  then show ?case by (simp add: shm_step)
next
  case (Cons r rs)
  show ?case
  proof (cases "complete_msg buf")
    case True
    then have l4: "4 \<le> length buf" by (simp add: complete_msg_def)
    have ml: "msg_len buf = 4 + length body"
      using l4 Cons.prems(4,5) msg_len_prefix [of buf "payloads (r # rs)"]
      by (auto simp: msg_len_wrapHandshake)
    with True have "4 + length body \<le> length buf" by (simp add: complete_msg_def)
    then have tk: "take (4 + length body) buf = wrapHandshake t body"
      using arg_cong [OF Cons.prems(4), of "take (4 + length body)"] by simp
    then have "buf ! 0 = t" using l4 nth_take [of 0 "4 + length body" buf] by simp
    with tk ml True l4 show ?thesis
      by (simp add: shm_step complete_msg_def server_hello_of_def Let_def)
  next
    case False
    from Cons.prems next_payload_record [of c r "flight rs @ rest"] obtain c2 where
      p: "next_payload c = (Payload (snd r), c2)" and c2: "stream c2 = flight rs @ rest" "clean c2"
      by auto
    have len: "length (buf @ snd r) \<le> 2 ^ 16" using Cons.prems(6) by simp
    have ml: "4 \<le> length (buf @ snd r) \<Longrightarrow> msg_len (buf @ snd r) \<le> 2 ^ 16"
      using msg_len_prefix [of "buf @ snd r" "payloads rs"] Cons.prems(4,5)
      by (simp add: msg_len_wrapHandshake)
    have step: "readServerHelloMessage_loop buf c = readServerHelloMessage_loop (buf @ snd r) c2"
      using False p len ml by (subst shm_step) auto
    show ?thesis
      unfolding step by (rule Cons.IH) (use c2 Cons.prems in simp_all)
  qed
qed

section \<open>serverHelloHasExtension\<close>

text \<open>The loop over the extensions; every round moves the position forwards.\<close>

function ext_walk :: "bytes \<Rightarrow> nat \<Rightarrow> nat \<Rightarrow> nat \<Rightarrow> bool option" where
  "ext_walk msg wantExt p stop =
     (if p + 4 \<le> stop
      then do {
        etype \<leftarrow> idx16 msg p;
        elen \<leftarrow> idx16 msg (p + 2);
        if etype = wantExt then Some True else ext_walk msg wantExt (p + 4 + elen) stop }
      else Some False)"
  by pat_completeness auto
termination
  by (relation "measure (\<lambda>(msg, w, p, e). Suc e - p)") auto

declare ext_walk.simps [simp del]

definition serverHelloHasExtension :: "bytes \<Rightarrow> nat \<Rightarrow> bool option" where
  "serverHelloHasExtension msg wantExt =
     (let p = 4 + (2 + 32)
      in if p + 1 > length msg then Some False
      else do {
        b \<leftarrow> idx msg p;
        let p = p + 1 + unat b + (2 + 1);
        if p > length msg then Some False
        else if p + 2 > length msg then Some False
        else do {
          extTotal \<leftarrow> idx16 msg p;
          let p = p + 2;
          let e = (if p + extTotal > length msg then length msg else p + extTotal);
          ext_walk msg wantExt p e } })"

lemma ext_walk_total: "e \<le> length msg \<Longrightarrow> ext_walk msg w p e \<noteq> None"
proof (induction msg w p e rule: ext_walk.induct)
  case (1 msg w p e)
  then show ?case
    by (subst ext_walk.simps) (auto simp: idx16_Some)
qed

lemma has_ext_total: "serverHelloHasExtension msg w \<noteq> None"
  by (auto simp: serverHelloHasExtension_def Let_def idx_Some idx16_Some simp del: not_None_eq
      intro!: ext_walk_total)

text \<open>An extension block is searched exactly.\<close>

lemma ext_walk_step:
  "p + 4 \<le> stop \<Longrightarrow> idx16 msg p = Some t \<Longrightarrow> idx16 msg (p + 2) = Some l \<Longrightarrow>
     ext_walk msg w p stop = (if t = w then Some True else ext_walk msg w (p + 4 + l) stop)"
  by (subst ext_walk.simps) simp

lemma ext_walk_enc:
  assumes "wf_exts es"
  shows "ext_walk (pre @ enc_exts es) w (length pre) (length pre + length (enc_exts es)) =
    Some (w \<in> fst ` set es)"
  using assms
proof (induction es arbitrary: pre)
  case Nil
  then show ?case by (simp add: ext_walk.simps enc_exts_def)
next
  case (Cons e es)
  let ?msg = "pre @ enc_exts (e # es)" and ?pre = "pre @ enc_ext e"
  let ?stop = "length pre + length (enc_exts (e # es))"
  have e: "fst e < 65536" "length (snd e) < 65536" using Cons.prems by (auto simp: wf_exts_def)
  have msg: "?msg = ?pre @ enc_exts es" by (simp add: enc_exts_def)
  have len: "?stop = length ?pre + length (enc_exts es)" by (simp add: enc_exts_def)
  have at: "length pre + 4 + length (snd e) = length ?pre" by (simp add: enc_ext_def)
  have "ext_walk ?msg w (length pre) ?stop =
      (if fst e = w then Some True else ext_walk ?msg w (length pre + 4 + length (snd e)) ?stop)"
  proof (rule ext_walk_step)
    show "length pre + 4 \<le> ?stop" by (simp add: enc_exts_def enc_ext_def)
    show "idx16 ?msg (length pre) = Some (fst e)"
      using idx16_at [of pre "fst e"] e by (simp add: enc_exts_def enc_ext_def)
    show "idx16 ?msg (length pre + 2) = Some (length (snd e))"
      using idx16_at [of "pre @ put16 (fst e)" "length (snd e)"] e by (simp add: enc_exts_def enc_ext_def)
  qed
  also have "\<dots> = Some (w \<in> fst ` set (e # es))"
    unfolding at len msg using Cons.IH [of ?pre] Cons.prems by (auto simp: wf_exts_def)
  finally show ?case .
qed

section \<open>ServerHello messages\<close>

text \<open>The format, as an encoder: the extension block is optional.\<close>

record server_hello =
  sh_version :: nat
  sh_random :: bytes
  sh_session :: bytes
  sh_suite :: nat
  sh_compression :: byte
  sh_exts :: "(nat \<times> bytes) list option"

definition enc_hello_body :: "server_hello \<Rightarrow> bytes" where
  "enc_hello_body sh =
     put16 (sh_version sh) @ sh_random sh @ [of_nat (length (sh_session sh))] @ sh_session sh @
     put16 (sh_suite sh) @ [sh_compression sh] @
     (case sh_exts sh of None \<Rightarrow> [] | Some es \<Rightarrow> put16 (length (enc_exts es)) @ enc_exts es)"

definition wf_hello :: "server_hello \<Rightarrow> bool" where
  "wf_hello sh \<longleftrightarrow>
     length (sh_random sh) = 32 \<and> length (sh_session sh) \<le> 32 \<and>
     sh_version sh < 65536 \<and> sh_suite sh < 65536 \<and>
     (case sh_exts sh of None \<Rightarrow> True
      | Some es \<Rightarrow> wf_exts es \<and> length (enc_exts es) < 65000)"

definition hello_ext_types :: "server_hello \<Rightarrow> nat set" where
  "hello_ext_types sh = (case sh_exts sh of None \<Rightarrow> {} | Some es \<Rightarrow> fst ` set es)"

lemma length_enc_hello_body: "wf_hello sh \<Longrightarrow> length (enc_hello_body sh) < 65100"
  by (auto simp: wf_hello_def enc_hello_body_def split: option.splits)

lemma has_ext_hello:
  assumes "wf_hello sh"
  shows "serverHelloHasExtension (wrapHandshake handshakeServerHello (enc_hello_body sh)) w =
    Some (w \<in> hello_ext_types sh)"
proof -
  define es where "es = (case sh_exts sh of None \<Rightarrow> [] | Some es \<Rightarrow> put16 (length (enc_exts es)) @ enc_exts es)"
  define h where "h = [handshakeServerHello] @ put24 (length (enc_hello_body sh)) @
    put16 (sh_version sh) @ sh_random sh"
  define pre where "pre = h @ [of_nat (length (sh_session sh))] @ sh_session sh @
    put16 (sh_suite sh) @ [sh_compression sh]"
  define msg where "msg = wrapHandshake handshakeServerHello (enc_hello_body sh)"
  have msg: "msg = pre @ es"
    by (simp add: msg_def wrapHandshake_def enc_hello_body_def pre_def h_def es_def)
  have lh: "length h = 38" using assms by (simp add: h_def wf_hello_def)
  have ls: "length (sh_session sh) mod 256 = length (sh_session sh)"
    using assms by (simp add: wf_hello_def)
  have lp: "length pre = 42 + length (sh_session sh)" by (simp add: pre_def lh)
  have b: "idx msg 38 = Some (of_nat (length (sh_session sh)))"
    by (simp add: msg pre_def idx_def nth_append lh)
  show ?thesis
  proof (cases "sh_exts sh")
    case None
    then have "length msg = length pre" by (simp add: msg es_def)
    then have "serverHelloHasExtension msg w = Some False"
      using b lp ls by (simp add: serverHelloHasExtension_def Let_def)
    then show ?thesis using None by (simp add: msg_def hello_ext_types_def)
  next
    case (Some xs)
    then have xs: "wf_exts xs" "length (enc_exts xs) < 65536" using assms by (auto simp: wf_hello_def)
    have t: "idx16 msg (length pre) = Some (length (enc_exts xs))"
      using idx16_at [of pre "length (enc_exts xs)" "enc_exts xs"] xs Some by (simp add: msg es_def)
    have wk: "ext_walk msg w (length pre + 2) (length pre + 2 + length (enc_exts xs)) =
        Some (w \<in> fst ` set xs)"
      using ext_walk_enc [OF xs(1), of "pre @ put16 (length (enc_exts xs))" w] Some
      by (simp add: msg es_def)
    have lm: "length msg = length pre + 2 + length (enc_exts xs)" using Some by (simp add: msg es_def)
    have "serverHelloHasExtension msg w = Some (w \<in> fst ` set xs)"
      using b t wk lm lp ls by (simp add: serverHelloHasExtension_def Let_def)
    then show ?thesis using Some by (simp add: msg_def hello_ext_types_def)
  qed
qed

section \<open>ProbeInsecureRenegotiation\<close>

definition extRenegotiationInfo :: nat where [simp]: "extRenegotiationInfo = 0xff01"

definition reneg_judge :: "conn \<Rightarrow> bool option \<times> conn" where
  "reneg_judge c =
     (case readServerHelloMessage c of
        (Inl e, c1) \<Rightarrow> (Some False, c1)
      | (Inr None, c1) \<Rightarrow> (Some False, c1)
      | (Inr (Some serverHello), c1) \<Rightarrow>
          (map_option Not (serverHelloHasExtension serverHello extRenegotiationInfo), c1))"

definition renegSuites :: "nat list" where
  "renegSuites =
     [0xc02f, 0xc030, 0xc02b, 0xc02c, 0xc013, 0xc014, 0x009c, 0x009d, 0x002f, 0x0035]"

definition renegHello :: bytes where
  "renegHello = clientHelloTLS versionTLS12 versionTLS12 renegSuites [0xff, 0x01, 0x00, 0x01, 0x00]"

definition ProbeInsecureRenegotiation :: "int option \<Rightarrow> int \<Rightarrow> world \<Rightarrow> bool option \<times> world" where
  "ProbeInsecureRenegotiation ctx timeout =
     (let timeout = capTimeout timeout
      in with_conn ctx timeout (\<lambda>_. Some False) (plain (ask renegHello (Some False) reneg_judge)))"

lemma reneg_judge_frame:
  "reneg_judge c = (r, c') \<Longrightarrow> keeps c c' \<and> (in_time lim c \<longrightarrow> in_time lim c')"
  by (auto simp: reneg_judge_def readServerHelloMessage_def
      split: prod.splits sum.splits option.splits dest: shm_frame [of _ _ _ _ lim])

interpretation reneg: judged renegHello "Some False" reneg_judge
  by unfold_locales (rule reneg_judge_frame)

lemma ProbeInsecureRenegotiation_net_op:
  "net_op (ProbeInsecureRenegotiation ctx timeout) (0 < timeout) (8 * second)"
  unfolding ProbeInsecureRenegotiation_def Let_def using reneg.capped by simp

lemma ProbeInsecureRenegotiation_stops:
  "stops (ProbeInsecureRenegotiation (Some d) timeout) (d + 4 * second)"
  unfolding ProbeInsecureRenegotiation_def Let_def using reneg.capped_stops by simp

lemma renegHello_parses:
  "parse_client_hello renegHello =
    Some \<lparr>ch_record_version = 0x0303, ch_version = 0x0303, ch_random = replicate 32 0,
          ch_session = [], ch_suites = renegSuites, ch_compression = [0],
          ch_extensions = [(0xff01, [0])]\<rparr>"
proof -
  have "enc_exts [(0xff01, [0])] = [0xff, 0x01, 0x00, 0x01, 0x00]"
    by (simp add: enc_exts_def enc_ext_def put16_def)
  then show ?thesis
    using parse_clientHelloTLS [of "0x0303" "0x0303" renegSuites "[(0xff01, [0])]"]
    by (simp add: renegHello_def renegSuites_def wf_exts_def)
qed

lemma reneg_no_panic: "fst (ProbeInsecureRenegotiation ctx timeout w) \<noteq> None"
  by (auto simp: ProbeInsecureRenegotiation_def Let_def reneg.probe_reply reneg_judge_def has_ext_total
      split: option.splits prod.splits sum.splits simp del: not_None_eq)

text \<open>
  The extension walk never reads outside the message: \<open>ProbeInsecureRenegotiation\<close> cannot panic,
  whatever bytes the server sends. Its slice accesses all lie behind a length check.
\<close>

theorem ProbeInsecureRenegotiation_no_panic: "fst (ProbeInsecureRenegotiation ctx timeout w) \<noteq> None"
  by (rule reneg_no_panic)

text \<open>
  C20. Renegotiation, end to end. When the server's reply begins with handshake records that carry a
  well-formed ServerHello, split over the records in any way and followed by anything, the probe
  reports insecure renegotiation exactly when the ServerHello has no renegotiation_info extension.
\<close>

theorem ProbeInsecureRenegotiation_iff:
  assumes "clean_net w" and "reply ctx (capTimeout timeout) renegHello w = Some c"
    and "stream c = flight rs @ rest" and "wf_flight rs" and "length (payloads rs) \<le> 2 ^ 16"
    and "payloads rs = wrapHandshake handshakeServerHello (enc_hello_body sh) @ more_msgs"
    and "wf_hello sh"
  shows "fst (ProbeInsecureRenegotiation ctx timeout w) = Some (0xff01 \<notin> hello_ext_types sh)"
proof -
  have "\<exists>c'. readServerHelloMessage c =
      (Inr (Some (wrapHandshake handshakeServerHello (enc_hello_body sh))), c')"
    using shm_flight [of c rs rest "[]" handshakeServerHello "enc_hello_body sh" more_msgs]
      reply_clean [OF assms(1,2)] assms(3-6) length_enc_hello_body [OF assms(7)]
    by (simp add: readServerHelloMessage_def)
  then show ?thesis
    using has_ext_hello [OF assms(7), of "0xff01"] assms(2)
    by (auto simp: ProbeInsecureRenegotiation_def reneg.probe_reply reneg_judge_def Let_def)
qed

text \<open>A ServerHello without extensions, in one record of its own.\<close>

definition plain_hello :: "(nat \<times> bytes) list option \<Rightarrow> server_hello" where
  "plain_hello es = \<lparr>sh_version = 0x0303, sh_random = replicate 32 7, sh_session = [],
     sh_suite = 0xc02f, sh_compression = 0, sh_exts = es\<rparr>"

definition in_one_record :: "bytes \<Rightarrow> (nat \<times> bytes) list" where
  "in_one_record body = [(0x0303, wrapHandshake handshakeServerHello body)]"

lemma in_one_record [simp]:
  "length body < 65500 \<Longrightarrow> wf_flight (in_one_record body)"
  "payloads (in_one_record body) = wrapHandshake handshakeServerHello body"
  by (simp_all add: in_one_record_def)

lemma plain_hello [simp]:
  "wf_hello (plain_hello None)" "wf_hello (plain_hello (Some [(0xff01, [0])]))"
  "hello_ext_types (plain_hello None) = {}"
  "hello_ext_types (plain_hello (Some [(0xff01, [0])])) = {0xff01}"
  by (simp_all add: wf_hello_def plain_hello_def wf_exts_def enc_exts_def enc_ext_def hello_ext_types_def)

theorem ProbeInsecureRenegotiation_iff_witness:
  "fst (ProbeInsecureRenegotiation None second
          (answering (flight (in_one_record (enc_hello_body (plain_hello None)))))) = Some True \<and>
   fst (ProbeInsecureRenegotiation None second
          (answering (flight (in_one_record
             (enc_hello_body (plain_hello (Some [(0xff01, [0])]))))))) = Some False"
proof -
  have "fst (ProbeInsecureRenegotiation None second
          (answering (flight (in_one_record (enc_hello_body (plain_hello es)))))) =
        Some (0xff01 \<notin> hello_ext_types (plain_hello es))" if wf: "wf_hello (plain_hello es)" for es
  proof -
    let ?body = "enc_hello_body (plain_hello es)"
    have b: "length ?body < 65100" by (rule length_enc_hello_body [OF wf])
    obtain c where "reply None (capTimeout second) renegHello (answering (flight (in_one_record ?body))) = Some c"
      and "stream c = flight (in_one_record ?body)"
      using answering_reply [of "capTimeout second"] by fastforce
    then show ?thesis
      using ProbeInsecureRenegotiation_iff [OF answering_clean, of None second _ c "in_one_record ?body" "[]" "plain_hello es" "[]"]
        wf b by simp
  qed
  from this [of None] this [of "Some [(0xff01, [0])]"] show ?thesis by simp
qed

text \<open>
  A ServerHello too short to hold its fixed fields is no clean evidence, but it counts as a
  missing extension: a handshake message of type ServerHello with fewer than 35 bytes of body makes
  the probe report insecure renegotiation.
\<close>

theorem ProbeInsecureRenegotiation_truncated:
  assumes "clean_net w" and "reply ctx (capTimeout timeout) renegHello w = Some c"
    and "stream c = flight (in_one_record body) @ rest" and "length body < 35"
  shows "fst (ProbeInsecureRenegotiation ctx timeout w) = Some True"
proof -
  have "\<exists>c'. readServerHelloMessage c = (Inr (Some (wrapHandshake handshakeServerHello body)), c')"
    using shm_flight [of c "in_one_record body" rest "[]" handshakeServerHello body "[]"]
      reply_clean [OF assms(1,2)] assms(3,4)
    by (simp add: readServerHelloMessage_def)
  moreover have "serverHelloHasExtension (wrapHandshake handshakeServerHello body) 0xff01 = Some False"
    using assms(4) by (simp add: serverHelloHasExtension_def)
  ultimately show ?thesis
    using assms(2)
    by (auto simp: ProbeInsecureRenegotiation_def reneg.probe_reply reneg_judge_def Let_def)
qed

theorem ProbeInsecureRenegotiation_truncated_witness:
  "fst (ProbeInsecureRenegotiation None second (answering [0x16, 3, 3, 0, 4, 2, 0, 0, 0])) = Some True"
proof -
  have f: "flight (in_one_record []) = [0x16, 3, 3, 0, 4, 2, 0, 0, 0]"
    by (simp add: in_one_record_def hs_record_def wrapHandshake_def put16_def put24_def)
  obtain c where "reply None (capTimeout second) renegHello (answering (flight (in_one_record []))) = Some c"
    and "stream c = flight (in_one_record [])"
    using answering_reply [of "capTimeout second"] by fastforce
  then show ?thesis
    using ProbeInsecureRenegotiation_truncated [OF answering_clean, of None second _ c "[]" "[]"]
    by (simp add: f)
qed

end
