(* ===== verification/Heartbleed.thy ===== *)
theory Heartbleed
  imports Legacy Handshake
begin

text \<open>
  The Heartbleed probe of internal/vulns/heartbleed.go: hello, one drain of the server's flight, the
  malformed heartbeat, and the judgement of the next record. Its own \<open>readFull\<close> is modelled with the
  buffer it fills and shown to be the function on streams that theory \<open>Net\<close> has for the one of
  internal/handshake.
\<close>

section \<open>readFull\<close>

text \<open>
  The loop, with \<open>filled\<close> for Go's \<open>total\<close>: each read writes into the buffer behind the bytes already there. The result is
  the buffer, the number of bytes read, and the error.
\<close>

function fill_buffer :: "bytes \<Rightarrow> nat \<Rightarrow> conn \<Rightarrow> (bytes \<times> nat \<times> net_err option) \<times> conn" where
  "fill_buffer buf filled c =
     (if filled < length buf
      then case conn_read (length buf - filled) c of
             ((bs, err), c') \<Rightarrow>
               let buf = take filled buf @ bs @ drop (filled + length bs) buf;
                   filled = filled + length bs
               in (case err of
                     Some e \<Rightarrow> ((buf, filled, Some e), c')
                   | None \<Rightarrow> fill_buffer buf filled c')
      else ((buf, filled, None), c))"
  by pat_completeness auto
termination
proof (relation "measure (\<lambda>(buf, filled, c). (length buf - filled) + length (c_in c))", goal_cases)
  case (2 buf filled c r c' bs err buf' filled')
  then have r: "conn_read (length buf - filled) c = ((bs, None), c')" "0 < length buf - filled" by auto
  have "length buf' - filled' = length buf - filled - length bs"
    using 2 conn_read_ok [OF r(2,1)] by simp
  with conn_read_progress [OF r(2,1)] show ?case by simp
qed simp

declare fill_buffer.simps [simp del]

definition vulns_readFull :: "bytes \<Rightarrow> conn \<Rightarrow> (bytes \<times> nat \<times> net_err option) \<times> conn" where
  "vulns_readFull buf c = fill_buffer buf 0 c"

lemma fill_buffer_loop:
  "filled \<le> length buf \<Longrightarrow> readFull_loop (length buf - filled) (take filled buf) c =
     (case fill_buffer buf filled c of
        ((buf', n, None), c') \<Rightarrow> (Inr buf', c')
      | ((buf', n, Some e), c') \<Rightarrow> (Inl e, c'))"
proof (induction buf filled c rule: fill_buffer.induct)
  case (1 buf filled c)
  show ?case
  proof (cases "filled < length buf")
    case True
    obtain bs err c' where r: "conn_read (length buf - filled) c = ((bs, err), c')" by (metis surj_pair)
    show ?thesis
    proof (cases err)
      case None
      have n: "0 < length buf - filled" using True by simp
      define buf' where "buf' = take filled buf @ bs @ drop (filled + length bs) buf"
      have l: "length bs \<le> length buf - filled" using conn_read_ok [OF n] r None by blast
      then have b: "length buf' = length buf" "take (filled + length bs) buf' = take filled buf @ bs"
        using True by (simp_all add: buf'_def)
      have "readFull_loop (length buf' - (filled + length bs)) (take (filled + length bs) buf') c' =
          (case fill_buffer buf' (filled + length bs) c' of
             ((buf', n, None), c') \<Rightarrow> (Inr buf', c') | ((buf', n, Some e), c') \<Rightarrow> (Inl e, c'))"
        by (rule "1.IH" [OF True r [symmetric] refl buf'_def refl None]) (use l b True in simp)
      then show ?thesis
        using True r None unfolding b
        by (simp add: readFull_loop.simps [of "length buf - filled"] fill_buffer.simps [of buf] buf'_def [symmetric] Let_def)
    next
      case (Some e)
      then show ?thesis
        using True r by (simp add: readFull_loop.simps [of "length buf - filled"] fill_buffer.simps [of buf] Let_def)
    qed
  next
    case False
    with "1.prems" show ?thesis by (simp add: readFull_loop.simps fill_buffer.simps [of buf])
  qed
qed

lemma vulns_readFull_eq:
  "readFull (length buf) c =
     (case vulns_readFull buf c of
        ((buf', n, None), c') \<Rightarrow> (Inr buf', c')
      | ((buf', n, Some e), c') \<Rightarrow> (Inl e, c'))"
  using fill_buffer_loop [of 0 buf c] by (simp add: readFull_def vulns_readFull_def)

section \<open>The probe\<close>

definition drainHandshake :: "int \<Rightarrow> conn \<Rightarrow> net_err option \<times> conn" where
  "drainHandshake timeout c =
     (case conn_read 4096 (set_read_deadline timeout c) of
        ((bs, Some e), c1) \<Rightarrow> if ne_timeout e then (None, c1) else (Some e, c1)
      | ((bs, None), c1) \<Rightarrow> (None, c1))"

definition readHeartbeatResponse :: "int \<Rightarrow> conn \<Rightarrow> (net_err + bool) \<times> conn" where
  "readHeartbeatResponse timeout c =
     (case vulns_readFull (replicate 5 0) (set_read_deadline timeout c) of
        ((header, n, Some e), c1) \<Rightarrow> (Inl e, c1)
      | ((header, n, None), c1) \<Rightarrow>
          let contentType = header ! 0;
              recLen = get16 (header ! 3) (header ! 4)
          in if contentType \<noteq> recordHeartbeat then (Inr False, c1)
             else if recLen > 16
             then (case conn_read recLen c1 of (r, c2) \<Rightarrow> (Inr True, c2))
             else (Inr False, c1))"

lemma readHeartbeatResponse_eq:
  "readHeartbeatResponse timeout c =
     (case readFull 5 (set_read_deadline timeout c) of
        (Inl e, c1) \<Rightarrow> (Inl e, c1)
      | (Inr header, c1) \<Rightarrow>
          let contentType = header ! 0;
              recLen = get16 (header ! 3) (header ! 4)
          in if contentType \<noteq> recordHeartbeat then (Inr False, c1)
             else if recLen > 16
             then (case conn_read recLen c1 of (r, c2) \<Rightarrow> (Inr True, c2))
             else (Inr False, c1))"
  using vulns_readFull_eq [of "replicate 5 0" "set_read_deadline timeout c"]
  by (auto simp: readHeartbeatResponse_def simp del: replicate.simps split: prod.splits option.splits)

text \<open>The body between dial and close; the answer is \<open>(vulnerable, err)\<close>.\<close>

definition heartbleed_body :: "int \<Rightarrow> conn \<Rightarrow> (bool \<times> net_err option) \<times> conn" where
  "heartbleed_body timeout c =
     (case conn_write clientHelloWithHeartbeat c of
        (Some e, c1) \<Rightarrow> ((False, Some e), c1)
      | (None, c1) \<Rightarrow>
          (case drainHandshake timeout c1 of
             (Some e, c2) \<Rightarrow> ((False, Some e), c2)
           | (None, c2) \<Rightarrow>
               (case conn_write maliciousHeartbeat c2 of
                  (Some e, c3) \<Rightarrow> ((False, Some e), c3)
                | (None, c3) \<Rightarrow>
                    (case readHeartbeatResponse timeout c3 of
                       (Inl e, c4) \<Rightarrow> ((False, None), c4)
                     | (Inr vulnerable, c4) \<Rightarrow> ((vulnerable, None), c4)))))"

definition Heartbleed :: "int option \<Rightarrow> int \<Rightarrow> world \<Rightarrow> (bool \<times> net_err option) \<times> world" where
  "Heartbleed ctx timeout =
     with_conn ctx timeout (\<lambda>e. (False, Some e)) (plain (heartbleed_body timeout))"

section \<open>Resources\<close>

lemma drainHandshake_frame:
  assumes "drainHandshake timeout c = (r, c')"
  shows "c_now c \<le> c_now c' \<and> c_peer c' = c_peer c \<and> (clean c \<longrightarrow> clean c') \<and>
    (in_time lim c \<longrightarrow> in_time (lim + max 0 timeout) c')"
proof -
  obtain x where "conn_read 4096 (set_read_deadline timeout c) = (x, c')"
    using assms by (auto simp: drainHandshake_def split: prod.splits option.splits if_splits)
  from conn_read_frame [OF this, of "lim + max 0 timeout"] conn_read_clean [OF _ this]
  show ?thesis by (auto simp: keeps_def set_read_deadline_in_time)
qed

lemma readHeartbeatResponse_frame:
  assumes "readHeartbeatResponse timeout c = (r, c')"
  shows "c_now c \<le> c_now c' \<and> (in_time lim c \<longrightarrow> in_time (lim + max 0 timeout) c')"
proof -
  obtain h c1 where h: "readFull 5 (set_read_deadline timeout c) = (h, c1)" by (metis surj_pair)
  note f = readFull_frame [OF h, of "lim + max 0 timeout"]
  from assms h have "c' = c1 \<or> (\<exists>n x. conn_read n c1 = (x, c'))"
    by (auto simp: readHeartbeatResponse_eq Let_def split: prod.splits sum.splits if_splits)
  with f show ?thesis
    using conn_read_frame [of _ c1 _ c' "lim + max 0 timeout"]
    by (fastforce simp: keeps_def set_read_deadline_in_time)
qed

lemma heartbleed_body_frame:
  assumes "heartbleed_body timeout c = (r, c')"
  shows "c_now c \<le> c_now c' \<and> (in_time lim c \<longrightarrow> c_now c' \<le> lim + 2 * max 0 timeout)"
proof -
  define m where "m = max 0 timeout"
  have m: "0 \<le> m" by (simp add: m_def)
  obtain e1 c1 where w1: "conn_write clientHelloWithHeartbeat c = (e1, c1)" by (metis surj_pair)
  obtain e2 c2 where d: "drainHandshake timeout c1 = (e2, c2)" by (metis surj_pair)
  obtain e3 c3 where w2: "conn_write maliciousHeartbeat c2 = (e3, c3)" by (metis surj_pair)
  obtain x c4 where rd: "readHeartbeatResponse timeout c3 = (x, c4)" by (metis surj_pair)
  note f1 = conn_write_frame [OF w1, of lim]
    and f2 = drainHandshake_frame [OF d, of lim, folded m_def]
    and f3 = conn_write_frame [OF w2, of "lim + m"]
    and f4 = readHeartbeatResponse_frame [OF rd, of "lim + m", folded m_def]
  have fw: "c_now c \<le> c_now c1" "c_now c1 \<le> c_now c2" "c_now c2 \<le> c_now c3" "c_now c3 \<le> c_now c4"
    using f1 f2 f3 f4 by auto
  have "in_time (lim + 2 * m) c1 \<and> in_time (lim + 2 * m) c2 \<and> in_time (lim + 2 * m) c3 \<and>
      in_time (lim + 2 * m) c4" if "in_time lim c"
    using that f1 f2 f3 f4 m in_time_mono [of lim c1 "lim + 2 * m"]
      in_time_mono [of "lim + m" c2 "lim + 2 * m"] in_time_mono [of "lim + m" c3 "lim + 2 * m"]
    by (auto simp: algebra_simps)
  moreover have "c' = c1 \<or> c' = c2 \<or> c' = c3 \<or> c' = c4"
    using assms w1 d w2 rd
    by (auto simp: heartbleed_body_def split: prod.splits sum.splits option.splits)
  ultimately show ?thesis using fw by (auto simp: m_def dest: in_time_now)
qed

interpretation heartbleed: conn_body "plain (heartbleed_body timeout)" "2 * max 0 timeout" for timeout
proof
  fix c w r c' w' lim
  assume "plain (heartbleed_body timeout) c w = (r, c', w')"
  then have h: "heartbleed_body timeout c = (r, c')" and "w' = w"
    by (auto simp: plain_def split: prod.splits)
  then show "w_open w' = w_open w \<and> w_now w' = w_now w" by simp
  assume "in_time lim c"
  with heartbleed_body_frame [OF h, of lim]
  show "c_now c \<le> c_now c'" and "c_now c' \<le> lim + 2 * max 0 timeout" by auto
qed simp

lemma Heartbleed_net_op: "net_op (Heartbleed ctx timeout) (timeout \<noteq> 0) (4 * max 0 timeout)"
  unfolding Heartbleed_def by (rule net_op_mono [OF heartbleed.bracket.net_op_axioms]) auto

lemma Heartbleed_stops: "stops (Heartbleed (Some d) timeout) (d + 3 * max 0 timeout)"
  unfolding Heartbleed_def by (rule stops_mono [OF heartbleed.bracket_stops]) simp

section \<open>What the probe decides\<close>

text \<open>The connection on which the response is read: after hello, drain and heartbeat.\<close>

definition heartbeat_reply :: "int option \<Rightarrow> int \<Rightarrow> world \<Rightarrow> conn option" where
  "heartbeat_reply ctx timeout w =
     (case reply ctx timeout clientHelloWithHeartbeat w of
        None \<Rightarrow> None
      | Some c1 \<Rightarrow>
          (case drainHandshake timeout c1 of
             (Some e, c2) \<Rightarrow> None
           | (None, c2) \<Rightarrow>
               (case conn_write maliciousHeartbeat c2 of
                  (Some e, c3) \<Rightarrow> None
                | (None, c3) \<Rightarrow> Some (set_read_deadline timeout c3))))"

text \<open>A heartbeat record of more than 16 bytes.\<close>

definition leaks :: "bytes \<Rightarrow> bool" where
  "leaks bs \<longleftrightarrow> 5 \<le> length bs \<and> bs ! 0 = 0x18 \<and> 16 < get16 (bs ! 3) (bs ! 4)"

lemma readHeartbeatResponse_leaks:
  assumes "clean c"
  shows "fst (readHeartbeatResponse timeout c) = Inr True \<longleftrightarrow> leaks (stream (set_read_deadline timeout c))"
proof (cases "readFull 5 (set_read_deadline timeout c)")
  case (Pair r c1)
  show ?thesis
  proof (cases r)
    case (Inl e)
    with Pair assms net.short [of "set_read_deadline timeout c" 5 e c1]
    show ?thesis by (simp add: readHeartbeatResponse_eq leaks_def)
  next
    case (Inr h)
    with Pair src.sound [of 5 "set_read_deadline timeout c" h c1]
    show ?thesis
      by (auto simp: readHeartbeatResponse_eq leaks_def Let_def nth_append split: prod.splits)
  qed
qed

lemma reply_peer:
  assumes "clean_net w" and "reply ctx timeout hello w = Some c"
  shows "clean_peer (c_peer c)"
proof -
  from assms(2) obtain c0 w1 where d: "dial ctx timeout w = (Inr c0, w1)"
    and wr: "conn_write hello (set_deadline timeout c0) = (None, c)"
    by (auto simp: reply_def split: prod.splits sum.splits option.splits)
  from dial_clean [OF assms(1) d] conn_write_keeps [OF wr] show ?thesis by (simp add: keeps_def)
qed

lemma heartbeat_reply_clean:
  assumes "clean_net w" and "reply ctx timeout clientHelloWithHeartbeat w = Some c1"
    and "drainHandshake timeout c1 = (e2, c2)" and "conn_write maliciousHeartbeat c2 = (e3, c3)"
  shows "clean c3"
  using conn_write_clean [OF _ _ assms(4)] drainHandshake_frame [OF assms(3)]
    reply_peer [OF assms(1,2)] reply_clean [OF assms(1,2)] by simp

lemma Heartbleed_vulnerable:
  assumes "clean_net w"
  shows "fst (fst (Heartbleed ctx timeout w)) \<longleftrightarrow>
    (\<exists>c. heartbeat_reply ctx timeout w = Some c \<and> leaks (stream c))"
proof (cases "reply ctx timeout clientHelloWithHeartbeat w")
  case None
  then show ?thesis
    by (auto simp: Heartbleed_def with_conn_def plain_def heartbleed_body_def heartbeat_reply_def
        reply_def split: prod.splits sum.splits option.splits)
next
  case (Some c1)
  then have "fst (fst (Heartbleed ctx timeout w)) =
      (case drainHandshake timeout c1 of
         (Some e, c2) \<Rightarrow> False
       | (None, c2) \<Rightarrow>
           (case conn_write maliciousHeartbeat c2 of
              (Some e, c3) \<Rightarrow> False
            | (None, c3) \<Rightarrow> fst (readHeartbeatResponse timeout c3) = Inr True))"
    by (auto simp: Heartbleed_def with_conn_def plain_def heartbleed_body_def
        reply_def split: prod.splits sum.splits option.splits)
  with Some show ?thesis
    using heartbeat_reply_clean [OF assms Some] readHeartbeatResponse_leaks
    by (auto simp: heartbeat_reply_def split: prod.splits option.splits)
qed

text \<open>
  C21. Heartbleed is reported exactly when, after the hello, one drained read and the malformed
  heartbeat, what can still be read within the deadline begins with a heartbeat record of more than
  16 bytes; and then never together with an error. Alerts, handshake records, resets and silence
  are "not vulnerable".
\<close>

theorem Heartbleed_iff:
  assumes "clean_net w"
  shows "fst (Heartbleed ctx timeout w) = (True, err) \<longleftrightarrow>
    err = None \<and> (\<exists>c. heartbeat_reply ctx timeout w = Some c \<and> leaks (stream c))"
proof -
  have "err = None" if "fst (Heartbleed ctx timeout w) = (True, err)" for err
    using that
    by (auto simp: Heartbleed_def with_conn_def plain_def heartbleed_body_def
        split: prod.splits sum.splits option.splits)
  then show ?thesis
    using Heartbleed_vulnerable [OF assms, of ctx timeout]
    by (cases "fst (Heartbleed ctx timeout w)") (auto; metis prod.collapse)
qed

text \<open>A host that answers the hello and nothing else, when its answer is longer than one drain.\<close>

lemma heartbeat_reply_answering:
  assumes "0 < timeout" and "4096 < length bs"
  shows "\<exists>c. heartbeat_reply None timeout (answering bs) = Some c \<and> stream c = drop 4096 bs"
  using assms
  by (simp add: heartbeat_reply_def reply_def answering_def dial_def dial_limit_def expired_def
      open_conn_def conn_write_def set_deadline_def enqueue_def stream_def Let_def
      drainHandshake_def conn_read.simps set_read_deadline_def)

text \<open>
  The drain is a single read of at most 4096 bytes. A host that sends nothing but a well-formed
  handshake flight, with no heartbeat support at all, is reported vulnerable if the flight is longer
  than that and its bytes from offset 4096 on look like the header of a long heartbeat record.
\<close>

theorem Heartbleed_misreads_handshake:
  assumes "0 < timeout" and "wf_flight rs"
    and "drop 4096 (flight rs) = [0x18, v1, v2, l1, l2] @ rest" and "16 < get16 l1 l2"
  shows "fst (Heartbleed None timeout (answering (flight rs))) = (True, None)"
proof -
  have "4096 < length (flight rs)" using arg_cong [OF assms(3), of length] by simp
  from heartbeat_reply_answering [OF assms(1) this] obtain c where
    c: "heartbeat_reply None timeout (answering (flight rs)) = Some c"
       "stream c = drop 4096 (flight rs)" by blast
  have "fst (fst (Heartbleed None timeout (answering (flight rs))))"
    using Heartbleed_vulnerable [OF answering_clean, of None timeout "flight rs"] c assms
    by (simp add: leaks_def)
  moreover have "snd (fst (Heartbleed ctx t w)) = None" if "fst (fst (Heartbleed ctx t w))" for ctx t w
    using that
    by (auto simp: Heartbleed_def with_conn_def plain_def heartbleed_body_def
        split: prod.splits sum.splits option.splits)
  ultimately show ?thesis by (metis prod.collapse)
qed

theorem Heartbleed_misreads_handshake_witness:
  "fst (Heartbleed None second
     (answering (flight [(0x0302, replicate 4091 0 @ [0x18, 3, 2, 0x40, 0])]))) = (True, None)"
proof (rule Heartbleed_misreads_handshake)
  show "drop 4096 (flight [(0x0302, replicate 4091 0 @ [0x18, 3, 2, 0x40, 0])]) =
      [0x18, 3, 2, 0x40, 0] @ []"
    by (simp add: hs_record_def)
qed (simp_all add: get16_def)

theorem Heartbleed_iff_witness:
  "\<not> (\<exists>err. fst (Heartbleed None second (answering (replicate 4096 0 @ [0x15, 3, 2, 0, 2, 2, 40]))) =
          (True, err))"
proof -
  obtain c where "heartbeat_reply None second (answering (replicate 4096 0 @ [0x15, 3, 2, 0, 2, 2, 40])) = Some c"
    and "stream c = [0x15, 3, 2, 0, 2, 2, 40]"
    using heartbeat_reply_answering [of second "replicate 4096 0 @ [0x15, 3, 2, 0, 2, 2, 40]"] by auto
  then show ?thesis
    using Heartbleed_iff [OF answering_clean] by (auto simp: leaks_def)
qed

end
