(* ===== verification/Stable.thy ===== *)
theory Stable
  imports Probing
begin

text \<open>
  Repeating an exchange until its outcome can be trusted: \<open>stableSignature\<close> (robot.go) and
  \<open>stableCBCReaction\<close> (cbc_oracle.go) are the same loop over an exchange that yields a reaction, fails
  (\<open>Some None\<close>, Go's \<open>ok = false\<close>) or panics (\<open>None\<close>). What the loop needs of the comparison is the
  contract \<open>same_reaction\<close>.
\<close>

section \<open>The loop\<close>

type_synonym 'a exchange = "world \<Rightarrow> 'a option option \<times> world"

text \<open>The rounds after the first one.\<close>

fun stable_rest :: "('a \<Rightarrow> 'a \<Rightarrow> bool) \<Rightarrow> 'a exchange \<Rightarrow> 'a \<Rightarrow> nat \<Rightarrow> 'a exchange" where
  "stable_rest equal exch first 0 w = (Some (Some first), w)"
| "stable_rest equal exch first (Suc n) w =
     (case exch w of
        (None, w1) \<Rightarrow> (None, w1)
      | (Some None, w1) \<Rightarrow> (Some None, w1)
      | (Some (Some sig), w1) \<Rightarrow>
          if \<not> equal sig first then (Some None, w1) else stable_rest equal exch first n w1)"

text \<open>\<open>zero\<close> is the zero value that no repetition at all would return.\<close>

fun stable :: "('a \<Rightarrow> 'a \<Rightarrow> bool) \<Rightarrow> 'a exchange \<Rightarrow> 'a \<Rightarrow> nat \<Rightarrow> 'a exchange" where
  "stable equal exch zero 0 w = (Some (Some zero), w)"
| "stable equal exch zero (Suc n) w =
     (case exch w of
        (None, w1) \<Rightarrow> (None, w1)
      | (Some None, w1) \<Rightarrow> (Some None, w1)
      | (Some (Some sig), w1) \<Rightarrow> stable_rest equal exch sig n w1)"

section \<open>The evidence behind an answer\<close>

text \<open>A run of exchanges, all of which yield a reaction.\<close>

inductive observes :: "'a exchange list \<Rightarrow> world \<Rightarrow> 'a list \<Rightarrow> world \<Rightarrow> bool" where
  none: "observes [] w [] w"
| one: "exch w = (Some (Some r), w1) \<Longrightarrow> observes es w1 rs w' \<Longrightarrow> observes (exch # es) w (r # rs) w'"

inductive_simps observes_Nil [simp]: "observes [] w rs w'"
inductive_simps observes_Cons: "observes (e # es) w rs w'"

lemma observes_append:
  "observes (es @ fs) w rs w' \<longleftrightarrow> (\<exists>rs1 rs2 w1. rs = rs1 @ rs2 \<and> observes es w rs1 w1 \<and> observes fs w1 rs2 w')"
proof (induction es arbitrary: w rs)
  case Nil
  then show ?case by auto
next
  case (Cons e es)
  show ?case
  proof
    assume "observes ((e # es) @ fs) w rs w'"
    then obtain r rs0 w0 where r: "e w = (Some (Some r), w0)" "rs = r # rs0" "observes (es @ fs) w0 rs0 w'"
      by (auto simp: observes_Cons)
    with Cons.IH obtain rs1 rs2 w1 where "rs0 = rs1 @ rs2" "observes es w0 rs1 w1" "observes fs w1 rs2 w'"
      by blast
    with r show "\<exists>rs1 rs2 w1. rs = rs1 @ rs2 \<and> observes (e # es) w rs1 w1 \<and> observes fs w1 rs2 w'"
      by (intro exI [of _ "r # rs1"] exI [of _ rs2] exI [of _ w1]) (auto simp: observes_Cons)
  next
    assume "\<exists>rs1 rs2 w1. rs = rs1 @ rs2 \<and> observes (e # es) w rs1 w1 \<and> observes fs w1 rs2 w'"
    then show "observes ((e # es) @ fs) w rs w'"
      using Cons.IH by (fastforce simp: observes_Cons)
  qed
qed

text \<open>The comparison of reactions is an equivalence.\<close>

locale same_reaction =
  fixes equal :: "'a \<Rightarrow> 'a \<Rightarrow> bool"
  assumes refl: "equal r r"
    and sym: "equal r s \<Longrightarrow> equal s r"
    and trans: "equal r s \<Longrightarrow> equal s t \<Longrightarrow> equal r t"
begin

text \<open>All repetitions gave the same reaction, up to the comparison.\<close>

definition agree :: "'a \<Rightarrow> 'a list \<Rightarrow> bool" where
  "agree r rs \<longleftrightarrow> list_all (\<lambda>s. equal s r) rs"

lemma stable_rest_iff:
  "stable_rest equal exch first n w = (Some (Some r), w') \<longleftrightarrow>
     r = first \<and> (\<exists>rs. observes (replicate n exch) w rs w' \<and> agree first rs)"
proof (induction n arbitrary: w)
  case 0
  then show ?case by (auto simp: agree_def)
next
  case (Suc n)
  show ?case
    by (auto simp: Suc.IH observes_Cons agree_def split: prod.splits option.splits if_splits)
qed

lemma stable_iff:
  "stable equal exch zero (Suc n) w = (Some (Some r), w') \<longleftrightarrow>
     (\<exists>rs. observes (replicate (Suc n) exch) w (r # rs) w' \<and> agree r rs)"
  by (auto simp: stable_rest_iff observes_Cons split: prod.splits option.splits)

text \<open>Two reactions of a stable outcome are the same.\<close>

lemma agree_pair: "agree r rs \<Longrightarrow> s \<in> set rs \<Longrightarrow> t \<in> set rs \<Longrightarrow> equal s t"
  using trans [of s r t] sym [of t r] by (simp add: agree_def list_all_iff)

end

section \<open>Resources\<close>

lemma stable_rest_seq:
  "stable_rest equal exch first (Suc n) =
     seq exch (\<lambda>r. case r of None \<Rightarrow> Pair None | Some None \<Rightarrow> Pair (Some None)
       | Some (Some sig) \<Rightarrow> if \<not> equal sig first then Pair (Some None) else stable_rest equal exch first n)"
  by (auto simp: fun_eq_iff seq_def split: prod.splits option.splits)

lemma stable_seq:
  "stable equal exch zero (Suc n) =
     seq exch (\<lambda>r. case r of None \<Rightarrow> Pair None | Some None \<Rightarrow> Pair (Some None)
       | Some (Some sig) \<Rightarrow> stable_rest equal exch sig n)"
  by (auto simp: fun_eq_iff seq_def split: prod.splits option.splits)

lemma stable_none:
  "stable_rest equal exch first 0 = Pair (Some (Some first))" "stable equal exch zero 0 = Pair (Some (Some zero))"
  by (simp_all add: fun_eq_iff)

lemma stable_rest_net_op:
  assumes e: "net_op exch b n" and "0 \<le> n"
  shows "net_op (stable_rest equal exch first m) b (int m * n)"
proof (induction m)
  case 0
  have "stable_rest equal exch first 0 = Pair (Some (Some first))" by (simp add: fun_eq_iff)
  then show ?case using net_op_pure by simp
next
  case (Suc m)
  have p: "net_op (Pair x) b (int m * n)" for x :: "'a option option"
    by (rule net_op_mono [OF net_op_pure]) (simp_all add: \<open>0 \<le> n\<close>)
  have "net_op (stable_rest equal exch first (Suc m)) b (n + int m * n)"
    unfolding stable_rest_seq using e p Suc.IH by (auto intro!: net_op_seq split: option.splits)
  moreover have "n + int m * n = int (Suc m) * n" by (simp add: algebra_simps)
  ultimately show ?case by (simp only:)
qed

lemma stable_net_op:
  assumes e: "net_op exch b n" and "0 \<le> n"
  shows "net_op (stable equal exch zero (Suc m)) b (int (Suc m) * n)"
proof -
  have p: "net_op (Pair x) b (int m * n)" for x :: "'a option option"
    by (rule net_op_mono [OF net_op_pure]) (simp_all add: \<open>0 \<le> n\<close>)
  have "net_op (stable equal exch zero (Suc m)) b (n + int m * n)"
    unfolding stable_seq using e p stable_rest_net_op [OF assms] by (auto intro!: net_op_seq split: option.splits)
  moreover have "n + int m * n = int (Suc m) * n" by (simp add: algebra_simps)
  ultimately show ?thesis by (simp only:)
qed

lemma stable_stops:
  assumes e: "stops exch D"
  shows "stops (stable equal exch zero n) D"
proof -
  have rest: "stops (stable_rest equal exch first m) D" for first m
  proof (induction m)
    case 0
    then show ?case by (simp only: stable_none stops_pure)
  next
    case (Suc m)
    then show ?case
      unfolding stable_rest_seq by (intro stops_seq [OF e]) (auto simp: stops_pure split: option.splits)
  qed
  show ?thesis
  proof (cases n)
    case 0
    then show ?thesis by (simp only: stable_none stops_pure)
  next
    case (Suc m)
    then show ?thesis
      by (simp only: stable_seq, intro stops_seq [OF e]) (auto simp: stops_pure rest split: option.splits)
  qed
qed

end
