(* ===== verification/Robot.thy ===== *)
theory Robot
  imports Pkcs1 Stable Handshake Legacy
begin

text \<open>
  The ROBOT probe (internal/handshake/robot.go): reading the server's flight and its RSA key, one
  crafted exchange, the classification of the reaction, and the decision. \<open>x509\<close> stands for
  \<open>x509.ParseCertificate\<close> followed by the assertion that the public key is an RSA key: \<open>None\<close> for an
  error or another key. An outer \<open>None\<close> in a result is a run-time panic.
\<close>

section \<open>Signatures\<close>

record robotSignature =
  rs_kind :: string
  rs_level :: byte
  rs_desc :: byte

definition sig_of :: "string \<Rightarrow> robotSignature" where
  "sig_of kind = \<lparr>rs_kind = kind, rs_level = 0, rs_desc = 0\<rparr>"

definition sig_equal :: "robotSignature \<Rightarrow> robotSignature \<Rightarrow> bool" where
  "sig_equal s o' =
     (if rs_kind s \<noteq> rs_kind o' then False
      else if rs_kind s = ''alert'' then rs_level s = rs_level o' \<and> rs_desc s = rs_desc o'
      else True)"

interpretation robot_sig: same_reaction sig_equal
  by unfold_locales (auto simp: sig_equal_def split: if_splits)

definition classifyTransportError :: "net_err \<Rightarrow> robotSignature" where
  "classifyTransportError err =
     (if ne_timeout err then sig_of ''timeout''
      else let msg = ne_msg err
           in if containsSubstr msg ''reset'' then sig_of ''reset''
              else if containsSubstr msg ''EOF'' \<or> containsSubstr msg ''closed'' \<or>
                      containsSubstr msg ''broken pipe'' then sig_of ''closed''
              else sig_of ''error'')"

definition readRobotResponse :: "conn \<Rightarrow> robotSignature \<times> conn" where
  "readRobotResponse c =
     (case readRecordHeader c of
        (Inl err, c1) \<Rightarrow> (classifyTransportError err, c1)
      | (Inr (contentType, ver, recLen), c1) \<Rightarrow>
          if contentType = recordAlert
          then let sig = sig_of ''alert''
               in if recLen \<ge> 2
                  then case readFull 2 c1 of
                         (Inl e, c2) \<Rightarrow> (sig, c2)
                       | (Inr alert, c2) \<Rightarrow> (sig\<lparr>rs_level := alert ! 0, rs_desc := alert ! 1\<rparr>, c2)
                  else (sig, c1)
          else if contentType = recordHandshake \<or> contentType = recordChangeCipherSpec
          then (sig_of ''handshake'', c1)
          else (sig_of ''handshake'', c1))"

lemma readRobotResponse_frame:
  "readRobotResponse c = (r, c') \<Longrightarrow> keeps c c' \<and> (in_time lim c \<longrightarrow> in_time lim c')"
  by (auto simp: readRobotResponse_def Let_def split: prod.splits sum.splits if_splits
      intro: readFull_keeps readRecordHeader_keeps keeps_trans
      dest: readFull_in_time [of _ _ _ _ lim] readRecordHeader_in_time [of _ _ _ lim])

section \<open>The leaf certificate's RSA key\<close>

definition parseLeafRSAKey :: "(bytes \<Rightarrow> rsa_key option) \<Rightarrow> bytes \<Rightarrow> rsa_key option option" where
  "parseLeafRSAKey x509 msg =
     (if length msg < 4 + 3 + 3 then Some None
      else do {
        certsLen \<leftarrow> idx24 msg 4;
        if 7 + certsLen > length msg then Some None
        else if 7 + 3 > length msg then Some None
        else do {
          certLen \<leftarrow> idx24 msg 7;
          if certLen \<le> 0 \<or> 10 + certLen > length msg then Some None
          else do {
            der \<leftarrow> slice msg 10 (10 + certLen);
            Some (x509 der) }}})"

lemma parseLeafRSAKey_total: "parseLeafRSAKey x509 msg \<noteq> None"
  by (auto simp: parseLeafRSAKey_def idx24_Some slice_Some)

text \<open>A Certificate message and the key that is read from it: that of the first certificate.\<close>

definition cert_body :: "bytes list \<Rightarrow> bytes" where
  "cert_body ders =
     (let entries = concat (map (\<lambda>d. put24 (length d) @ d) ders)
      in put24 (length entries) @ entries)"

lemma parseLeafRSAKey_cert:
  assumes "length (cert_body (der # ders)) < 16777216" and "der \<noteq> []"
  shows "parseLeafRSAKey x509 (wrapHandshake handshakeCertificate (cert_body (der # ders))) =
    Some (x509 der)"
proof -
  define tail where "tail = concat (map (\<lambda>d. put24 (length d) @ d) ders)"
  define L where "L = 3 + length der + length tail"
  have L: "L < 16777216" using assms(1) by (simp add: L_def cert_body_def tail_def)
  define h where "h = [handshakeCertificate] @ put24 (3 + L)"
  define msg where "msg = wrapHandshake handshakeCertificate (cert_body (der # ders))"
  have msg: "msg = h @ put24 L @ put24 (length der) @ der @ tail"
    by (simp add: msg_def wrapHandshake_def cert_body_def tail_def h_def L_def add.assoc)
  have lh: "length h = 4" by (simp add: h_def)
  have "idx24 msg 4 = Some L" using idx24_at [of h L "put24 (length der) @ der @ tail"] L
    by (simp add: msg lh)
  moreover have "idx24 msg 7 = Some (length der)"
    using idx24_at [of "h @ put24 L" "length der" "der @ tail"] L by (simp add: msg lh L_def)
  moreover have "slice msg 10 (10 + length der) = Some der"
    by (simp add: slice_def msg lh put24_def h_def)
  moreover have "length msg = 7 + L" by (simp add: msg lh L_def)
  ultimately have "parseLeafRSAKey x509 msg = Some (x509 der)"
    using assms(2) by (simp add: parseLeafRSAKey_def L_def)
  then show ?thesis by (simp only: msg_def)
qed

section \<open>The server's flight\<close>

text \<open>
  One pass over the complete messages of the buffer: either ServerHelloDone ends the function with
  its two results, or what is left of the buffer waits for the next record.
\<close>

datatype flight_pass = FlightDone bool "rsa_key option" | FlightMore bytes bool "rsa_key option"

function flight_messages ::
  "(bytes \<Rightarrow> rsa_key option) \<Rightarrow> bytes \<Rightarrow> bool \<Rightarrow> rsa_key option \<Rightarrow> flight_pass option" where
  "flight_messages x509 buf sawServerHello pub =
     (if complete_msg buf
      then let msg = take (msg_len buf) buf;
               rest = drop (msg_len buf) buf
           in if msg ! 0 = handshakeServerHello then flight_messages x509 rest True pub
              else if msg ! 0 = handshakeCertificate
              then case parseLeafRSAKey x509 msg of
                     None \<Rightarrow> None
                   | Some k \<Rightarrow>
                       flight_messages x509 rest sawServerHello (if k \<noteq> None then k else pub)
              else if msg ! 0 = handshakeServerHelloDone
              then Some (FlightDone (sawServerHello \<and> pub \<noteq> None) pub)
              else flight_messages x509 rest sawServerHello pub
      else Some (FlightMore buf sawServerHello pub))"
  by pat_completeness auto
termination
  by (relation "measure (\<lambda>(x, buf, s, p). length buf)")
     (auto simp: complete_msg_def msg_len_def)

declare flight_messages.simps [simp del]

text \<open>\<open>readServerHelloAndCert\<close> with the rounds left; \<open>done\<close> is false until the flight ends.\<close>

fun readServerHelloAndCert_loop ::
  "(bytes \<Rightarrow> rsa_key option) \<Rightarrow> nat \<Rightarrow> bytes \<Rightarrow> bool \<Rightarrow> rsa_key option \<Rightarrow> conn \<Rightarrow>
   (bool \<times> rsa_key option) option \<times> conn" where
  "readServerHelloAndCert_loop x509 0 buf saw pub c = (Some (False, pub), c)"
| "readServerHelloAndCert_loop x509 (Suc n) buf saw pub c =
     (case next_payload c of
        (ReadFailed e, c1) \<Rightarrow> (Some (False, pub), c1)
      | (OtherRecord, c1) \<Rightarrow> (Some (False, None), c1)
      | (Payload payload, c1) \<Rightarrow>
          (case flight_messages x509 (buf @ payload) saw pub of
             None \<Rightarrow> (None, c1)
           | Some (FlightDone d p) \<Rightarrow> (Some (d, p), c1)
           | Some (FlightMore buf' saw' pub') \<Rightarrow>
               if length buf' > 2 ^ 17 then (Some (False, None), c1)
               else readServerHelloAndCert_loop x509 n buf' saw' pub' c1))"

definition readServerHelloAndCert ::
  "(bytes \<Rightarrow> rsa_key option) \<Rightarrow> conn \<Rightarrow> (bool \<times> rsa_key option) option \<times> conn" where
  "readServerHelloAndCert x509 c = readServerHelloAndCert_loop x509 16 [] False None c"

lemma flight_messages_total: "flight_messages x509 buf saw pub \<noteq> None"
proof (induction x509 buf saw pub rule: flight_messages.induct)
  case (1 x509 buf saw pub)
  then show ?case
    using parseLeafRSAKey_total [of x509 "take (msg_len buf) buf"]
    by (subst flight_messages.simps) (auto simp: Let_def split: option.splits)
qed

lemma rsc_loop_frame:
  "readServerHelloAndCert_loop x509 n buf saw pub c = (r, c') \<Longrightarrow>
     r \<noteq> None \<and> keeps c c' \<and> (in_time lim c \<longrightarrow> in_time lim c')"
proof (induction n arbitrary: buf saw pub c)
  case 0
  then show ?case by auto
next
  case (Suc n)
  obtain f c1 where f: "next_payload c = (f, c1)" by (metis surj_pair)
  note fr = next_payload_frame [OF f, of lim]
  from Suc.prems f have "(r \<noteq> None \<and> c' = c1) \<or>
      (\<exists>buf' saw' pub'. readServerHelloAndCert_loop x509 n buf' saw' pub' c1 = (r, c'))"
  proof (cases f)
    case (Payload p)
    from flight_messages_total [of x509 "buf @ p" saw pub] obtain q where
      "flight_messages x509 (buf @ p) saw pub = Some q" by blast
    with Suc.prems f Payload show ?thesis by (cases q) (auto split: if_splits)
  qed auto
  with fr Suc.IH show ?case by (blast intro: keeps_trans)
qed

lemma readServerHelloAndCert_frame:
  "readServerHelloAndCert x509 c = (r, c') \<Longrightarrow>
     r \<noteq> None \<and> keeps c c' \<and> (in_time lim c \<longrightarrow> in_time lim c')"
  unfolding readServerHelloAndCert_def by (rule rsc_loop_frame)

subsection \<open>Reading a whole flight\<close>

text \<open>What the messages before ServerHelloDone leave behind: was there a ServerHello, and which key.\<close>

definition flight_step ::
  "(bytes \<Rightarrow> rsa_key option) \<Rightarrow> byte \<times> bytes \<Rightarrow> bool \<times> rsa_key option \<Rightarrow> bool \<times> rsa_key option" where
  "flight_step x509 m st =
     (if fst m = handshakeServerHello then (True, snd st)
      else if fst m = handshakeCertificate
      then (fst st, case the (parseLeafRSAKey x509 (wrapHandshake (fst m) (snd m))) of
                      None \<Rightarrow> snd st | Some k \<Rightarrow> Some k)
      else st)"

definition flight_state ::
  "(bytes \<Rightarrow> rsa_key option) \<Rightarrow> (byte \<times> bytes) list \<Rightarrow> bool \<times> rsa_key option \<Rightarrow> bool \<times> rsa_key option" where
  "flight_state x509 ms st = foldl (\<lambda>st m. flight_step x509 m st) st ms"

definition wf_msgs :: "(byte \<times> bytes) list \<Rightarrow> bool" where
  "wf_msgs ms \<longleftrightarrow>
     list_all (\<lambda>m. length (snd m) < 16777216 \<and> fst m \<noteq> handshakeServerHelloDone) ms"

lemma flight_messages_one:
  assumes "length body < 16777216"
  shows "flight_messages x509 (wrapHandshake t body @ sfx) saw pub =
    (if t = handshakeServerHelloDone then Some (FlightDone (saw \<and> pub \<noteq> None) pub)
     else flight_messages x509 sfx (fst (flight_step x509 (t, body) (saw, pub)))
            (snd (flight_step x509 (t, body) (saw, pub))))"
proof -
  have c: "complete_msg (wrapHandshake t body @ sfx)"
    and m: "msg_len (wrapHandshake t body @ sfx) = 4 + length body"
    using assms by (simp_all add: complete_msg_def msg_len_wrapHandshake)
  obtain k where k: "parseLeafRSAKey x509 (wrapHandshake t body) = Some k"
    using parseLeafRSAKey_total by blast
  show ?thesis
    using k by (subst flight_messages.simps) (auto simp: c m flight_step_def split: option.splits)
qed

lemma flight_messages_prefix:
  assumes "buf @ later = hs_bytes ms @ wrapHandshake handshakeServerHelloDone d @ sfx"
    and "wf_msgs ms" and "length d < 16777216"
  shows "(\<exists>st. st = flight_state x509 ms (saw, pub) \<and>
            flight_messages x509 buf saw pub = Some (FlightDone (fst st \<and> snd st \<noteq> None) (snd st))) \<or>
         (\<exists>ms1 ms2 buf' st. ms = ms1 @ ms2 \<and> st = flight_state x509 ms1 (saw, pub) \<and>
            flight_messages x509 buf saw pub = Some (FlightMore buf' (fst st) (snd st)) \<and>
            buf' @ later = hs_bytes ms2 @ wrapHandshake handshakeServerHelloDone d @ sfx \<and>
            \<not> complete_msg buf' \<and> length buf' \<le> length buf)"
  using assms
proof (induction ms arbitrary: buf saw pub)
  case Nil
  show ?case
  proof (cases "complete_msg buf")
    case True
    then have l4: "4 \<le> length buf" by (simp add: complete_msg_def)
    have "msg_len buf = 4 + length d"
      using Nil.prems l4 msg_len_prefix [of buf later] by (simp add: hs_bytes_def msg_len_wrapHandshake)
    with True have len: "4 + length d \<le> length buf" by (simp add: complete_msg_def)
    have buf: "buf = wrapHandshake handshakeServerHelloDone d @ drop (4 + length d) buf"
      using append_prefix [of buf later "wrapHandshake handshakeServerHelloDone d" sfx]
        Nil.prems(1) len by (simp add: hs_bytes_def)
    show ?thesis
      using flight_messages_one [OF Nil.prems(3), of x509 handshakeServerHelloDone "drop (4 + length d) buf" saw pub]
      by (subst buf) (simp add: flight_state_def)
  next
    case False
    then have "flight_messages x509 buf saw pub = Some (FlightMore buf saw pub)"
      by (subst flight_messages.simps) simp
    with Nil.prems False show ?thesis by (auto simp: flight_state_def)
  qed
next
  case (Cons m ms)
  obtain t body where m: "m = (t, body)" by (metis surj_pair)
  have wf: "length body < 16777216" "t \<noteq> handshakeServerHelloDone" "wf_msgs ms"
    using Cons.prems(2) m by (auto simp: wf_msgs_def)
  show ?case
  proof (cases "complete_msg buf")
    case True
    then have l4: "4 \<le> length buf" by (simp add: complete_msg_def)
    have "msg_len buf = 4 + length body"
      using Cons.prems(1) m wf(1) l4 msg_len_prefix [of buf later]
      by (simp add: hs_bytes_def msg_len_wrapHandshake)
    with True have len: "4 + length body \<le> length buf" by (simp add: complete_msg_def)
    define buf2 where "buf2 = drop (4 + length body) buf"
    have buf: "buf = wrapHandshake t body @ buf2"
      using append_prefix [of buf later "wrapHandshake t body"] Cons.prems(1) m len
      by (simp add: hs_bytes_def buf2_def)
    then have eq: "buf2 @ later = hs_bytes ms @ wrapHandshake handshakeServerHelloDone d @ sfx"
      using Cons.prems(1) m by (simp add: hs_bytes_def)
    define st where "st = flight_step x509 m (saw, pub)"
    have step: "flight_messages x509 buf saw pub = flight_messages x509 buf2 (fst st) (snd st)"
      using flight_messages_one [OF wf(1)] wf(2) by (simp add: buf m st_def)
    have state: "flight_state x509 (m # xs) (saw, pub) = flight_state x509 xs (fst st, snd st)" for xs
      by (simp add: flight_state_def st_def)
    have shorter: "length buf2 \<le> length buf" by (simp add: buf2_def)
    from Cons.IH [OF eq wf(3) Cons.prems(3), of "fst st" "snd st"] show ?thesis
    proof (elim disjE exE conjE)
      fix s assume "s = flight_state x509 ms (fst st, snd st)"
        and "flight_messages x509 buf2 (fst st) (snd st) = Some (FlightDone (fst s \<and> snd s \<noteq> None) (snd s))"
      then show ?thesis using step state [of ms] by simp
    next
      fix ms1 ms2 b s
      assume "ms = ms1 @ ms2" "s = flight_state x509 ms1 (fst st, snd st)"
        "flight_messages x509 buf2 (fst st) (snd st) = Some (FlightMore b (fst s) (snd s))"
        "b @ later = hs_bytes ms2 @ wrapHandshake handshakeServerHelloDone d @ sfx"
        "\<not> complete_msg b" "length b \<le> length buf2"
      then show ?thesis
        using step state [of ms1] shorter
        by (intro disjI2 exI [of _ "m # ms1"] exI [of _ ms2] exI [of _ b] exI [of _ s]) simp
    qed
  next
    case False
    then have "flight_messages x509 buf saw pub = Some (FlightMore buf saw pub)"
      by (subst flight_messages.simps) simp
    with Cons.prems False show ?thesis
      by (intro disjI2 exI [of _ "[]"] exI [of _ "m # ms"] exI [of _ buf] exI [of _ "(saw, pub)"])
         (simp add: flight_state_def)
  qed
qed

lemma flight_state_append:
  "flight_state x509 (ms1 @ ms2) st = flight_state x509 ms2 (flight_state x509 ms1 st)"
  by (simp add: flight_state_def)

lemma rsc_flight:
  assumes "clean c" and "stream c = flight rs @ rest" and "wf_flight rs" and "length rs \<le> n"
    and "buf @ payloads rs = hs_bytes ms @ wrapHandshake handshakeServerHelloDone d @ sfx"
    and "wf_msgs ms" and "length d < 16777216" and "length (buf @ payloads rs) \<le> 2 ^ 17"
    and "\<not> complete_msg buf"
  shows "\<exists>c' st. readServerHelloAndCert_loop x509 n buf saw pub c =
      (Some (fst st \<and> snd st \<noteq> None, snd st), c') \<and> st = flight_state x509 ms (saw, pub) \<and>
      c_sent c' = c_sent c \<and> clean c'"
  using assms
proof (induction rs arbitrary: n buf saw pub ms c)
  case Nil
  then have "buf = hs_bytes ms @ wrapHandshake handshakeServerHelloDone d @ sfx" by simp
  then have "complete_msg buf"
  proof (cases ms)
    case Nil
    then show ?thesis
      using \<open>buf = _\<close> Nil.prems(7) by (simp add: hs_bytes_def complete_msg_def msg_len_wrapHandshake)
  next
    case (Cons m ms')
    then show ?thesis
      using \<open>buf = _\<close> \<open>wf_msgs ms\<close>
      by (cases m) (simp add: hs_bytes_def complete_msg_def msg_len_wrapHandshake wf_msgs_def)
  qed
  with Nil.prems(9) show ?case by simp
next
  case (Cons r rs)
  then obtain n' where n: "n = Suc n'" by (cases n) auto
  from Cons.prems next_payload_record [of c r "flight rs @ rest"] obtain c2 where
    p: "next_payload c = (Payload (snd r), c2)" and c2: "stream c2 = flight rs @ rest" "clean c2"
    by auto
  have sent: "c_sent c2 = c_sent c" using next_payload_frame [OF p] by simp
  have eq: "(buf @ snd r) @ payloads rs = hs_bytes ms @ wrapHandshake handshakeServerHelloDone d @ sfx"
    using Cons.prems(5) by simp
  from flight_messages_prefix [OF eq Cons.prems(6,7), of x509 saw pub] show ?case
  proof (elim disjE exE conjE)
    fix st assume "st = flight_state x509 ms (saw, pub)"
      and "flight_messages x509 (buf @ snd r) saw pub = Some (FlightDone (fst st \<and> snd st \<noteq> None) (snd st))"
    then show ?case using n p sent c2 by (intro exI [of _ c2] exI [of _ st]) simp
  next
    fix ms1 ms2 buf' st
    assume ms: "ms = ms1 @ ms2" and st: "st = flight_state x509 ms1 (saw, pub)"
      and more: "flight_messages x509 (buf @ snd r) saw pub = Some (FlightMore buf' (fst st) (snd st))"
      and buf': "buf' @ payloads rs = hs_bytes ms2 @ wrapHandshake handshakeServerHelloDone d @ sfx"
      and nc: "\<not> complete_msg buf'" and len: "length buf' \<le> length (buf @ snd r)"
    have small: "length (buf' @ payloads rs) \<le> 2 ^ 17" using len Cons.prems(8) by simp
    have "\<exists>c' s. readServerHelloAndCert_loop x509 n' buf' (fst st) (snd st) c2 =
        (Some (fst s \<and> snd s \<noteq> None, snd s), c') \<and> s = flight_state x509 ms2 (fst st, snd st) \<and>
        c_sent c' = c_sent c2 \<and> clean c'"
      by (rule Cons.IH [OF c2(2,1) _ _ buf' _ Cons.prems(7) small nc])
         (use Cons.prems(3,4,6) n ms in \<open>auto simp: wf_msgs_def\<close>)
    with ms st more n p sent small show ?case by (auto simp: flight_state_append)
  qed
qed

section \<open>The crafted messages\<close>

definition robotClientKeyExchange :: "bytes \<Rightarrow> bytes" where
  "robotClientKeyExchange cipher =
     (let body = put16 (length cipher) @ cipher;
          hs = [handshakeClientKeyExchange] @ put24 (length body) @ body
      in wrapTLS12Record recordHandshake hs)"

definition robotChangeCipherSpec :: bytes where
  "robotChangeCipherSpec = wrapTLS12Record recordChangeCipherSpec [0x01]"

definition robotBogusFinished :: bytes where
  "robotBogusFinished = wrapTLS12Record recordHandshake (replicate 40 0x0c)"

definition newPMS :: "world \<Rightarrow> bytes \<times> world" where
  "newPMS w =
     (case rand_read 46 w of
        (None, w1) \<Rightarrow> ([0x03, 0x03] @ replicate 46 0, w1)
      | (Some r, w1) \<Rightarrow> ([0x03, 0x03] @ r, w1))"

text \<open>Writes in a row, up to the first error.\<close>

fun conn_writes :: "bytes list \<Rightarrow> conn \<Rightarrow> net_err option \<times> conn" where
  "conn_writes [] c = (None, c)"
| "conn_writes (bs # bss) c =
     (case conn_write bs c of
        (Some e, c1) \<Rightarrow> (Some e, c1)
      | (None, c1) \<Rightarrow> conn_writes bss c1)"

lemma conn_writes_frame:
  "conn_writes bss c = (e, c') \<Longrightarrow>
     keeps c c' \<and> (in_time lim c \<longrightarrow> in_time lim c') \<and> (clean_peer (c_peer c) \<longrightarrow> clean c \<longrightarrow> clean c')"
proof (induction bss arbitrary: c)
  case Nil
  then show ?case by simp
next
  case (Cons bs bss)
  obtain e1 c1 where w: "conn_write bs c = (e1, c1)" by (metis surj_pair)
  note f = conn_write_frame [OF w, of lim] and cl = conn_write_clean [OF _ _ w]
  show ?case
  proof (cases e1)
    case None
    with Cons.prems w have "conn_writes bss c1 = (e, c')" by simp
    from Cons.IH [OF this] f cl show ?thesis by (auto intro: keeps_trans simp: keeps_def)
  next
    case (Some e0)
    with Cons.prems w f cl show ?thesis by auto
  qed
qed

section \<open>One exchange\<close>

definition robotServerRSAKey_body ::
  "(bytes \<Rightarrow> rsa_key option) \<Rightarrow> string \<Rightarrow> conn \<Rightarrow> rsa_key option option \<times> conn" where
  "robotServerRSAKey_body x509 host c =
     (case conn_write (robotClientHello host) c of
        (Some e, c1) \<Rightarrow> (Some None, c1)
      | (None, c1) \<Rightarrow>
          (case readServerHelloAndCert x509 c1 of
             (None, c2) \<Rightarrow> (None, c2)
           | (Some (d, pub), c2) \<Rightarrow> (Some pub, c2)))"

definition robotServerRSAKey ::
  "(bytes \<Rightarrow> rsa_key option) \<Rightarrow> int option \<Rightarrow> string \<Rightarrow> int \<Rightarrow> rsa_key exchange" where
  "robotServerRSAKey x509 ctx host timeout =
     with_conn ctx timeout (\<lambda>_. Some None) (plain (robotServerRSAKey_body x509 host))"

definition robot_response_timeout :: "int \<Rightarrow> int" where
  "robot_response_timeout timeout =
     (if timeout > 1500 * millisecond then 1500 * millisecond else timeout)"

definition robotExchange_body ::
  "(bytes \<Rightarrow> rsa_key option) \<Rightarrow> string \<Rightarrow> rsa_key \<Rightarrow> robotVectorKind \<Rightarrow> int \<Rightarrow> conn \<Rightarrow> world \<Rightarrow>
   robotSignature option option \<times> conn \<times> world" where
  "robotExchange_body x509 host pub kind timeout c w =
     (case conn_write (robotClientHello host) c of
        (Some e, c1) \<Rightarrow> (Some None, c1, w)
      | (None, c1) \<Rightarrow>
          (case readServerHelloAndCert x509 c1 of
             (None, c2) \<Rightarrow> (None, c2, w)
           | (Some (d, pub2), c2) \<Rightarrow>
               if pub2 = None \<or> \<not> d then (Some None, c2, w)
               else case newPMS w of (pms, w1) \<Rightarrow>
                 (case buildPKCS1Vector kind (key_size pub) pms of
                    None \<Rightarrow> (None, c2, w1)
                  | Some block \<Rightarrow>
                      let cipher = rsaEncrypt pub block
                      in case conn_writes [robotClientKeyExchange cipher, robotChangeCipherSpec,
                                           robotBogusFinished] c2 of
                           (Some e, c3) \<Rightarrow> (Some None, c3, w1)
                         | (None, c3) \<Rightarrow>
                             (case readRobotResponse
                                     (set_read_deadline (robot_response_timeout timeout) c3) of
                                (sig, c4) \<Rightarrow> (Some (Some sig), c4, w1)))))"

definition robotExchange ::
  "(bytes \<Rightarrow> rsa_key option) \<Rightarrow> int option \<Rightarrow> string \<Rightarrow> rsa_key \<Rightarrow> robotVectorKind \<Rightarrow> int \<Rightarrow>
   robotSignature exchange" where
  "robotExchange x509 ctx host pub kind timeout =
     with_conn ctx timeout (\<lambda>_. Some None) (robotExchange_body x509 host pub kind timeout)"

definition stableSignature ::
  "(bytes \<Rightarrow> rsa_key option) \<Rightarrow> int option \<Rightarrow> string \<Rightarrow> rsa_key \<Rightarrow> robotVectorKind \<Rightarrow> nat \<Rightarrow> int \<Rightarrow>
   robotSignature exchange" where
  "stableSignature x509 ctx host pub kind reps timeout =
     stable sig_equal (robotExchange x509 ctx host pub kind timeout) (sig_of []) reps"

section \<open>The decision\<close>

text \<open>The loop over the malformed vectors, given the signature of the well-formed one.\<close>

fun robot_decide ::
  "(robotVectorKind \<Rightarrow> robotSignature exchange) \<Rightarrow> robotSignature \<Rightarrow> robotVectorKind list \<Rightarrow> world \<Rightarrow>
   bool option \<times> world" where
  "robot_decide sigs correct [] w = (Some True, w)"
| "robot_decide sigs correct (kind # kinds) w =
     (if kind = vecCorrect then robot_decide sigs correct kinds w
      else case sigs kind w of
             (None, w1) \<Rightarrow> (None, w1)
           | (Some None, w1) \<Rightarrow> (Some False, w1)
           | (Some (Some sig), w1) \<Rightarrow>
               if sig_equal sig correct then (Some False, w1)
               else robot_decide sigs correct kinds w1)"

definition probe_per :: "int \<Rightarrow> int" where
  "probe_per timeout = (let per = capTimeout timeout in if per > 3 * second then 3 * second else per)"

definition repetitions :: nat where "repetitions = 2"

definition ProbeROBOT ::
  "(bytes \<Rightarrow> rsa_key option) \<Rightarrow> int option \<Rightarrow> string \<Rightarrow> int \<Rightarrow> world \<Rightarrow> bool option \<times> world" where
  "ProbeROBOT x509 ctx host timeout w =
     (let per = probe_per timeout in
      case robotServerRSAKey x509 ctx host per w of
        (None, w1) \<Rightarrow> (None, w1)
      | (Some None, w1) \<Rightarrow> (Some False, w1)
      | (Some (Some pub), w1) \<Rightarrow>
          (case stableSignature x509 ctx host pub vecCorrect repetitions per w1 of
             (None, w2) \<Rightarrow> (None, w2)
           | (Some None, w2) \<Rightarrow> (Some False, w2)
           | (Some (Some correct), w2) \<Rightarrow>
               robot_decide (\<lambda>kind. stableSignature x509 ctx host pub kind repetitions per) correct
                 allRobotVectors w2))"

section \<open>Resources\<close>

lemma robotServerRSAKey_body_frame:
  assumes "robotServerRSAKey_body x509 host c = (r, c')"
  shows "keeps c c' \<and> (in_time lim c \<longrightarrow> in_time lim c')"
proof -
  obtain e c1 where w: "conn_write (robotClientHello host) c = (e, c1)" by (metis surj_pair)
  obtain x c2 where rd: "readServerHelloAndCert x509 c1 = (x, c2)" by (metis surj_pair)
  have "c' = c1 \<or> c' = c2"
    using assms w rd by (auto simp: robotServerRSAKey_body_def split: option.splits)
  then show ?thesis
    using conn_write_frame [OF w, of lim] readServerHelloAndCert_frame [OF rd, of lim]
    by (auto intro: keeps_trans)
qed

interpretation robot_key: conn_body "plain (robotServerRSAKey_body x509 host)" 0 for x509 host
  using robotServerRSAKey_body_frame by (intro plain_body) blast+

lemma newPMS_world: "newPMS w = (pms, w') \<Longrightarrow> w_open w' = w_open w \<and> w_now w' = w_now w"
  by (auto simp: newPMS_def rand_read_def split: prod.splits option.splits)

lemma robotExchange_body_frame:
  assumes "robotExchange_body x509 host pub kind timeout c w = (r, c', w')"
  shows "w_open w' = w_open w \<and> w_now w' = w_now w \<and> c_now c \<le> c_now c' \<and>
    (in_time lim c \<longrightarrow> c_now c' \<le> lim + max 0 (robot_response_timeout timeout))"
proof -
  let ?x = "max 0 (robot_response_timeout timeout)"
  obtain e c1 where w1: "conn_write (robotClientHello host) c = (e, c1)" by (metis surj_pair)
  obtain x c2 where rd: "readServerHelloAndCert x509 c1 = (x, c2)" by (metis surj_pair)
  obtain pms w1' where pm: "newPMS w = (pms, w1')" by (metis surj_pair)
  note f1 = conn_write_frame [OF w1, of lim] and f2 = readServerHelloAndCert_frame [OF rd, of lim]
  show ?thesis
  proof (cases "c' = c1 \<or> c' = c2")
    case True
    then show ?thesis
      using assms w1 rd pm f1 f2 newPMS_world [OF pm]
      by (auto simp: robotExchange_body_def Let_def keeps_def dest: in_time_now
          split: option.splits if_splits prod.splits)
  next
    case False
    with assms w1 rd pm obtain cipher e3 c3 where
      w3: "conn_writes [robotClientKeyExchange cipher, robotChangeCipherSpec, robotBogusFinished] c2 = (e3, c3)"
      and c': "c' = c3 \<or> (\<exists>s. readRobotResponse (set_read_deadline (robot_response_timeout timeout) c3) = (s, c'))"
      and ww: "w' = w1' \<or> w' = w"
      by (auto simp: robotExchange_body_def Let_def simp del: conn_writes.simps
          split: option.splits if_splits prod.splits)
    note f3 = conn_writes_frame [OF w3, of lim]
    have "c_now c3 \<le> c_now c' \<and> (in_time lim c3 \<longrightarrow> in_time (lim + ?x) c' \<or> c' = c3)"
      using c' readRobotResponse_frame [of "set_read_deadline (robot_response_timeout timeout) c3" _ c' "lim + ?x"]
        set_read_deadline_in_time [of lim c3 "robot_response_timeout timeout"]
      by (auto simp: keeps_def)
    then show ?thesis
      using f1 f2 f3 ww newPMS_world [OF pm] by (auto simp: keeps_def dest: in_time_now)
  qed
qed

interpretation robot_exchange: conn_body "robotExchange_body x509 host pub kind timeout"
    "max 0 (robot_response_timeout timeout)" for x509 host pub kind timeout
proof
  fix c w r c' w' lim
  assume b: "robotExchange_body x509 host pub kind timeout c w = (r, c', w')"
  from robotExchange_body_frame [OF b, of lim]
  show "w_open w' = w_open w \<and> w_now w' = w_now w"
    and "in_time lim c \<Longrightarrow> c_now c \<le> c_now c'"
    and "in_time lim c \<Longrightarrow> c_now c' \<le> lim + max 0 (robot_response_timeout timeout)" by auto
qed simp

lemma response_timeout_le: "max 0 (robot_response_timeout timeout) \<le> 1500 * millisecond"
  by (simp add: robot_response_timeout_def millisecond_def)

lemma robotExchange_net_op:
  assumes "timeout \<le> 3 * second"
  shows "net_op (robotExchange x509 ctx host pub kind timeout) (timeout \<noteq> 0) (7500 * millisecond)"
  unfolding robotExchange_def
  by (rule net_op_mono [OF robot_exchange.bracket.net_op_axioms])
     (use assms response_timeout_le [of timeout] in \<open>auto simp: second_def millisecond_def\<close>)

lemma robotServerRSAKey_net_op:
  assumes "timeout \<le> 3 * second"
  shows "net_op (robotServerRSAKey x509 ctx host timeout) (timeout \<noteq> 0) (6 * second)"
  unfolding robotServerRSAKey_def
  by (rule net_op_mono [OF robot_key.bracket.net_op_axioms]) (use assms in \<open>auto simp: second_def\<close>)

lemma stableSignature_net_op:
  assumes "timeout \<le> 3 * second"
  shows "net_op (stableSignature x509 ctx host pub kind repetitions timeout) (timeout \<noteq> 0) (15 * second)"
proof -
  have "net_op (stable sig_equal (robotExchange x509 ctx host pub kind timeout) (sig_of []) (Suc 1))
      (timeout \<noteq> 0) (int (Suc 1) * (7500 * millisecond))"
    by (rule stable_net_op [OF robotExchange_net_op [OF assms]]) (simp add: millisecond_def)
  then show ?thesis
    unfolding stableSignature_def repetitions_def
    by (simp add: second_def millisecond_def numeral_2_eq_2)
qed

lemma robot_decide_net_op:
  assumes "\<And>kind. net_op (sigs kind) b n" and "0 \<le> n"
  shows "net_op (robot_decide sigs correct kinds) b (int (length kinds) * n)"
proof (induction kinds)
  case Nil
  have "robot_decide sigs correct [] = Pair (Some True)" by (simp add: fun_eq_iff)
  then show ?case using net_op_pure by simp
next
  case (Cons kind kinds)
  have p: "net_op (Pair x) b (int (length kinds) * n)" for x :: "bool option"
    by (rule net_op_mono [OF net_op_pure]) (simp_all add: assms(2))
  show ?case
  proof (cases "kind = vecCorrect")
    case True
    then have "robot_decide sigs correct (kind # kinds) = robot_decide sigs correct kinds"
      by (simp add: fun_eq_iff)
    moreover have "int (length kinds) * n \<le> int (length (kind # kinds)) * n"
      using assms(2) by (simp add: algebra_simps)
    ultimately show ?thesis using net_op_mono [OF Cons.IH] by simp
  next
    case False
    then have "robot_decide sigs correct (kind # kinds) =
        seq (sigs kind) (\<lambda>r. case r of None \<Rightarrow> Pair None | Some None \<Rightarrow> Pair (Some False)
          | Some (Some sig) \<Rightarrow> if sig_equal sig correct then Pair (Some False)
              else robot_decide sigs correct kinds)"
      by (auto simp: fun_eq_iff seq_def split: prod.splits option.splits)
    then have "net_op (robot_decide sigs correct (kind # kinds)) b (n + int (length kinds) * n)"
      using assms(1) p Cons.IH by (auto intro!: net_op_seq split: option.splits)
    moreover have "n + int (length kinds) * n = int (length (kind # kinds)) * n"
      by (simp add: algebra_simps)
    ultimately show ?thesis by (simp only:)
  qed
qed

lemma probe_per_le: "probe_per timeout \<le> 3 * second"
  and probe_per_pos: "0 < timeout \<Longrightarrow> 0 < probe_per timeout"
  by (auto simp: probe_per_def Let_def capTimeout_def second_def)

lemma ProbeROBOT_seq:
  "ProbeROBOT x509 ctx host timeout =
     seq (robotServerRSAKey x509 ctx host (probe_per timeout)) (\<lambda>k. case k of
         None \<Rightarrow> Pair None | Some None \<Rightarrow> Pair (Some False)
       | Some (Some pub) \<Rightarrow>
           seq (stableSignature x509 ctx host pub vecCorrect repetitions (probe_per timeout)) (\<lambda>r. case r of
               None \<Rightarrow> Pair None | Some None \<Rightarrow> Pair (Some False)
             | Some (Some correct) \<Rightarrow>
                 robot_decide (\<lambda>kind. stableSignature x509 ctx host pub kind repetitions (probe_per timeout)) correct
                   allRobotVectors))"
  by (auto simp: fun_eq_iff ProbeROBOT_def seq_def Let_def split: prod.splits option.splits)

lemma ProbeROBOT_net_op: "net_op (ProbeROBOT x509 ctx host timeout) (0 < timeout) (96 * second)"
proof -
  let ?per = "probe_per timeout"
  let ?sig = "\<lambda>pub kind. stableSignature x509 ctx host pub kind repetitions ?per"
  have pos: "0 < timeout \<Longrightarrow> ?per \<noteq> 0" using probe_per_pos [of timeout] by simp
  have K: "net_op (robotServerRSAKey x509 ctx host ?per) (?per \<noteq> 0) (6 * second)"
    by (rule robotServerRSAKey_net_op [OF probe_per_le])
  have S: "net_op (?sig pub kind) (?per \<noteq> 0) (15 * second)" for pub kind
    by (rule stableSignature_net_op [OF probe_per_le])
  have D: "net_op (robot_decide (?sig pub) correct allRobotVectors) (?per \<noteq> 0) (75 * second)" for pub correct
    using robot_decide_net_op [of "?sig pub" "?per \<noteq> 0" "15 * second" correct allRobotVectors] S
    by (simp add: allRobotVectors_def second_def)
  have p: "net_op (Pair x) b m" if "0 \<le> m" for x :: "bool option" and b m
    by (rule net_op_mono [OF net_op_pure]) (simp_all add: that)
  have nn: "0 \<le> 75 * second" "0 \<le> 90 * second" by (simp_all add: second_def)
  have I: "net_op (seq (?sig pub vecCorrect) (\<lambda>r. case r of None \<Rightarrow> Pair None
            | Some None \<Rightarrow> Pair (Some False)
            | Some (Some correct) \<Rightarrow> robot_decide (?sig pub) correct allRobotVectors))
      (?per \<noteq> 0) (15 * second + 75 * second)" for pub
    by (rule net_op_seq [OF S]) (auto intro!: D p [OF nn(1)] split: option.splits)
  have s90: "15 * second + 75 * second = 90 * second" by simp
  have "net_op (ProbeROBOT x509 ctx host timeout) (?per \<noteq> 0) (6 * second + 90 * second)"
    unfolding ProbeROBOT_seq
    by (rule net_op_seq [OF K]) (auto intro!: I [unfolded s90] p [OF nn(2)] split: option.splits)
  then show ?thesis using pos by (auto intro: net_op_mono simp: second_def)
qed

lemma robot_decide_stops:
  assumes "\<And>kind. stops (sigs kind) D"
  shows "stops (robot_decide sigs correct kinds) D"
proof (induction kinds)
  case Nil
  have "robot_decide sigs correct [] = Pair (Some True)" by (simp add: fun_eq_iff)
  then show ?case by (simp add: stops_pure)
next
  case (Cons kind kinds)
  have "robot_decide sigs correct (kind # kinds) = (if kind = vecCorrect then robot_decide sigs correct kinds
      else seq (sigs kind) (\<lambda>r. case r of None \<Rightarrow> Pair None | Some None \<Rightarrow> Pair (Some False)
          | Some (Some sig) \<Rightarrow> if sig_equal sig correct then Pair (Some False)
              else robot_decide sigs correct kinds))"
    by (auto simp: fun_eq_iff seq_def split: prod.splits option.splits)
  moreover have "stops (seq (sigs kind) (\<lambda>r. case r of None \<Rightarrow> Pair None | Some None \<Rightarrow> Pair (Some False)
          | Some (Some sig) \<Rightarrow> if sig_equal sig correct then Pair (Some False)
              else robot_decide sigs correct kinds)) D"
    by (intro stops_seq assms) (auto simp: stops_pure Cons split: option.splits)
  ultimately show ?case using Cons by simp
qed

lemma ProbeROBOT_stops: "stops (ProbeROBOT x509 (Some d) host timeout) (d + 4500 * millisecond)"
proof -
  let ?per = "probe_per timeout"
  have le: "max 0 ?per \<le> 3 * second" using probe_per_le [of timeout] by (simp add: second_def)
  have K: "stops (robotServerRSAKey x509 (Some d) host ?per) (d + 4500 * millisecond)"
    unfolding robotServerRSAKey_def
    by (rule stops_mono [OF robot_key.bracket_stops]) (use le in \<open>simp add: second_def millisecond_def\<close>)
  have X: "stops (robotExchange x509 (Some d) host pub kind ?per) (d + 4500 * millisecond)" for pub kind
    unfolding robotExchange_def
    by (rule stops_mono [OF robot_exchange.bracket_stops])
       (use le response_timeout_le [of ?per] in \<open>simp add: second_def millisecond_def\<close>)
  have S: "stops (stableSignature x509 (Some d) host pub kind n ?per) (d + 4500 * millisecond)" for pub kind n
    unfolding stableSignature_def by (rule stable_stops [OF X])
  show ?thesis
    unfolding ProbeROBOT_seq
    by (intro stops_seq K) (auto simp: stops_pure intro!: stops_seq S robot_decide_stops split: option.splits)
qed

section \<open>What a positive answer means\<close>

text \<open>Both repetitions of every vector, in order.\<close>

definition twice :: "('k \<Rightarrow> 'a exchange) \<Rightarrow> 'k list \<Rightarrow> 'a exchange list" where
  "twice exch kinds = concat (map (\<lambda>k. [exch k, exch k]) kinds)"

definition pair_list :: "('a \<times> 'a) list \<Rightarrow> 'a list" where
  "pair_list ps = concat (map (\<lambda>p. [fst p, snd p]) ps)"

lemma twice_simps [simp]: "twice exch [] = []" "twice exch (k # ks) = exch k # exch k # twice exch ks"
  and pair_list_simps [simp]: "pair_list [] = []" "pair_list (p # ps) = fst p # snd p # pair_list ps"
  by (simp_all add: twice_def pair_list_def)

lemma stable_twice:
  "stable sig_equal exch zero 2 w = (Some (Some r), w') \<longleftrightarrow>
     (\<exists>r' w1. exch w = (Some (Some r), w1) \<and> exch w1 = (Some (Some r'), w') \<and> sig_equal r' r)"
  using robot_sig.stable_iff [of exch zero 1 w r w']
  by (auto simp: observes_Cons robot_sig.agree_def numeral_2_eq_2)

lemma robot_decide_iff:
  assumes "vecCorrect \<notin> set kinds"
  shows "robot_decide (\<lambda>k. stable sig_equal (exch k) zero 2) correct kinds w = (Some True, w') \<longleftrightarrow>
    (\<exists>ps. length ps = length kinds \<and> observes (twice exch kinds) w (pair_list ps) w' \<and>
       list_all (\<lambda>p. sig_equal (snd p) (fst p) \<and> \<not> sig_equal (fst p) correct) ps)"
  using assms
proof (induction kinds arbitrary: w)
  case Nil
  then show ?case by auto
next
  case (Cons k ks)
  let ?st = "\<lambda>k. stable sig_equal (exch k) zero 2"
  have "robot_decide ?st correct (k # ks) w = (Some True, w') \<longleftrightarrow>
      (\<exists>r w2. ?st k w = (Some (Some r), w2) \<and> \<not> sig_equal r correct \<and>
         robot_decide ?st correct ks w2 = (Some True, w'))"
    using Cons.prems by (auto split: prod.splits option.splits)
  also have "\<dots> \<longleftrightarrow> (\<exists>r r' w1 w2. exch k w = (Some (Some r), w1) \<and> exch k w1 = (Some (Some r'), w2) \<and>
      sig_equal r' r \<and> \<not> sig_equal r correct \<and> robot_decide ?st correct ks w2 = (Some True, w'))"
    by (auto simp: stable_twice simp del: stable.simps)
  also have "\<dots> \<longleftrightarrow> (\<exists>ps. length ps = length (k # ks) \<and>
      observes (twice exch (k # ks)) w (pair_list ps) w' \<and>
      list_all (\<lambda>p. sig_equal (snd p) (fst p) \<and> \<not> sig_equal (fst p) correct) ps)"
    using Cons by (fastforce simp: observes_Cons length_Suc_conv)
  finally show ?case .
qed

text \<open>
  C8. The decision rule of ROBOT, exactly. The probe answers true if and only if a key was found and
  ten exchanges on fresh connections, two for each of the five vectors, all gave a reaction, the two
  of each vector the same one, and none of the malformed vectors that of the well-formed one. One
  failed, differing or matching reaction is enough for false.
\<close>

theorem ProbeROBOT_evidence:
  "ProbeROBOT x509 ctx host timeout w = (Some True, w') \<longleftrightarrow>
    (\<exists>pub w1 p ps.
       robotServerRSAKey x509 ctx host (probe_per timeout) w = (Some (Some pub), w1) \<and>
       length ps = 4 \<and>
       observes (twice (\<lambda>kind. robotExchange x509 ctx host pub kind (probe_per timeout)) allRobotVectors)
         w1 (pair_list (p # ps)) w' \<and>
       sig_equal (snd p) (fst p) \<and>
       list_all (\<lambda>q. sig_equal (snd q) (fst q) \<and> \<not> sig_equal (fst q) (fst p)) ps)"
proof -
  let ?per = "probe_per timeout"
  let ?ex = "\<lambda>pub kind. robotExchange x509 ctx host pub kind ?per"
  define bad where "bad = [vecWrongFirstBytes, vecNo0x00, vec0x00InPadding, vec0x00AtWrongPMSPos]"
  have all: "allRobotVectors = vecCorrect # bad" by (simp add: allRobotVectors_def bad_def)
  have bad: "vecCorrect \<notin> set bad" "length bad = 4" by (simp_all add: bad_def)
  have skip: "robot_decide sigs correct allRobotVectors = robot_decide sigs correct bad" for sigs correct
    by (simp add: all fun_eq_iff)
  have "ProbeROBOT x509 ctx host timeout w = (Some True, w') \<longleftrightarrow>
      (\<exists>pub w1 r w2. robotServerRSAKey x509 ctx host ?per w = (Some (Some pub), w1) \<and>
         stable sig_equal (?ex pub vecCorrect) (sig_of []) 2 w1 = (Some (Some r), w2) \<and>
         robot_decide (\<lambda>k. stable sig_equal (?ex pub k) (sig_of []) 2) r bad w2 = (Some True, w'))"
    by (auto simp: ProbeROBOT_def stableSignature_def repetitions_def Let_def skip
        simp del: stable.simps split: prod.splits option.splits)
  also have "\<dots> \<longleftrightarrow> (\<exists>pub w1 r r' w2 w3. robotServerRSAKey x509 ctx host ?per w = (Some (Some pub), w1) \<and>
      ?ex pub vecCorrect w1 = (Some (Some r), w2) \<and> ?ex pub vecCorrect w2 = (Some (Some r'), w3) \<and>
      sig_equal r' r \<and>
      (\<exists>ps. length ps = 4 \<and> observes (twice (?ex pub) bad) w3 (pair_list ps) w' \<and>
        list_all (\<lambda>q. sig_equal (snd q) (fst q) \<and> \<not> sig_equal (fst q) r) ps))"
    unfolding robot_decide_iff [OF bad(1)] bad(2) stable_twice by blast
  also have "\<dots> \<longleftrightarrow> (\<exists>pub w1 p ps.
       robotServerRSAKey x509 ctx host ?per w = (Some (Some pub), w1) \<and> length ps = 4 \<and>
       observes (twice (?ex pub) allRobotVectors) w1 (pair_list (p # ps)) w' \<and>
       sig_equal (snd p) (fst p) \<and>
       list_all (\<lambda>q. sig_equal (snd q) (fst q) \<and> \<not> sig_equal (fst q) (fst p)) ps)"
    unfolding all by (fastforce simp: observes_Cons)
  finally show ?thesis .
qed

lemma flight_read:
  assumes "clean c" and "stream c = flight rs @ rest" and "wf_flight rs" and "length rs \<le> 16"
    and "payloads rs = hs_bytes ms @ wrapHandshake handshakeServerHelloDone d @ sfx"
    and "wf_msgs ms" and "length d < 16777216" and "length (payloads rs) \<le> 2 ^ 17"
  shows "\<exists>c'. readServerHelloAndCert x509 c =
      (Some (fst (flight_state x509 ms (False, None)) \<and> snd (flight_state x509 ms (False, None)) \<noteq> None,
             snd (flight_state x509 ms (False, None))), c') \<and> c_sent c' = c_sent c \<and> clean c'"
proof -
  have "\<exists>c' st. readServerHelloAndCert_loop x509 16 [] False None c =
      (Some (fst st \<and> snd st \<noteq> None, snd st), c') \<and> st = flight_state x509 ms (False, None) \<and>
      c_sent c' = c_sent c \<and> clean c'"
    by (rule rsc_flight [OF assms(1-4) _ assms(6,7)]) (use assms in \<open>simp_all add: complete_msg_def\<close>)
  then obtain c' st where "readServerHelloAndCert_loop x509 16 [] False None c =
      (Some (fst st \<and> snd st \<noteq> None, snd st), c')" "st = flight_state x509 ms (False, None)"
      "c_sent c' = c_sent c" "clean c'" by (elim exE conjE) (rule that)
  then show ?thesis by (simp only: readServerHelloAndCert_def) blast
qed

text \<open>
  C19. Reading the server's flight: when it is a sequence of handshake messages that ends with
  ServerHelloDone, cut in any way into at most 16 records (the bound of the code's loop) with at most
  128 KiB of payload (the bound the code puts on its buffer), the function reports success exactly if
  there was a ServerHello and a usable certificate, and returns the RSA key of the last one. The
  body of the ServerHello, and so the cipher suite the server selected, plays no role.
\<close>

theorem readServerHelloAndCert_flight:
  assumes "clean c" and "stream c = flight rs @ rest" and "wf_flight rs" and "length rs \<le> 16"
    and "payloads rs = hs_bytes ms @ wrapHandshake handshakeServerHelloDone d @ sfx"
    and "wf_msgs ms" and "length d < 16777216" and "length (payloads rs) \<le> 2 ^ 17"
  shows "fst (readServerHelloAndCert x509 c) =
    Some (fst (flight_state x509 ms (False, None)) \<and> snd (flight_state x509 ms (False, None)) \<noteq> None,
          snd (flight_state x509 ms (False, None)))"
  using flight_read [OF assms, of x509] by (elim exE conjE) simp

text \<open>A flight in one record: ServerHello with any body, one certificate, ServerHelloDone.\<close>

definition rsa_flight :: "bytes \<Rightarrow> bytes \<Rightarrow> (nat \<times> bytes) list" where
  "rsa_flight hello der =
     [(0x0303, hs_bytes [(handshakeServerHello, hello), (handshakeCertificate, cert_body [der])] @
               wrapHandshake handshakeServerHelloDone [])]"

lemma rsa_flight_state:
  assumes "der \<noteq> []" and "length der < 60000" and "x509 der = Some pub"
  shows "flight_state x509 [(handshakeServerHello, hello), (handshakeCertificate, cert_body [der])]
    (False, None) = (True, Some pub)"
  using parseLeafRSAKey_cert [of der "[]" x509] assms
  by (simp add: flight_state_def flight_step_def cert_body_def)

lemma rsa_flight_wf:
  assumes "length hello < 1000" and "length der < 60000"
  shows "wf_flight (rsa_flight hello der)"
    and "wf_msgs [(handshakeServerHello, hello), (handshakeCertificate, cert_body [der])]"
    and "length (payloads (rsa_flight hello der)) \<le> 2 ^ 17"
  using assms by (simp_all add: rsa_flight_def wf_msgs_def hs_bytes_def cert_body_def)

lemma rsa_flight_read:
  assumes "clean c" and "stream c = flight (rsa_flight hello der)"
    and "length hello < 1000" and "der \<noteq> []" and "length der < 60000" and "x509 der = Some pub"
  shows "\<exists>c'. readServerHelloAndCert x509 c = (Some (True, Some pub), c')"
proof -
  let ?ms = "[(handshakeServerHello, hello), (handshakeCertificate, cert_body [der])]"
  have p: "payloads (rsa_flight hello der) = hs_bytes ?ms @ wrapHandshake handshakeServerHelloDone [] @ []"
    by (simp add: rsa_flight_def)
  have n: "length (rsa_flight hello der) \<le> 16" by (simp add: rsa_flight_def)
  have st: "flight_state x509 ?ms (False, None) = (True, Some pub)"
    by (rule rsa_flight_state) (use assms in simp_all)
  from flight_read [OF assms(1) _ rsa_flight_wf(1) n p rsa_flight_wf(2) _ rsa_flight_wf(3), of "[]" x509]
    assms(2,3,5) show ?thesis
    unfolding st by auto
qed

theorem readServerHelloAndCert_flight_witness:
  "\<exists>c. stream c = flight (rsa_flight [] [1, 2, 3]) \<and>
     fst (readServerHelloAndCert (\<lambda>der. Some \<lparr>pk_n = 3233, pk_e = 17\<rparr>) c) =
       Some (True, Some \<lparr>pk_n = 3233, pk_e = 17\<rparr>)"
proof -
  obtain c where c: "stream c = flight (rsa_flight [] [1, 2, 3])" "clean c"
    using answering_reply [of second "[]" "flight (rsa_flight [] [1, 2, 3])"] by auto
  have "fst (readServerHelloAndCert (\<lambda>der. Some \<lparr>pk_n = 3233, pk_e = 17\<rparr>) c) =
      Some (True, Some \<lparr>pk_n = 3233, pk_e = 17\<rparr>)"
    using readServerHelloAndCert_flight [of c "rsa_flight [] [1, 2, 3]" "[]"
        "[(handshakeServerHello, []), (handshakeCertificate, cert_body [[1, 2, 3]])]" "[]" "[]"
        "\<lambda>der. Some \<lparr>pk_n = 3233, pk_e = 17\<rparr>"]
      rsa_flight_wf [of "[]" "[1, 2, 3]"]
      rsa_flight_state [of "[1, 2, 3]" "\<lambda>der. Some \<lparr>pk_n = 3233, pk_e = 17\<rparr>" _ "[]"] c
    by (simp add: rsa_flight_def)
  with c show ?thesis by blast
qed

text \<open>
  A host can crash the scanner. If it presents a certificate whose RSA modulus has fewer than 11
  bytes, \<open>ProbeROBOT\<close> ends in a run-time panic: the block for the well-formed vector is written out of
  bounds.
\<close>

theorem ProbeROBOT_small_key_panics:
  assumes "0 < timeout" and "length hello < 1000" and "der \<noteq> []" and "length der < 60000"
    and "x509 der = Some pub" and "key_size pub < 11"
  shows "fst (ProbeROBOT x509 None host timeout (answering (flight (rsa_flight hello der)))) = None"
proof -
  let ?w = "answering (flight (rsa_flight hello der))" and ?per = "probe_per timeout"
  have per: "0 < ?per" by (rule probe_per_pos [OF assms(1)])
  have key: "\<exists>c'. readServerHelloAndCert x509 c = (Some (True, Some pub), c')"
    if "stream c = flight (rsa_flight hello der)" "clean c" for c
    by (rule rsa_flight_read) (use that assms in simp_all)
  obtain r w1 where k: "robotServerRSAKey x509 None host ?per ?w = (r, w1)" by (metis surj_pair)
  obtain c c' where "reply None ?per (robotClientHello host) ?w = Some c"
    and "readServerHelloAndCert x509 c = (Some (True, Some pub), c')"
    using answers_reply [OF refl per, where bs = "flight (rsa_flight hello der)" and hello = "robotClientHello host"]
      key by blast
  then have r: "r = Some (Some pub)"
    using k
    by (auto simp: robotServerRSAKey_def with_conn_def plain_def robotServerRSAKey_body_def reply_def
        split: prod.splits sum.splits option.splits)
  have net: "w_net w1 = w_net ?w"
    using k unfolding robotServerRSAKey_def by (rule with_conn_plain_net)
  have none: "buildPKCS1Vector vecCorrect (key_size pub) pms = None" for pms
    using buildPKCS1Vector_small assms(6) by simp
  obtain d d' where "reply None ?per (robotClientHello host) w1 = Some d"
    and "readServerHelloAndCert x509 d = (Some (True, Some pub), d')"
    using answers_reply [OF net per, where hello = "robotClientHello host"] key by blast
  then have "fst (robotExchange x509 None host pub vecCorrect ?per w1) = None"
    using none
    by (auto simp: robotExchange_def with_conn_def robotExchange_body_def reply_def
        split: prod.splits sum.splits option.splits)
  then show ?thesis
    using k r
    by (auto simp: ProbeROBOT_def stableSignature_def repetitions_def numeral_2_eq_2 Let_def
        split: prod.splits option.splits)
qed

theorem ProbeROBOT_small_key_panics_witness:
  "fst (ProbeROBOT (\<lambda>der. Some \<lparr>pk_n = 3233, pk_e = 17\<rparr>) None ''host'' second
          (answering (flight (rsa_flight [] [1, 2, 3])))) = None"
proof (rule ProbeROBOT_small_key_panics)
  have "bit_len 3233 = 12" by (simp add: bit_len.simps)
  then show "key_size \<lparr>pk_n = 3233, pk_e = 17\<rparr> < 11" by (simp add: key_size_def)
qed simp_all

end
