(* ===== verification/Aes.thy ===== *)
theory Aes
  imports Crypto
begin

text \<open>
  AES (FIPS 197) with keys of 16, 24 or 32 bytes, and the CBC mode over any block cipher: \<open>crypto/aes\<close>
  and \<open>crypto/cipher\<close> as internal/handshake/cbc.go uses them. Decryption, which the scanner never
  performs, is what the other side does with a record.
\<close>

section \<open>The interface and the CBC mode\<close>

locale block_cipher =
  fixes enc :: "bytes \<Rightarrow> bytes \<Rightarrow> bytes" and dec :: "bytes \<Rightarrow> bytes \<Rightarrow> bytes"
    and good_key :: "bytes \<Rightarrow> bool" and bs :: nat
  assumes bs_pos: "0 < bs"
    and length_enc: "good_key key \<Longrightarrow> length b = bs \<Longrightarrow> length (enc key b) = bs"
    and dec_enc: "good_key key \<Longrightarrow> length b = bs \<Longrightarrow> dec key (enc key b) = b"

fun cbc_enc :: "(bytes \<Rightarrow> bytes) \<Rightarrow> bytes \<Rightarrow> bytes list \<Rightarrow> bytes" where
  "cbc_enc enc prev [] = []"
| "cbc_enc enc prev (b # bs) = (let c = enc (xor_bytes prev b) in c @ cbc_enc enc c bs)"

fun cbc_dec :: "(bytes \<Rightarrow> bytes) \<Rightarrow> bytes \<Rightarrow> bytes list \<Rightarrow> bytes" where
  "cbc_dec dec prev [] = []"
| "cbc_dec dec prev (c # cs) = xor_bytes prev (dec c) @ cbc_dec dec c cs"

lemma length_xor_bytes [simp]: "length (xor_bytes xs ys) = min (length xs) (length ys)"
  by (simp add: xor_bytes_def)

lemma xor_bytes_twice: "length xs = length ys \<Longrightarrow> xor_bytes xs (xor_bytes xs ys) = ys"
  by (induction xs ys rule: list_induct2) (simp_all add: xor_bytes_def xor.assoc [symmetric])

lemma chunks_Nil [simp]: "chunks n [] = []"
  by (simp add: chunks.simps)

lemma chunks_append: "length b = n \<Longrightarrow> 0 < n \<Longrightarrow> chunks n (b @ xs) = b # chunks n xs"
  by (subst chunks.simps) auto

lemma chunks_blocks:
  "n dvd length xs \<Longrightarrow> 0 < n \<Longrightarrow> list_all (\<lambda>b. length b = n) (chunks n xs) \<and> concat (chunks n xs) = xs"
proof (induction n xs rule: chunks.induct)
  case (1 n xs)
  show ?case
  proof (cases "xs = []")
    case False
    then have "n \<le> length xs" using "1.prems" by (simp add: dvd_imp_le)
    with False "1.prems" "1.IH" show ?thesis by (subst (1 2) chunks.simps) simp
  qed simp
qed

lemma length_blocks: "list_all (\<lambda>b. length b = n) blocks \<Longrightarrow> length (concat blocks) = n * length blocks"
  by (induction blocks) simp_all

context block_cipher begin

lemma length_cbc_enc:
  "good_key key \<Longrightarrow> length iv = bs \<Longrightarrow> list_all (\<lambda>b. length b = bs) blocks \<Longrightarrow>
     length (cbc_enc (enc key) iv blocks) = bs * length blocks"
  by (induction blocks arbitrary: iv) (simp_all add: Let_def length_enc)

lemma cbc_round_trip:
  "good_key key \<Longrightarrow> length iv = bs \<Longrightarrow> list_all (\<lambda>b. length b = bs) blocks \<Longrightarrow>
     cbc_dec (dec key) iv (chunks bs (cbc_enc (enc key) iv blocks)) = concat blocks"
proof (induction blocks arbitrary: iv)
  case Nil
  then show ?case by simp
next
  case (Cons b blocks)
  then show ?case
    by (simp add: Let_def chunks_append length_enc bs_pos dec_enc xor_bytes_twice)
qed

lemma cbc_inverse:
  assumes "good_key key" and "length iv = bs" and "bs dvd length plain"
  shows "cbc_dec (dec key) iv (chunks bs (cbc_enc (enc key) iv (chunks bs plain))) = plain"
    and "length (cbc_enc (enc key) iv (chunks bs plain)) = length plain"
proof -
  note blocks = chunks_blocks [OF assms(3) bs_pos]
  then show "cbc_dec (dec key) iv (chunks bs (cbc_enc (enc key) iv (chunks bs plain))) = plain"
    using cbc_round_trip [OF assms(1,2)] by simp
  have "length (concat (chunks bs plain)) = bs * length (chunks bs plain)"
    using blocks by (blast intro: length_blocks)
  with blocks show "length (cbc_enc (enc key) iv (chunks bs plain)) = length plain"
    using length_cbc_enc [OF assms(1,2)] by simp
qed

end

section \<open>AES\<close>

definition sbox :: "byte list" where
  "sbox =
    [0x63, 0x7c, 0x77, 0x7b, 0xf2, 0x6b, 0x6f, 0xc5, 0x30, 0x01, 0x67, 0x2b, 0xfe, 0xd7, 0xab, 0x76,
     0xca, 0x82, 0xc9, 0x7d, 0xfa, 0x59, 0x47, 0xf0, 0xad, 0xd4, 0xa2, 0xaf, 0x9c, 0xa4, 0x72, 0xc0,
     0xb7, 0xfd, 0x93, 0x26, 0x36, 0x3f, 0xf7, 0xcc, 0x34, 0xa5, 0xe5, 0xf1, 0x71, 0xd8, 0x31, 0x15,
     0x04, 0xc7, 0x23, 0xc3, 0x18, 0x96, 0x05, 0x9a, 0x07, 0x12, 0x80, 0xe2, 0xeb, 0x27, 0xb2, 0x75,
     0x09, 0x83, 0x2c, 0x1a, 0x1b, 0x6e, 0x5a, 0xa0, 0x52, 0x3b, 0xd6, 0xb3, 0x29, 0xe3, 0x2f, 0x84,
     0x53, 0xd1, 0x00, 0xed, 0x20, 0xfc, 0xb1, 0x5b, 0x6a, 0xcb, 0xbe, 0x39, 0x4a, 0x4c, 0x58, 0xcf,
     0xd0, 0xef, 0xaa, 0xfb, 0x43, 0x4d, 0x33, 0x85, 0x45, 0xf9, 0x02, 0x7f, 0x50, 0x3c, 0x9f, 0xa8,
     0x51, 0xa3, 0x40, 0x8f, 0x92, 0x9d, 0x38, 0xf5, 0xbc, 0xb6, 0xda, 0x21, 0x10, 0xff, 0xf3, 0xd2,
     0xcd, 0x0c, 0x13, 0xec, 0x5f, 0x97, 0x44, 0x17, 0xc4, 0xa7, 0x7e, 0x3d, 0x64, 0x5d, 0x19, 0x73,
     0x60, 0x81, 0x4f, 0xdc, 0x22, 0x2a, 0x90, 0x88, 0x46, 0xee, 0xb8, 0x14, 0xde, 0x5e, 0x0b, 0xdb,
     0xe0, 0x32, 0x3a, 0x0a, 0x49, 0x06, 0x24, 0x5c, 0xc2, 0xd3, 0xac, 0x62, 0x91, 0x95, 0xe4, 0x79,
     0xe7, 0xc8, 0x37, 0x6d, 0x8d, 0xd5, 0x4e, 0xa9, 0x6c, 0x56, 0xf4, 0xea, 0x65, 0x7a, 0xae, 0x08,
     0xba, 0x78, 0x25, 0x2e, 0x1c, 0xa6, 0xb4, 0xc6, 0xe8, 0xdd, 0x74, 0x1f, 0x4b, 0xbd, 0x8b, 0x8a,
     0x70, 0x3e, 0xb5, 0x66, 0x48, 0x03, 0xf6, 0x0e, 0x61, 0x35, 0x57, 0xb9, 0x86, 0xc1, 0x1d, 0x9e,
     0xe1, 0xf8, 0x98, 0x11, 0x69, 0xd9, 0x8e, 0x94, 0x9b, 0x1e, 0x87, 0xe9, 0xce, 0x55, 0x28, 0xdf,
     0x8c, 0xa1, 0x89, 0x0d, 0xbf, 0xe6, 0x42, 0x68, 0x41, 0x99, 0x2d, 0x0f, 0xb0, 0x54, 0xbb, 0x16]"

definition inv_sbox :: "byte list" where
  "inv_sbox =
    [0x52, 0x09, 0x6a, 0xd5, 0x30, 0x36, 0xa5, 0x38, 0xbf, 0x40, 0xa3, 0x9e, 0x81, 0xf3, 0xd7, 0xfb,
     0x7c, 0xe3, 0x39, 0x82, 0x9b, 0x2f, 0xff, 0x87, 0x34, 0x8e, 0x43, 0x44, 0xc4, 0xde, 0xe9, 0xcb,
     0x54, 0x7b, 0x94, 0x32, 0xa6, 0xc2, 0x23, 0x3d, 0xee, 0x4c, 0x95, 0x0b, 0x42, 0xfa, 0xc3, 0x4e,
     0x08, 0x2e, 0xa1, 0x66, 0x28, 0xd9, 0x24, 0xb2, 0x76, 0x5b, 0xa2, 0x49, 0x6d, 0x8b, 0xd1, 0x25,
     0x72, 0xf8, 0xf6, 0x64, 0x86, 0x68, 0x98, 0x16, 0xd4, 0xa4, 0x5c, 0xcc, 0x5d, 0x65, 0xb6, 0x92,
     0x6c, 0x70, 0x48, 0x50, 0xfd, 0xed, 0xb9, 0xda, 0x5e, 0x15, 0x46, 0x57, 0xa7, 0x8d, 0x9d, 0x84,
     0x90, 0xd8, 0xab, 0x00, 0x8c, 0xbc, 0xd3, 0x0a, 0xf7, 0xe4, 0x58, 0x05, 0xb8, 0xb3, 0x45, 0x06,
     0xd0, 0x2c, 0x1e, 0x8f, 0xca, 0x3f, 0x0f, 0x02, 0xc1, 0xaf, 0xbd, 0x03, 0x01, 0x13, 0x8a, 0x6b,
     0x3a, 0x91, 0x11, 0x41, 0x4f, 0x67, 0xdc, 0xea, 0x97, 0xf2, 0xcf, 0xce, 0xf0, 0xb4, 0xe6, 0x73,
     0x96, 0xac, 0x74, 0x22, 0xe7, 0xad, 0x35, 0x85, 0xe2, 0xf9, 0x37, 0xe8, 0x1c, 0x75, 0xdf, 0x6e,
     0x47, 0xf1, 0x1a, 0x71, 0x1d, 0x29, 0xc5, 0x89, 0x6f, 0xb7, 0x62, 0x0e, 0xaa, 0x18, 0xbe, 0x1b,
     0xfc, 0x56, 0x3e, 0x4b, 0xc6, 0xd2, 0x79, 0x20, 0x9a, 0xdb, 0xc0, 0xfe, 0x78, 0xcd, 0x5a, 0xf4,
     0x1f, 0xdd, 0xa8, 0x33, 0x88, 0x07, 0xc7, 0x31, 0xb1, 0x12, 0x10, 0x59, 0x27, 0x80, 0xec, 0x5f,
     0x60, 0x51, 0x7f, 0xa9, 0x19, 0xb5, 0x4a, 0x0d, 0x2d, 0xe5, 0x7a, 0x9f, 0x93, 0xc9, 0x9c, 0xef,
     0xa0, 0xe0, 0x3b, 0x4d, 0xae, 0x2a, 0xf5, 0xb0, 0xc8, 0xeb, 0xbb, 0x3c, 0x83, 0x53, 0x99, 0x61,
     0x17, 0x2b, 0x04, 0x7e, 0xba, 0x77, 0xd6, 0x26, 0xe1, 0x69, 0x14, 0x63, 0x55, 0x21, 0x0c, 0x7d]"

definition sub_byte :: "byte \<Rightarrow> byte" where "sub_byte b = sbox ! unat b"
definition inv_sub_byte :: "byte \<Rightarrow> byte" where "inv_sub_byte b = inv_sbox ! unat b"

definition permute :: "nat list \<Rightarrow> bytes \<Rightarrow> bytes" where
  "permute is s = map (nth s) is"

definition shift_rows :: "bytes \<Rightarrow> bytes" where
  "shift_rows = permute [0, 5, 10, 15, 4, 9, 14, 3, 8, 13, 2, 7, 12, 1, 6, 11]"

definition inv_shift_rows :: "bytes \<Rightarrow> bytes" where
  "inv_shift_rows = permute [0, 13, 10, 7, 4, 1, 14, 11, 8, 5, 2, 15, 12, 9, 6, 3]"

text \<open>Multiplication by \<open>x\<close> in GF(2^8), and by the constants of the two column mixings.\<close>

definition xt :: "byte \<Rightarrow> byte" where
  "xt b = xor (push_bit 1 b) (if bit b 7 then 0x1b else 0)"

definition x2 :: "byte \<Rightarrow> byte" where "x2 b = xt b"
definition x3 :: "byte \<Rightarrow> byte" where "x3 b = xor (xt b) b"
definition x9 :: "byte \<Rightarrow> byte" where "x9 b = xor (xt (xt (xt b))) b"
definition x11 :: "byte \<Rightarrow> byte" where "x11 b = xor (xt (xt (xt b))) (xor (xt b) b)"
definition x13 :: "byte \<Rightarrow> byte" where "x13 b = xor (xt (xt (xt b))) (xor (xt (xt b)) b)"
definition x14 :: "byte \<Rightarrow> byte" where "x14 b = xor (xt (xt (xt b))) (xor (xt (xt b)) (xt b))"

definition xor4 :: "byte \<Rightarrow> byte \<Rightarrow> byte \<Rightarrow> byte \<Rightarrow> byte" where
  "xor4 a b c d = xor a (xor b (xor c d))"

fun mix_columns :: "bytes \<Rightarrow> bytes" where
  "mix_columns (a # b # c # d # s) =
     [xor4 (x2 a) (x3 b) c d, xor4 a (x2 b) (x3 c) d, xor4 a b (x2 c) (x3 d), xor4 (x3 a) b c (x2 d)] @
     mix_columns s"
| "mix_columns _ = []"

fun inv_mix_columns :: "bytes \<Rightarrow> bytes" where
  "inv_mix_columns (a # b # c # d # s) =
     [xor4 (x14 a) (x11 b) (x13 c) (x9 d), xor4 (x9 a) (x14 b) (x11 c) (x13 d),
      xor4 (x13 a) (x9 b) (x14 c) (x11 d), xor4 (x11 a) (x13 b) (x9 c) (x14 d)] @
     inv_mix_columns s"
| "inv_mix_columns _ = []"

subsection \<open>The key schedule\<close>

text \<open>Words are lists of four bytes; \<open>nk\<close> is the length of the key in words, \<open>i\<close> the next index.\<close>

definition key_core :: "nat \<Rightarrow> nat \<Rightarrow> bytes \<Rightarrow> bytes" where
  "key_core nk i t =
     (if i mod nk = 0 then xor_bytes (map sub_byte (rotate1 t)) [(xt ^^ (i div nk - 1)) 1, 0, 0, 0]
      else if nk > 6 \<and> i mod nk = 4 then map sub_byte t
      else t)"

fun expand_key :: "nat \<Rightarrow> nat \<Rightarrow> nat \<Rightarrow> bytes list \<Rightarrow> bytes list" where
  "expand_key nk 0 i ws = ws"
| "expand_key nk (Suc n) i ws =
     expand_key nk n (Suc i) (ws @ [xor_bytes (ws ! (i - nk)) (key_core nk i (ws ! (i - 1)))])"

definition rounds :: "bytes \<Rightarrow> nat" where
  "rounds key = length key div 4 + 6"

definition round_keys :: "bytes \<Rightarrow> bytes list" where
  "round_keys key =
     (let nk = length key div 4
      in chunks 16 (concat (expand_key nk (4 * (rounds key + 1) - nk) nk (chunks 4 key))))"

subsection \<open>The cipher\<close>

definition aes_round :: "bytes \<Rightarrow> bytes \<Rightarrow> bytes" where
  "aes_round s rk = xor_bytes rk (mix_columns (shift_rows (map sub_byte s)))"

definition aes_last :: "bytes \<Rightarrow> bytes \<Rightarrow> bytes" where
  "aes_last s rk = xor_bytes rk (shift_rows (map sub_byte s))"

definition aes_encrypt_with :: "bytes list \<Rightarrow> bytes \<Rightarrow> bytes" where
  "aes_encrypt_with rks b =
     aes_last (foldl aes_round (xor_bytes (hd rks) b) (butlast (tl rks))) (last rks)"

definition aes_encrypt :: "bytes \<Rightarrow> bytes \<Rightarrow> bytes" where
  "aes_encrypt key = aes_encrypt_with (round_keys key)"

definition inv_round :: "bytes \<Rightarrow> bytes \<Rightarrow> bytes" where
  "inv_round rk s = map inv_sub_byte (inv_shift_rows (inv_mix_columns (xor_bytes rk s)))"

definition inv_last :: "bytes \<Rightarrow> bytes \<Rightarrow> bytes" where
  "inv_last rk s = map inv_sub_byte (inv_shift_rows (xor_bytes rk s))"

definition aes_decrypt_with :: "bytes list \<Rightarrow> bytes \<Rightarrow> bytes" where
  "aes_decrypt_with rks c =
     xor_bytes (hd rks) (foldr inv_round (butlast (tl rks)) (inv_last (last rks) c))"

definition aes_decrypt :: "bytes \<Rightarrow> bytes \<Rightarrow> bytes" where
  "aes_decrypt key = aes_decrypt_with (round_keys key)"

text \<open>\<open>aes.NewCipher\<close> accepts these key sizes.\<close>

definition aes_key :: "bytes \<Rightarrow> bool" where
  "aes_key key \<longleftrightarrow> length key \<in> {16, 24, 32}"

section \<open>Decryption inverts encryption\<close>

lemma xt_xor: "xt (xor a b) = xor (xt a) (xt b)"
  by (auto simp: xt_def push_bit_xor bit_xor_iff ac_simps)

lemma xor_left: "xor a (xor a b) = (b :: byte)"
  by (simp add: xor.assoc [symmetric])

lemma mixing:
  "xor4 (x14 (xor4 (x2 a) (x3 b) c d)) (x11 (xor4 a (x2 b) (x3 c) d)) (x13 (xor4 a b (x2 c) (x3 d)))
     (x9 (xor4 (x3 a) b c (x2 d))) = a"
  "xor4 (x9 (xor4 (x2 a) (x3 b) c d)) (x14 (xor4 a (x2 b) (x3 c) d)) (x11 (xor4 a b (x2 c) (x3 d)))
     (x13 (xor4 (x3 a) b c (x2 d))) = b"
  "xor4 (x13 (xor4 (x2 a) (x3 b) c d)) (x9 (xor4 a (x2 b) (x3 c) d)) (x14 (xor4 a b (x2 c) (x3 d)))
     (x11 (xor4 (x3 a) b c (x2 d))) = c"
  "xor4 (x11 (xor4 (x2 a) (x3 b) c d)) (x13 (xor4 a (x2 b) (x3 c) d)) (x9 (xor4 a b (x2 c) (x3 d)))
     (x14 (xor4 (x3 a) b c (x2 d))) = d"
  by (simp_all add: xor4_def x2_def x3_def x9_def x11_def x13_def x14_def xt_xor ac_simps xor_left)

lemma columns_inverse:
  "4 dvd length s \<Longrightarrow> inv_mix_columns (mix_columns s) = s \<and> length (mix_columns s) = length s"
proof (induction s rule: mix_columns.induct)
  case (1 a b c d s)
  have "4 dvd length s" using "1.prems" by simp presburger
  with "1.IH" show ?case by (simp add: mixing)
qed (auto dest: dvd_imp_le)

lemma sub_inverse: "inv_sub_byte (sub_byte b) = b"
proof -
  have "list_all (\<lambda>n. inv_sub_byte (sub_byte (of_nat n)) = of_nat n) [0..<256]"
    by code_simp
  then have "inv_sub_byte (sub_byte (of_nat (unat b))) = of_nat (unat b)"
    using unat_byte_less [of b] by (auto simp only: list_all_iff set_upt atLeastLessThan_iff)
  then show ?thesis by simp
qed

lemma upt_16: "[0..<16] = [0, 1, 2, 3, 4, 5, 6, 7, 8, 9, 10, 11, 12, 13, 14, 15]"
  by code_simp

lemma rows_inverse:
  assumes "length s = 16"
  shows "inv_shift_rows (shift_rows s) = s"
proof -
  have "inv_shift_rows (shift_rows s) = map (nth s) [0..<16]"
    by (simp add: inv_shift_rows_def shift_rows_def permute_def upt_16)
  with assms show ?thesis by (metis map_nth)
qed

lemma length_shift_rows [simp]: "length (shift_rows s) = 16"
  by (simp add: shift_rows_def permute_def)

lemma aes_round_inverse:
  assumes "length s = 16" and "length rk = 16"
  shows "inv_round rk (aes_round s rk) = s" and "length (aes_round s rk) = 16"
  using assms columns_inverse [of "shift_rows (map sub_byte s)"]
  by (simp_all add: inv_round_def aes_round_def xor_bytes_twice rows_inverse sub_inverse comp_def)

lemma aes_last_inverse:
  assumes "length s = 16" and "length rk = 16"
  shows "inv_last rk (aes_last s rk) = s" and "length (aes_last s rk) = 16"
  using assms
  by (simp_all add: inv_last_def aes_last_def xor_bytes_twice rows_inverse sub_inverse comp_def)

lemma aes_rounds_inverse:
  "length s = 16 \<Longrightarrow> list_all (\<lambda>rk. length rk = 16) rks \<Longrightarrow>
     foldr inv_round rks (foldl aes_round s rks) = s \<and> length (foldl aes_round s rks) = 16"
  by (induction rks arbitrary: s) (simp_all add: aes_round_inverse)

lemma aes_with_inverse:
  assumes "length b = 16" and "2 \<le> length rks" and "list_all (\<lambda>rk. length rk = 16) rks"
  shows "aes_decrypt_with rks (aes_encrypt_with rks b) = b \<and> length (aes_encrypt_with rks b) = 16"
proof -
  obtain k1 ks where rks: "rks = k1 # ks" "ks \<noteq> []" using assms(2) by (cases rks) (auto simp: Suc_le_eq)
  have k: "length k1 = 16" "length (last ks) = 16" "list_all (\<lambda>rk. length rk = 16) (butlast ks)"
    using assms(3) rks by (auto simp: list_all_iff dest: in_set_butlastD)
  define s where "s = foldl aes_round (xor_bytes k1 b) (butlast ks)"
  have s: "foldr inv_round (butlast ks) s = xor_bytes k1 b" "length s = 16"
    using aes_rounds_inverse [OF _ k(3), of "xor_bytes k1 b"] k(1) assms(1) by (simp_all add: s_def)
  then show ?thesis
    using rks k assms(1) aes_last_inverse [OF s(2) k(2)]
    by (simp add: aes_decrypt_with_def aes_encrypt_with_def s_def xor_bytes_twice)
qed

lemma expand_key_words:
  assumes "list_all (\<lambda>t. length t = 4) ws" and "length ws = i" and "0 < nk" and "nk \<le> i"
  shows "list_all (\<lambda>t. length t = 4) (expand_key nk n i ws) \<and> length (expand_key nk n i ws) = i + n"
  using assms
proof (induction n arbitrary: i ws)
  case 0
  then show ?case by simp
next
  case (Suc n)
  have "length (ws ! j) = 4" if "j < i" for j using Suc.prems(1,2) that by (simp add: list_all_length)
  then have "length (xor_bytes (ws ! (i - nk)) (key_core nk i (ws ! (i - 1)))) = 4"
    using Suc.prems(3,4) by (simp add: key_core_def)
  with Suc.IH [of "ws @ [xor_bytes (ws ! (i - nk)) (key_core nk i (ws ! (i - 1)))]" "Suc i"] Suc.prems
  show ?case by simp
qed

lemma round_keys_wf:
  assumes "aes_key key"
  shows "2 \<le> length (round_keys key) \<and> list_all (\<lambda>rk. length rk = 16) (round_keys key)"
proof -
  define nk where "nk = length key div 4"
  have len: "length key = 4 * nk" and nk: "4 \<le> nk" "nk \<le> 8"
    using assms by (auto simp: aes_key_def nk_def)
  have k: "list_all (\<lambda>t. length t = 4) (chunks 4 key)" "concat (chunks 4 key) = key"
    using chunks_blocks [of 4 key] len by simp_all
  then have n: "length (chunks 4 key) = nk" using length_blocks [OF k(1)] len by simp
  define ws where "ws = expand_key nk (4 * (rounds key + 1) - nk) nk (chunks 4 key)"
  have ws: "list_all (\<lambda>t. length t = 4) ws" "length ws = 4 * (rounds key + 1)"
    using expand_key_words [OF k(1) n, of nk "4 * (rounds key + 1) - nk"] nk len
    by (auto simp: ws_def rounds_def)
  have total: "length (concat ws) = 16 * (rounds key + 1)"
    using length_blocks [OF ws(1)] ws(2) by simp
  then have b: "list_all (\<lambda>b. length b = 16) (chunks 16 (concat ws))"
      "concat (chunks 16 (concat ws)) = concat ws"
    using chunks_blocks [of 16 "concat ws"] by simp_all
  have "16 * length (chunks 16 (concat ws)) = 16 * (rounds key + 1)"
    using length_blocks [OF b(1)] b(2) total by simp
  then have "2 \<le> length (chunks 16 (concat ws))" by (simp add: rounds_def)
  with b(1) show ?thesis by (simp add: round_keys_def Let_def ws_def nk_def)
qed

interpretation aes: block_cipher aes_encrypt aes_decrypt aes_key 16
  using aes_with_inverse round_keys_wf
  by unfold_locales (simp_all add: aes_encrypt_def aes_decrypt_def)

end
