(* ===== verification/Cbc.thy ===== *)
theory Cbc
  imports Aes Hello
begin

text \<open>
  The TLS 1.2 CBC record layer of internal/handshake/cbc.go: the PRF, the session keys,
  MAC-then-pad, encryption, and the crafted records of cbc_oracle.go. Records are judged by a
  reference receiver written from RFC 5246, section 6.2.3.2.
\<close>

section \<open>Suites and sessions\<close>

record cbcCipherParams =
  cp_keyLen :: nat
  cp_macLen :: nat
  cp_ivLen :: nat
  cp_ecdhe :: bool

definition cbc_params :: "nat \<Rightarrow> bool \<Rightarrow> cbcCipherParams" where
  "cbc_params keyLen ecdhe =
     \<lparr>cp_keyLen = keyLen, cp_macLen = 20, cp_ivLen = 16, cp_ecdhe = ecdhe\<rparr>"

definition paramsForSuite :: "nat \<Rightarrow> cbcCipherParams option" where
  "paramsForSuite suite =
     (if suite = suiteECDHE_RSA_AES128_CBC_SHA then Some (cbc_params 16 True)
      else if suite = suiteECDHE_RSA_AES256_CBC_SHA then Some (cbc_params 32 True)
      else if suite = suiteRSA_AES128_CBC_SHA then Some (cbc_params 16 False)
      else if suite = suiteRSA_AES256_CBC_SHA then Some (cbc_params 32 False)
      else None)"

record cbcSession =
  s_params :: cbcCipherParams
  clientWriteKey :: bytes
  serverWriteKey :: bytes
  clientWriteMAC :: bytes
  serverWriteMAC :: bytes
  clientSeq :: "64 word"
  serverSeq :: "64 word"

text \<open>What every session that is set up satisfies.\<close>

definition wf_params :: "cbcCipherParams \<Rightarrow> bool" where
  "wf_params p \<longleftrightarrow> cp_keyLen p \<in> {16, 32} \<and> cp_macLen p = 20 \<and> cp_ivLen p = 16"

definition wf_session :: "cbcSession \<Rightarrow> bool" where
  "wf_session s \<longleftrightarrow> wf_params (s_params s) \<and>
     length (clientWriteKey s) = cp_keyLen (s_params s) \<and>
     length (serverWriteKey s) = cp_keyLen (s_params s) \<and>
     length (clientWriteMAC s) = 20 \<and> length (serverWriteMAC s) = 20"

lemma paramsForSuite_wf: "paramsForSuite suite = Some p \<Longrightarrow> wf_params p"
  by (auto simp: paramsForSuite_def wf_params_def cbc_params_def split: if_splits)

lemma wf_session_aes: "wf_session s \<Longrightarrow> aes_key (clientWriteKey s)"
  by (auto simp: wf_session_def wf_params_def aes_key_def)

section \<open>The PRF\<close>

function pHash_loop :: "bytes \<Rightarrow> bytes \<Rightarrow> nat \<Rightarrow> bytes \<Rightarrow> bytes \<Rightarrow> bytes" where
  "pHash_loop secret seed outLen a out =
     (if length out < outLen
      then let a' = hmac sha256 secret a
           in pHash_loop secret seed outLen a' (out @ hmac sha256 secret (a' @ seed))
      else take outLen out)"
  by pat_completeness auto
termination
  by (relation "measure (\<lambda>(secret, seed, outLen, a, out). outLen - length out)")
     (auto simp: sha256.length_hmac)

declare pHash_loop.simps [simp del]

definition pHashSHA256 :: "bytes \<Rightarrow> bytes \<Rightarrow> nat \<Rightarrow> bytes" where
  "pHashSHA256 secret seed outLen = pHash_loop secret seed outLen seed []"

definition prf12 :: "bytes \<Rightarrow> string \<Rightarrow> bytes \<Rightarrow> nat \<Rightarrow> bytes" where
  "prf12 secret label seed outLen = pHashSHA256 secret (bytes_of label @ seed) outLen"

text \<open>\<open>P_hash\<close> as RFC 5246, section 5, defines it: an unbounded sum over \<open>A(i)\<close>, cut at the length wanted.\<close>

definition A_hash :: "bytes \<Rightarrow> bytes \<Rightarrow> nat \<Rightarrow> bytes" where
  "A_hash secret seed i = (hmac sha256 secret ^^ i) seed"

definition P_hash :: "bytes \<Rightarrow> bytes \<Rightarrow> nat \<Rightarrow> bytes" where
  "P_hash secret seed n = concat (map (\<lambda>i. hmac sha256 secret (A_hash secret seed (Suc i) @ seed)) [0..<n])"

lemma P_hash_Suc: "P_hash secret seed (Suc n) =
    P_hash secret seed n @ hmac sha256 secret (A_hash secret seed (Suc n) @ seed)"
  by (simp add: P_hash_def)

lemma length_P_hash: "length (P_hash secret seed n) = 32 * n"
  by (induction n) (simp_all add: P_hash_Suc sha256.length_hmac, simp add: P_hash_def)

lemma P_hash_take: "n \<le> m \<Longrightarrow> take (32 * n) (P_hash secret seed m) = P_hash secret seed n"
proof (induction m)
  case 0
  then show ?case by (simp add: P_hash_def)
next
  case (Suc m)
  then show ?case by (cases "n = Suc m") (simp_all add: P_hash_Suc length_P_hash sha256.length_hmac)
qed

lemma pHash_loop_spec:
  assumes "32 * n < outLen + 32" and "outLen \<le> 32 * m"
  shows "pHash_loop secret seed outLen (A_hash secret seed n) (P_hash secret seed n) =
    take outLen (P_hash secret seed m)"
  using assms(1)
proof (induction "outLen - 32 * n" arbitrary: n rule: less_induct)
  case less
  show ?case
  proof (cases "32 * n < outLen")
    case True
    have "A_hash secret seed (Suc n) = hmac sha256 secret (A_hash secret seed n)"
      by (simp add: A_hash_def)
    then have "pHash_loop secret seed outLen (A_hash secret seed n) (P_hash secret seed n) =
        pHash_loop secret seed outLen (A_hash secret seed (Suc n)) (P_hash secret seed (Suc n))"
      using True by (subst pHash_loop.simps) (simp add: length_P_hash P_hash_Suc Let_def)
    with less(1) [of "Suc n"] True show ?thesis by simp
  next
    case False
    then have "n \<le> m" using less.prems assms(2) by simp
    then have "take outLen (P_hash secret seed n) = take outLen (P_hash secret seed m)"
      using False P_hash_take [of n m secret seed, symmetric] by (simp add: min_def)
    with False show ?thesis by (subst pHash_loop.simps) (simp add: length_P_hash)
  qed
qed

text \<open>
  C33. The PRF is that of RFC 5246: \<open>prf12\<close> returns the first \<open>outLen\<close> bytes of the sum
  HMAC(secret, A(1) + label + seed) + HMAC(secret, A(2) + label + seed) + ..., however many of its
  terms are written out, and so exactly \<open>outLen\<close> bytes.
\<close>

theorem prf12_P_hash:
  assumes "outLen \<le> 32 * m"
  shows "prf12 secret label seed outLen = take outLen (P_hash secret (bytes_of label @ seed) m) \<and>
    length (prf12 secret label seed outLen) = outLen"
proof -
  have "pHash_loop secret s outLen s [] = take outLen (P_hash secret s m)" for s
    using pHash_loop_spec [of 0 outLen m secret s] assms by (simp add: A_hash_def P_hash_def)
  then show ?thesis using assms by (simp add: prf12_def pHashSHA256_def length_P_hash)
qed

theorem prf12_P_hash_witness:
  "prf12 [1] ''key expansion'' [2] 40 = take 40 (P_hash [1] (bytes_of ''key expansion'' @ [2]) 2) \<and>
   length (prf12 [1] ''key expansion'' [2] 40) = 40"
  by (rule prf12_P_hash) simp

lemma length_prf12 [simp]: "length (prf12 secret label seed outLen) = outLen"
proof -
  have "pHash_loop secret s outLen s [] = take outLen (P_hash secret s outLen)" for s
    using pHash_loop_spec [of 0 outLen outLen secret s] by (simp add: A_hash_def P_hash_def)
  then show ?thesis by (simp add: prf12_def pHashSHA256_def length_P_hash)
qed

section \<open>Records\<close>

definition computeMAC :: "bytes \<Rightarrow> 64 word \<Rightarrow> byte \<Rightarrow> bytes \<Rightarrow> bytes" where
  "computeMAC macKey sq contentType content =
     hmac sha1 macKey
       ((put64 sq @ [contentType] @ put16 versionTLS12 @ put16 (length content)) @ content)"

definition macThenPad :: "cbcSession \<Rightarrow> byte \<Rightarrow> bytes \<Rightarrow> bool \<Rightarrow> int \<Rightarrow> bytes" where
  "macThenPad s contentType content forceBadMAC padOverride =
     (let mac0 = computeMAC (clientWriteMAC s) (clientSeq s) contentType content;
          mac = (if forceBadMAC \<and> length mac0 > 0
                 then mac0[length mac0 - 1 := xor (mac0 ! (length mac0 - 1)) 0xff] else mac0);
          pt = content @ mac;
          blockSize = cp_ivLen (s_params s)
      in if padOverride \<ge> 0
         then pt @ replicate (nat (padOverride + 1)) (of_int padOverride)
         else let rm = (length pt + 1) mod blockSize;
                  padLen = (if rm \<noteq> 0 then blockSize - rm else 0)
              in pt @ replicate (padLen + 1) (of_nat padLen))"

text \<open>\<open>encryptRecord\<close>: \<open>None\<close> is an error (a bad key size, no random bytes).\<close>

definition zero_fill :: "nat \<Rightarrow> bytes \<Rightarrow> bytes" where
  "zero_fill n pt =
     (if length pt mod n \<noteq> 0 then pt @ replicate (n - length pt mod n) 0 else pt)"

definition encryptRecord :: "cbcSession \<Rightarrow> byte \<Rightarrow> bytes \<Rightarrow> world \<Rightarrow> bytes option \<times> world" where
  "encryptRecord s contentType pt w =
     (if \<not> aes_key (clientWriteKey s) then (None, w)
      else case rand_read (cp_ivLen (s_params s)) w of
             (None, w1) \<Rightarrow> (None, w1)
           | (Some iv, w1) \<Rightarrow>
               let ct = cbc_enc (aes_encrypt (clientWriteKey s)) iv
                          (chunks 16 (zero_fill (cp_ivLen (s_params s)) pt))
               in (Some (wrapTLS12Record contentType (iv @ ct)), w1))"

section \<open>The receiver\<close>

text \<open>
  What a correct receiver does with the fragment of a record: decrypt; the last byte is the length
  of the padding, all of whose bytes must equal it; then the MAC over the rest. The MAC is written
  down here from RFC 5246, section 6.2.3.1, independently of the code's \<open>computeMAC\<close>: the hash over the
  sequence number, the type, the version, the length and the content, the numbers as big-endian
  digits to base 256.
\<close>

definition digits256 :: "nat \<Rightarrow> nat \<Rightarrow> bytes" where
  "digits256 n k = map (\<lambda>i. of_nat (k div 256 ^ (n - 1 - i) mod 256)) [0..<n]"

definition record_mac :: "bytes \<Rightarrow> 64 word \<Rightarrow> byte \<Rightarrow> bytes \<Rightarrow> bytes" where
  "record_mac macKey sq contentType content =
     hmac sha1 macKey (digits256 8 (unat sq) @ contentType # 3 # 3 # digits256 2 (length content) @ content)"

datatype verdict = BadPadding | BadMAC | Genuine bytes

definition unpad :: "bytes \<Rightarrow> bytes option" where
  "unpad pt =
     (if pt = [] then None
      else let n = unat (last pt) + 1
           in if length pt < n + 20 \<or> drop (length pt - n) pt \<noteq> replicate n (last pt)
              then None else Some (take (length pt - n) pt))"

definition judge_plain :: "bytes \<Rightarrow> 64 word \<Rightarrow> byte \<Rightarrow> bytes \<Rightarrow> verdict" where
  "judge_plain macKey sq contentType pt =
     (case unpad pt of
        None \<Rightarrow> BadPadding
      | Some body \<Rightarrow>
          let content = take (length body - 20) body
          in if drop (length body - 20) body = record_mac macKey sq contentType content
             then Genuine content else BadMAC)"

definition receive :: "bytes \<Rightarrow> bytes \<Rightarrow> 64 word \<Rightarrow> byte \<Rightarrow> bytes \<Rightarrow> verdict" where
  "receive key macKey sq contentType fragment =
     judge_plain macKey sq contentType
       (cbc_dec (aes_decrypt key) (take 16 fragment) (chunks 16 (drop 16 fragment)))"

text \<open>The receiver of a session's records, at its current sequence number.\<close>

definition received :: "cbcSession \<Rightarrow> byte \<Rightarrow> bytes \<Rightarrow> verdict" where
  "received s contentType rec =
     receive (clientWriteKey s) (clientWriteMAC s) (clientSeq s) contentType (drop 5 rec)"

section \<open>What the receiver makes of the records\<close>

text \<open>The code's MAC is the one of the RFC.\<close>

lemma digits256_put64: "digits256 8 (unat w) = put64 w"
proof -
  have "(of_nat (unat w div 256 ^ k mod 256) :: byte) = ucast (drop_bit (8 * k) w)" for k
  proof -
    have "(256 :: nat) ^ k = 2 ^ (8 * k)" by (simp add: power_mult)
    moreover have "take_bit 64 (unat w) = unat w"
      using unsigned_less [of w] by (simp add: take_bit_nat_eq_self_iff)
    ultimately have "unat (drop_bit (8 * k) w) = unat w div 256 ^ k"
      by (simp only: unsigned_drop_bit_eq drop_bit_eq_div [where 'a = nat]) simp
    moreover have "unat (ucast v :: byte) = unat v mod 256" for v :: "64 word"
      by (simp add: unsigned_ucast_eq take_bit_eq_mod)
    ultimately have "unat (ucast (drop_bit (8 * k) w) :: byte) = unat w div 256 ^ k mod 256" by (simp only:)
    then have "of_nat (unat w div 256 ^ k mod 256) = (of_nat (unat (ucast (drop_bit (8 * k) w) :: byte)) :: byte)"
      by (simp only:)
    then show ?thesis by (simp only: of_nat_unat ucast_id)
  qed
  from this [of 0] this [of 1] this [of 2] this [of 3] this [of 4] this [of 5] this [of 6] this [of 7]
  show ?thesis by (simp add: digits256_def put64_def upt_rec del: power_Suc)
qed

lemma digits256_put16: "digits256 2 n = put16 n"
proof -
  have "of_nat (n div 256 mod 256) = (of_nat (n div 256) :: byte)" "of_nat (n mod 256) = (of_nat n :: byte)"
    by (rule word_eq_iff_unsigned [THEN iffD2], simp add: unsigned_of_nat take_bit_eq_mod)+
  then show ?thesis by (simp add: digits256_def put16_def upt_rec)
qed

lemma record_mac_eq [simp]: "record_mac macKey sq t content = computeMAC macKey sq t content"
proof -
  have "put16 versionTLS12 = [3, 3]" by (simp add: put16_def)
  then show ?thesis
    unfolding record_mac_def computeMAC_def digits256_put64 digits256_put16 by simp
qed

lemma length_computeMAC [simp]: "length (computeMAC macKey sq t content) = 20"
  by (simp add: computeMAC_def sha1.length_hmac)

lemma zero_fill_dvd: "0 < n \<Longrightarrow> n dvd length (zero_fill n pt)"
proof -
  assume n: "0 < n"
  have "length pt + (n - length pt mod n) = length pt div n * n + n"
    using n mod_less_divisor [OF n, of "length pt"] div_mult_mod_eq [of "length pt" n] by linarith
  then show ?thesis by (auto simp: zero_fill_def)
qed

text \<open>Decryption undoes encryption: the receiver judges the padded plaintext.\<close>

lemma received_encrypted:
  assumes "wf_session s" and "encryptRecord s t pt w = (Some r, w')"
  shows "received s t' r = judge_plain (clientWriteMAC s) (clientSeq s) t' (zero_fill 16 pt)"
proof -
  note key = wf_session_aes [OF assms(1)]
  have iv16: "cp_ivLen (s_params s) = 16" using assms(1) by (simp add: wf_session_def wf_params_def)
  from assms(2) key iv16 obtain f where
    r: "r = wrapTLS12Record t (map f [0..<16] @ cbc_enc (aes_encrypt (clientWriteKey s)) (map f [0..<16])
          (chunks 16 (zero_fill 16 pt)))"
    by (auto simp: encryptRecord_def rand_read_def Let_def split: option.splits)
  have "16 dvd length (zero_fill 16 pt)" by (rule zero_fill_dvd) simp
  then have "cbc_dec (aes_decrypt (clientWriteKey s)) (map f [0..<16])
      (chunks 16 (cbc_enc (aes_encrypt (clientWriteKey s)) (map f [0..<16]) (chunks 16 (zero_fill 16 pt)))) =
      zero_fill 16 pt"
    using aes.cbc_inverse(1) [OF key, of "map f [0..<16]"] by simp
  then show ?thesis
    unfolding r received_def receive_def by (simp add: tls12_record.header_of_wrap)
qed

lemma unpad_exact:
  assumes "20 \<le> length body" and "n < 256"
  shows "unpad (body @ replicate (n + 1) (of_nat n)) = Some body"
proof -
  have "unat (of_nat n :: byte) = n" using assms(2) by (simp add: unat_of_nat)
  moreover have "last (body @ replicate (n + 1) (of_nat n :: byte)) = of_nat n" by simp
  ultimately show ?thesis using assms(1) by (simp add: unpad_def Let_def)
qed

text \<open>A plaintext that ends in a zero byte has the shortest valid padding.\<close>

lemma unpad_zero: "20 \<le> length body \<Longrightarrow> unpad (body @ [0]) = Some body"
  using unpad_exact [of body 0] by simp

lemma judge_unpadded:
  assumes "unpad pt = Some (content @ mac)" and "length mac = 20"
  shows "judge_plain macKey sq t pt =
    (if mac = computeMAC macKey sq t content then Genuine content else BadMAC)"
  using assms by (simp add: judge_plain_def Let_def)

lemma judge_never_padding: "unpad pt = Some body \<Longrightarrow> judge_plain macKey sq t pt \<noteq> BadPadding"
  by (simp add: judge_plain_def Let_def)

lemma zero_filled:
  assumes "length pt mod n \<noteq> 0" and "20 \<le> length pt" and "0 < n"
  shows "\<exists>body. unpad (zero_fill n pt) = Some body"
proof -
  define k where "k = n - length pt mod n - 1"
  have "n - length pt mod n = Suc k"
    using assms(3) mod_less_divisor [OF assms(3), of "length pt"] by (simp add: k_def)
  then have "zero_fill n pt = (pt @ replicate k 0) @ [0]"
    using assms(1) by (simp add: zero_fill_def replicate_append_same)
  moreover have "unpad ((pt @ replicate k 0) @ [0]) = Some (pt @ replicate k 0)"
    by (rule unpad_zero) (use assms(2) in simp)
  ultimately show ?thesis by simp
qed

text \<open>The MAC, possibly with its last byte flipped.\<close>

definition sent_mac :: "cbcSession \<Rightarrow> byte \<Rightarrow> bytes \<Rightarrow> bool \<Rightarrow> bytes" where
  "sent_mac s t content forceBadMAC =
     (let mac = computeMAC (clientWriteMAC s) (clientSeq s) t content
      in if forceBadMAC then mac[19 := xor (mac ! 19) 0xff] else mac)"

lemma length_sent_mac [simp]: "length (sent_mac s t content bad) = 20"
  by (simp add: sent_mac_def Let_def)

lemma xor_ff: "xor (b :: byte) 0xff \<noteq> b"
proof
  assume "xor b 0xff = b"
  then have "xor b (xor b 0xff) = xor b b" by simp
  then show False by (simp add: xor.assoc [symmetric])
qed

lemma sent_mac_right:
  "sent_mac s t content bad = computeMAC (clientWriteMAC s) (clientSeq s) t content \<longleftrightarrow> \<not> bad"
proof -
  let ?m = "computeMAC (clientWriteMAC s) (clientSeq s) t content"
  have "?m[19 := xor (?m ! 19) 0xff] ! 19 \<noteq> ?m ! 19" using xor_ff by simp
  then have "?m[19 := xor (?m ! 19) 0xff] \<noteq> ?m" by metis
  then show ?thesis by (simp add: sent_mac_def Let_def)
qed

lemma computeMAC_nonempty [simp]: "computeMAC macKey sq t content \<noteq> []"
  using length_computeMAC [of macKey sq t content] by fastforce

lemma macThenPad_eq:
  "macThenPad s t content bad p =
     (let pt = content @ sent_mac s t content bad;
          rm = (length pt + 1) mod cp_ivLen (s_params s);
          padLen = (if rm \<noteq> 0 then cp_ivLen (s_params s) - rm else 0)
      in if p \<ge> 0 then pt @ replicate (nat (p + 1)) (of_int p)
         else pt @ replicate (padLen + 1) (of_nat padLen))"
proof -
  have "(if bad \<and> length mac > 0 then mac[length mac - 1 := xor (mac ! (length mac - 1)) 0xff] else mac) =
      sent_mac s t content bad"
    if "mac = computeMAC (clientWriteMAC s) (clientSeq s) t content" for mac
    by (simp add: that sent_mac_def Let_def)
  then show ?thesis by (simp only: macThenPad_def Let_def)
qed

lemma macThenPad_override:
  "0 \<le> p \<Longrightarrow> macThenPad s t content bad p =
     (content @ sent_mac s t content bad) @ replicate (nat p + 1) (of_int p)"
  by (simp add: macThenPad_eq Let_def nat_add_distrib)

lemma pad_to_block: "16 dvd k + (if k mod 16 \<noteq> 0 then 16 - k mod 16 else 0)" for k :: nat
proof (cases "k mod 16 = 0")
  case False
  have "k + (16 - k mod 16) = k div 16 * 16 + 16"
    using div_mult_mod_eq [of k 16] mod_less_divisor [of 16 k] by linarith
  with False show ?thesis by simp
qed (simp add: mod_eq_0_iff_dvd)

lemma macThenPad_valid:
  assumes "wf_session s"
  shows "\<exists>n < 16. macThenPad s t content bad (- 1) =
      (content @ sent_mac s t content bad) @ replicate (n + 1) (of_nat n) \<and>
    16 dvd length (macThenPad s t content bad (- 1))"
proof -
  have iv: "cp_ivLen (s_params s) = 16" using assms by (simp add: wf_session_def wf_params_def)
  define k where "k = length (content @ sent_mac s t content bad) + 1"
  define n where "n = (if k mod 16 \<noteq> 0 then 16 - k mod 16 else 0)"
  have n: "n < 16" by (auto simp: n_def)
  have eq: "macThenPad s t content bad (- 1) =
      (content @ sent_mac s t content bad) @ replicate (n + 1) (of_nat n)"
    by (simp only: macThenPad_eq Let_def iv n_def k_def) simp
  have "16 dvd k + n" unfolding n_def by (rule pad_to_block)
  moreover have "length (macThenPad s t content bad (- 1)) = k + n" by (simp add: eq k_def)
  ultimately have "16 dvd length (macThenPad s t content bad (- 1))" by (simp only:)
  with n eq show ?thesis by blast
qed

lemma judge_valid_pad:
  assumes "wf_session s"
  shows "judge_plain (clientWriteMAC s) (clientSeq s) t (zero_fill 16 (macThenPad s t content bad (- 1))) =
    (if bad then BadMAC else Genuine content)"
proof -
  from macThenPad_valid [OF assms, of t content bad] obtain n where
    n: "n < 16" "macThenPad s t content bad (- 1) =
      (content @ sent_mac s t content bad) @ replicate (n + 1) (of_nat n)"
    and d: "16 dvd length (macThenPad s t content bad (- 1))" by auto
  have z: "zero_fill 16 (macThenPad s t content bad (- 1)) = macThenPad s t content bad (- 1)"
    using d by (simp add: zero_fill_def)
  have "unpad (macThenPad s t content bad (- 1)) = Some (content @ sent_mac s t content bad)"
    unfolding n(2) by (rule unpad_exact) (use n(1) in simp_all)
  from judge_unpadded [OF this length_sent_mac] show ?thesis
    unfolding z by (simp add: sent_mac_right)
qed

text \<open>An explicit padding: all its bytes are equal to it, so it is valid when the length fits the blocks.\<close>

lemma judge_override_aligned:
  assumes "0 \<le> p" and "p < 256" and "(length content + 21 + nat p) mod 16 = 0"
  shows "judge_plain (clientWriteMAC s) (clientSeq s) t (zero_fill 16 (macThenPad s t content bad p)) =
    (if bad then BadMAC else Genuine content)"
proof -
  define n where "n = nat p"
  have p: "p = int n" "n < 256" using assms(1,2) by (simp_all add: n_def)
  have eq: "macThenPad s t content bad p = (content @ sent_mac s t content bad) @ replicate (n + 1) (of_nat n)"
    using macThenPad_override [OF assms(1)] p by simp
  have "length (macThenPad s t content bad p) mod 16 = 0"
    using assms(3) unfolding eq by (simp add: n_def add.commute add.left_commute)
  then have z: "zero_fill 16 (macThenPad s t content bad p) = macThenPad s t content bad p"
    by (simp add: zero_fill_def)
  have "unpad (macThenPad s t content bad p) = Some (content @ sent_mac s t content bad)"
    unfolding eq by (rule unpad_exact) (use p in simp_all)
  from judge_unpadded [OF this length_sent_mac] show ?thesis
    unfolding z by (simp add: sent_mac_right)
qed

lemma judge_override_padding:
  assumes "0 \<le> p" and "p < 256"
  shows "judge_plain (clientWriteMAC s) (clientSeq s) t (zero_fill 16 (macThenPad s t content bad p)) \<noteq>
    BadPadding"
proof (cases "(length content + 21 + nat p) mod 16 = 0")
  case True
  with judge_override_aligned [OF assms this, of s t bad] show ?thesis by simp
next
  case False
  have "length (macThenPad s t content bad p) = length content + 21 + nat p"
    using macThenPad_override [OF assms(1)] by simp
  with zero_filled [of "macThenPad s t content bad p" 16] False judge_never_padding
  show ?thesis by fastforce
qed

text \<open>
  C17. A record round trip over the whole stack: what \<open>encryptRecord\<close> makes of a well-formed
  \<open>macThenPad\<close> plaintext, a receiver with the session's keys and sequence number decrypts, unpads,
  verifies and accepts as the same content; with the forced MAC error it rejects the MAC.
\<close>

theorem record_round_trip:
  assumes "wf_session s"
    and "encryptRecord s t (macThenPad s t content bad (- 1)) w = (Some r, w')"
  shows "received s t r = (if bad then BadMAC else Genuine content)"
  unfolding received_encrypted [OF assms] by (rule judge_valid_pad [OF assms(1)])

definition demo_session :: cbcSession where
  "demo_session = \<lparr>s_params = cbc_params 16 True, clientWriteKey = replicate 16 0x11,
     serverWriteKey = replicate 16 0x22, clientWriteMAC = replicate 20 0x33,
     serverWriteMAC = replicate 20 0x44, clientSeq = 0, serverSeq = 0\<rparr>"

lemma demo_session_wf: "wf_session demo_session"
  by (simp add: wf_session_def wf_params_def demo_session_def cbc_params_def)

lemma encrypt_answering: "\<exists>r w'. encryptRecord demo_session t pt (answering bs) = (Some r, w')"
  using wf_session_aes [OF demo_session_wf]
  by (simp add: encryptRecord_def rand_read_def answering_def Let_def)

theorem record_round_trip_witness:
  "\<exists>r w'. encryptRecord demo_session recordApplicationData
       (macThenPad demo_session recordApplicationData [1, 2, 3] False (- 1)) (answering []) = (Some r, w') \<and>
     received demo_session recordApplicationData r = Genuine [1, 2, 3]"
proof -
  from encrypt_answering obtain r w' where
    e: "encryptRecord demo_session recordApplicationData
       (macThenPad demo_session recordApplicationData [1, 2, 3] False (- 1)) (answering []) = (Some r, w')"
    by blast
  with record_round_trip [OF demo_session_wf e] show ?thesis by auto
qed

end
