(* ===== verification/Steps.thy ===== *)
theory Steps
  imports Handshake
begin

text \<open>
  Long handshake functions as sequences of steps on a connection: a step yields a value, gives up
  (\<open>Some None\<close>, the code's early \<open>return nil\<close>) or panics (\<open>None\<close>), and its successor runs only in the
  first case. The contract \<open>step_op\<close> of a step says that it never panics, leaves the world's
  connections alone and uses the connection within its deadline; it is closed under sequencing.
\<close>

type_synonym 'a step = "conn \<Rightarrow> world \<Rightarrow> 'a option option \<times> conn \<times> world"

section \<open>Steps\<close>

definition andThen :: "'a step \<Rightarrow> ('a \<Rightarrow> 'b step) \<Rightarrow> 'b step" where
  "andThen m f c w =
     (case m c w of
        (None, c1, w1) \<Rightarrow> (None, c1, w1)
      | (Some None, c1, w1) \<Rightarrow> (Some None, c1, w1)
      | (Some (Some x), c1, w1) \<Rightarrow> f x c1 w1)"

definition result :: "'a \<Rightarrow> 'a step" where
  "result x c w = (Some (Some x), c, w)"

text \<open>A value that was computed with checks: \<open>None\<close> is a panic, \<open>Some None\<close> a refusal.\<close>

definition parsed :: "'a option option \<Rightarrow> 'a step" where
  "parsed v c w = (v, c, w)"

definition needed :: "'a option \<Rightarrow> 'a step" where
  "needed v = parsed (Some v)"

definition require :: "bool \<Rightarrow> unit step" where
  "require b = needed (if b then Some () else None)"

definition send :: "bytes \<Rightarrow> unit step" where
  "send bs c w =
     (case conn_write bs c of
        (Some e, c1) \<Rightarrow> (Some None, c1, w)
      | (None, c1) \<Rightarrow> (Some (Some ()), c1, w))"

definition random :: "nat \<Rightarrow> bytes step" where
  "random n c w = (case rand_read n w of (r, w1) \<Rightarrow> (Some r, c, w1))"

text \<open>\<open>rand.Reader\<close> handed to a library function: it reads as many bytes as it likes.\<close>

definition rand_stream :: "(nat \<Rightarrow> byte) step" where
  "rand_stream c w = (Some (w_rand w (w_rands w)), c, w\<lparr>w_rands := Suc (w_rands w)\<rparr>)"

text \<open>The next handshake message, with the reader's buffer.\<close>

definition message :: "bytes \<Rightarrow> (byte \<times> bytes \<times> bytes) step" where
  "message buf c w =
     (case hs_next buf c of
        (Inl e, buf', c1) \<Rightarrow> (Some None, c1, w)
      | (Inr (t, msg), buf', c1) \<Rightarrow> (Some (Some (t, msg, buf')), c1, w))"

text \<open>A step that only reads the connection.\<close>

definition on_conn :: "(conn \<Rightarrow> 'a option \<times> conn) \<Rightarrow> 'a step" where
  "on_conn f c w = (case f c of (r, c1) \<Rightarrow> (Some r, c1, w))"

lemma andThen_ok:
  "andThen m f c w = (Some (Some y), c', w') \<longleftrightarrow>
     (\<exists>x c1 w1. m c w = (Some (Some x), c1, w1) \<and> f x c1 w1 = (Some (Some y), c', w'))"
  by (auto simp: andThen_def split: prod.splits option.splits)

lemma step_ok [simp]:
  "result x c w = (Some (Some y), c', w') \<longleftrightarrow> y = x \<and> c' = c \<and> w' = w"
  "parsed v c w = (Some (Some y), c', w') \<longleftrightarrow> v = Some (Some y) \<and> c' = c \<and> w' = w"
  "needed o' c w = (Some (Some y), c', w') \<longleftrightarrow> o' = Some y \<and> c' = c \<and> w' = w"
  "require b c w = (Some (Some u), c', w') \<longleftrightarrow> b \<and> c' = c \<and> w' = w"
  by (auto simp: result_def parsed_def needed_def require_def)

lemma send_ok: "send bs c w = (Some (Some u), c', w') \<Longrightarrow> c_sent c' = c_sent c @ [bs] \<and> w' = w"
  by (auto simp: send_def conn_write_def Let_def split: prod.splits option.splits if_splits)

lemma send_iff: "send bs c w = (Some (Some u), c', w') \<longleftrightarrow> conn_write bs c = (None, c') \<and> w' = w"
  by (auto simp: send_def split: prod.splits option.splits)

lemma random_iff:
  "random n c w = (Some (Some r), c', w') \<longleftrightarrow>
     c' = c \<and> w' = w\<lparr>w_rands := Suc (w_rands w)\<rparr> \<and> map_option (\<lambda>f. map f [0..<n]) (w_rand w (w_rands w)) = Some r"
  by (auto simp: random_def rand_read_def)

lemma rand_stream_iff:
  "rand_stream c w = (Some (Some r), c', w') \<longleftrightarrow>
     c' = c \<and> w' = w\<lparr>w_rands := Suc (w_rands w)\<rparr> \<and> w_rand w (w_rands w) = Some r"
  by (auto simp: rand_stream_def)

lemma random_ok: "random n c w = (Some (Some r), c', w') \<Longrightarrow> c' = c \<and> length r = n"
  by (auto simp: random_def rand_read_def)

lemma rand_stream_ok: "rand_stream c w = (Some (Some r), c', w') \<Longrightarrow> c' = c"
  by (simp add: rand_stream_def)

lemma message_ok:
  "message buf c w = (Some (Some (t, msg, buf')), c', w') \<longleftrightarrow>
     hs_next buf c = (Inr (t, msg), buf', c') \<and> w' = w"
  by (auto simp: message_def split: prod.splits sum.splits)

section \<open>The contract\<close>

locale step_op =
  fixes step :: "'a step" and extra :: int
  assumes extra_nonneg: "0 \<le> extra"
    and no_panic: "fst (step c w) \<noteq> None"
    and step_world: "step c w = (r, c', w') \<Longrightarrow> w_open w' = w_open w \<and> w_now w' = w_now w"
    and step_forward: "step c w = (r, c', w') \<Longrightarrow> c_now c \<le> c_now c'"
    and step_time: "step c w = (r, c', w') \<Longrightarrow> in_time lim c \<Longrightarrow> in_time (lim + extra) c'"
begin

lemma body: "conn_body (\<lambda>c w. step c w) extra"
  using extra_nonneg step_world step_forward in_time_now step_time
  by unfold_locales (auto dest: in_time_now)

end

lemma andThen_op:
  assumes m: "step_op m x" and f: "\<And>a. step_op (f a) y"
  shows "step_op (andThen m f) (x + y)"
proof
  show "0 \<le> x + y" using step_op.extra_nonneg [OF m] step_op.extra_nonneg [OF f] by simp
  show "fst (andThen m f c w) \<noteq> None" for c w
    using step_op.no_panic [OF m, of c w] step_op.no_panic [OF f]
    by (auto simp: andThen_def split: prod.splits option.splits)
  fix c w r c' w' lim
  assume a: "andThen m f c w = (r, c', w')"
  obtain r1 c1 w1 where m1: "m c w = (r1, c1, w1)" by (metis prod_cases3)
  note M = step_op.step_world [OF m m1] step_op.step_forward [OF m m1] step_op.step_time [OF m m1, of lim]
  have "(c' = c1 \<and> w' = w1) \<or> (\<exists>a. f a c1 w1 = (r, c', w'))"
    using a m1 by (auto simp: andThen_def split: option.splits)
  then show "w_open w' = w_open w \<and> w_now w' = w_now w" and "c_now c \<le> c_now c'"
    and "in_time lim c \<Longrightarrow> in_time (lim + (x + y)) c'"
    using M step_op.step_world [OF f] step_op.step_forward [OF f]
      step_op.step_time [OF f, where lim = "lim + x"] step_op.extra_nonneg [OF f]
      in_time_mono [of "lim + x" c1 "lim + (x + y)"]
    by (auto simp: add.assoc intro: order.trans)
qed

lemma andThen_op0: "step_op m 0 \<Longrightarrow> (\<And>a. step_op (f a) y) \<Longrightarrow> step_op (andThen m f) y"
  using andThen_op [of m 0 f y] by simp

lemma parsed_op: "v \<noteq> None \<Longrightarrow> step_op (parsed v) 0"
  by unfold_locales (auto simp: parsed_def)

lemma pure_ops:
  "step_op (result x) 0" "step_op (needed v) 0" "step_op (require b) 0"
  by unfold_locales (auto simp: result_def needed_def parsed_def require_def)

lemma send_op: "step_op (send bs) 0"
proof
  fix c w r c' w' lim
  assume "send bs c w = (r, c', w')"
  then obtain e where e: "conn_write bs c = (e, c')" and w: "w' = w"
    by (auto simp: send_def split: prod.splits option.splits)
  show "w_open w' = w_open w \<and> w_now w' = w_now w" using w by simp
  from conn_write_frame [OF e, of lim]
  show "c_now c \<le> c_now c'" and "in_time lim c \<Longrightarrow> in_time (lim + 0) c'" by auto
qed (auto simp: send_def split: prod.splits option.splits)

lemma random_ops: "step_op (random n) 0" "step_op rand_stream 0"
  by unfold_locales (auto simp: random_def rand_read_def rand_stream_def)

lemma message_op: "step_op (message buf) 0"
proof
  fix c w r c' w' lim
  assume "message buf c w = (r, c', w')"
  then obtain m buf' where h: "hs_next buf c = (m, buf', c')" and w: "w' = w"
    by (auto simp: message_def split: prod.splits sum.splits)
  show "w_open w' = w_open w \<and> w_now w' = w_now w" using w by simp
  from hs_next_frame [OF h, of lim]
  show "c_now c \<le> c_now c'" and "in_time lim c \<Longrightarrow> in_time (lim + 0) c'" by (auto simp: keeps_def)
qed (auto simp: message_def split: prod.splits sum.splits)

lemma on_conn_op:
  assumes "0 \<le> x" and "\<And>c r c' lim. f c = (r, c') \<Longrightarrow> c_now c \<le> c_now c' \<and> (in_time lim c \<longrightarrow> in_time (lim + x) c')"
  shows "step_op (on_conn f) x"
  using assms by unfold_locales (auto simp: on_conn_def split: prod.splits)

lemmas step_ops = pure_ops send_op random_ops message_op

text \<open>The contract holds of the steps the handshakes are made of.\<close>

interpretation sending: step_op "send bs" 0 for bs by (rule send_op)

interpretation reading: step_op "message buf" 0 for buf by (rule message_op)

end
