(* ===== verification/CbcSession.thy ===== *)
theory CbcSession
  imports Cbc Steps Robot
begin

text \<open>
  The handshake of internal/handshake/cbc.go: parsing ServerHello and ServerKeyExchange, the two key
  exchanges, the derivation of the keys, the Finished message, and \<open>establishCBCSession\<close> as a whole.
  \<open>crypto/ecdh\<close> and \<open>rsa.EncryptPKCS1v15\<close> are the parameter \<open>lib\<close>.
\<close>

section \<open>Parsing\<close>

definition parseServerHelloSuite :: "bytes \<Rightarrow> (nat \<times> bytes) option option" where
  "parseServerHelloSuite msg =
     (if 4 + 2 + 32 + 1 > length msg then Some None
      else do {
        serverRandom \<leftarrow> slice msg 6 38;
        sidLen \<leftarrow> idx msg 38;
        let p = 39 + unat sidLen;
        if p + 2 > length msg then Some None
        else do { suite \<leftarrow> idx16 msg p; Some (Some (suite, serverRandom)) }})"

definition parseECDHEServerKeyExchange :: "bytes \<Rightarrow> (nat \<times> bytes) option option" where
  "parseECDHEServerKeyExchange msg =
     (if 4 + 4 > length msg then Some None
      else do {
        curveType \<leftarrow> idx msg 4;
        if curveType \<noteq> 0x03 then Some None
        else do {
          curveID \<leftarrow> idx16 msg 5;
          plen \<leftarrow> idx msg 7;
          if 8 + unat plen > length msg then Some None
          else do { point \<leftarrow> slice msg 8 (8 + unat plen); Some (Some (curveID, point)) }}})"

datatype ec_curve = X25519 | P256 | P384 | P521

definition ecdhCurve :: "nat \<Rightarrow> ec_curve option" where
  "ecdhCurve curveID =
     (if curveID = curveX25519 then Some X25519
      else if curveID = curveSecp256r1 then Some P256
      else if curveID = curveSecp384r1 then Some P384
      else if curveID = curveSecp521r1 then Some P521
      else None)"

lemma parse_total: "parseServerHelloSuite msg \<noteq> None" "parseECDHEServerKeyExchange msg \<noteq> None"
  by (auto simp: parseServerHelloSuite_def parseECDHEServerKeyExchange_def panic Let_def)

text \<open>The bodies of the two messages, as RFC 5246 and RFC 4492 lay them out.\<close>

definition server_hello_body :: "nat \<Rightarrow> bytes \<Rightarrow> bytes \<Rightarrow> nat \<Rightarrow> bytes \<Rightarrow> bytes" where
  "server_hello_body ver rnd sid suite rest =
     put16 ver @ rnd @ [of_nat (length sid)] @ sid @ put16 suite @ rest"

definition ecdhe_ske_body :: "nat \<Rightarrow> bytes \<Rightarrow> bytes \<Rightarrow> bytes" where
  "ecdhe_ske_body curveID point sig = [0x03] @ put16 curveID @ [of_nat (length point)] @ point @ sig"

lemma parse_built:
  assumes "length rnd = 32" and "length sid < 256" and "suite < 65536"
    and "length point < 256" and "curveID < 65536"
  shows "parseServerHelloSuite (wrapHandshake 0x02 (server_hello_body ver rnd sid suite rest)) =
      Some (Some (suite, rnd)) \<and>
    parseECDHEServerKeyExchange (wrapHandshake 0x0c (ecdhe_ske_body curveID point sig)) =
      Some (Some (curveID, point))"
proof -
  define h where "h = [0x02] @ put24 (length (server_hello_body ver rnd sid suite rest)) @ put16 ver"
  have h: "length h = 6" by (simp add: h_def)
  define msg where "msg = wrapHandshake 0x02 (server_hello_body ver rnd sid suite rest)"
  have msg: "msg = h @ rnd @ of_nat (length sid) # sid @ put16 suite @ rest"
    by (simp add: msg_def wrapHandshake_def server_hello_body_def h_def)
  have "slice msg 6 38 = Some rnd"
    using slice_at [of h rnd] assms(1) h by (simp add: msg)
  moreover have "idx msg 38 = Some (of_nat (length sid))"
    using idx_at [of "h @ rnd"] assms(1) h by (simp add: msg)
  moreover have "idx16 msg (39 + length sid) = Some suite"
    using idx16_at [of "h @ rnd @ of_nat (length sid) # sid" suite rest] assms(1,3) h
    by (simp add: msg)
  moreover have "length msg = 41 + length sid + length rest" using assms(1) h by (simp add: msg)
  ultimately have 1: "parseServerHelloSuite msg = Some (Some (suite, rnd))"
    using assms(2) by (simp add: parseServerHelloSuite_def Let_def)
  define g where "g = [0x0c] @ put24 (length (ecdhe_ske_body curveID point sig))"
  have g: "length g = 4" by (simp add: g_def)
  define ske where "ske = wrapHandshake 0x0c (ecdhe_ske_body curveID point sig)"
  have ske: "ske = g @ 0x03 # put16 curveID @ of_nat (length point) # point @ sig"
    by (simp add: ske_def wrapHandshake_def ecdhe_ske_body_def g_def)
  have "idx ske 4 = Some 0x03" using idx_at [of g] g by (simp add: ske)
  moreover have "idx16 ske 5 = Some curveID"
    using idx16_at [of "g @ [0x03]" curveID] assms(5) g by (simp add: ske)
  moreover have "idx ske 7 = Some (of_nat (length point))"
    using idx_at [of "g @ 0x03 # put16 curveID"] g by (simp add: ske)
  moreover have "slice ske 8 (8 + length point) = Some point"
    using slice_at [of "g @ 0x03 # put16 curveID @ [of_nat (length point)]" point sig] g
    by (simp add: ske)
  moreover have "length ske = 8 + length point + length sig" using g by (simp add: ske)
  ultimately have "parseECDHEServerKeyExchange ske = Some (Some (curveID, point))"
    using assms(4) by (simp add: parseECDHEServerKeyExchange_def)
  with 1 show ?thesis by (simp add: msg_def ske_def)
qed

text \<open>
  Parsing inverts building, for any version, session id, trailing bytes and signature: the suite
  and the random of a ServerHello, the curve and the point of an ECDHE ServerKeyExchange.
\<close>

theorem parse_messages:
  assumes "length rnd = 32" and "length sid < 256" and "suite < 65536"
    and "length point < 256" and "curveID < 65536"
  shows "parseServerHelloSuite (wrapHandshake 0x02 (server_hello_body ver rnd sid suite rest)) =
      Some (Some (suite, rnd)) \<and>
    parseECDHEServerKeyExchange (wrapHandshake 0x0c (ecdhe_ske_body curveID point sig)) =
      Some (Some (curveID, point))"
  by (rule parse_built [OF assms])

theorem parse_messages_witness:
  "parseServerHelloSuite (wrapHandshake 0x02 (server_hello_body 0x0303 (replicate 32 7) [1, 2] 0xc013 [0])) =
      Some (Some (0xc013, replicate 32 7)) \<and>
    parseECDHEServerKeyExchange (wrapHandshake 0x0c (ecdhe_ske_body 0x001d (replicate 32 9) [4, 1])) =
      Some (Some (0x001d, replicate 32 9))"
  by (rule parse_messages) simp_all

section \<open>Key exchange\<close>

record kex_lib =
  ec_generate :: "ec_curve \<Rightarrow> (nat \<Rightarrow> byte) \<Rightarrow> bytes option"
  ec_point :: "ec_curve \<Rightarrow> bytes \<Rightarrow> bytes"
  ec_valid :: "ec_curve \<Rightarrow> bytes \<Rightarrow> bool"
  ec_shared :: "ec_curve \<Rightarrow> bytes \<Rightarrow> bytes \<Rightarrow> bytes option"
  rsa_encrypt :: "rsa_key \<Rightarrow> (nat \<Rightarrow> byte) \<Rightarrow> bytes \<Rightarrow> bytes option"

text \<open>The premaster secret, the body of ClientKeyExchange, the transcript and the reader's buffer.\<close>

definition cbc_key_exchange ::
  "kex_lib \<Rightarrow> cbcCipherParams \<Rightarrow> rsa_key option \<Rightarrow> bytes \<Rightarrow> bytes \<Rightarrow> (bytes \<times> bytes \<times> bytes \<times> bytes) step" where
  "cbc_key_exchange lib params rsaPub buf transcript =
     (if cp_ecdhe params
      then
        andThen (message buf) (\<lambda>(skeType, skeMsg, buf).
        andThen (require (skeType = handshakeServerKeyExchange)) (\<lambda>_.
        andThen (parsed (parseECDHEServerKeyExchange skeMsg)) (\<lambda>(curveID, serverPoint).
        andThen (needed (ecdhCurve curveID)) (\<lambda>curve.
        andThen rand_stream (\<lambda>r.
        andThen (needed (ec_generate lib curve r)) (\<lambda>priv.
        andThen (require (ec_valid lib curve serverPoint)) (\<lambda>_.
        andThen (needed (ec_shared lib curve priv serverPoint)) (\<lambda>shared.
          let myPoint = ec_point lib curve priv
          in result (shared, [of_nat (length myPoint)] @ myPoint, transcript @ skeMsg, buf)))))))))
      else
        andThen (needed rsaPub) (\<lambda>pub.
        andThen (random 46) (\<lambda>r.
          let pms = [0x03, 0x03] @ r in
          andThen rand_stream (\<lambda>rs.
          andThen (needed (rsa_encrypt lib pub rs pms)) (\<lambda>enc.
            result (pms, put16 (length enc) @ enc, transcript, buf))))))"

text \<open>The rest of the server's flight; every message that is read makes buffer and stream shorter.\<close>

lemma hs_next_shrinks:
  "hs_next buf c = (Inr (t, msg), buf', c') \<Longrightarrow>
     length buf' + length (stream c') < length buf + length (stream c)"
proof (induction buf c rule: hs_next.induct)
  case (1 buf c)
  show ?case
  proof (cases "complete_msg buf")
    case True
    with "1.prems" show ?thesis
      using msg_len_ge4 [of buf] by (auto simp: hs_next_complete complete_msg_def)
  next
    case False
    from "1.prems" False obtain p c1 where
      f: "next_payload c = (Payload p, c1)" and n: "\<not> length (buf @ p) > 2 ^ 18"
      and rest: "hs_next (buf @ p) c1 = (Inr (t, msg), buf', c')"
      by (auto simp: hs_next.simps [of buf] split: if_splits fill.splits prod.splits)
    from next_payload_sound [OF f] have "length p + length (stream c1) \<le> length (stream c)"
      by (auto simp: hs_record_def)
    with "1.IH" [OF False f [symmetric] refl n rest] show ?thesis by simp
  qed
qed

function skip_flight :: "bytes \<Rightarrow> bytes \<Rightarrow> conn \<Rightarrow> bytes option \<times> conn" where
  "skip_flight buf transcript c =
     (case hs_next buf c of
        (Inl e, buf', c1) \<Rightarrow> (None, c1)
      | (Inr (t, msg), buf', c1) \<Rightarrow>
          if t = handshakeServerHelloDone then (Some (transcript @ msg), c1)
          else skip_flight buf' (transcript @ msg) c1)"
  by pat_completeness auto
termination
  by (relation "measure (\<lambda>(buf, tr, c). length buf + length (stream c))")
     (auto dest!: hs_next_shrinks [OF sym])

declare skip_flight.simps [simp del]

lemma skip_flight_frame:
  "skip_flight buf tr c = (r, c') \<Longrightarrow>
     keeps c c' \<and> c_sent c' = c_sent c \<and> (in_time lim c \<longrightarrow> in_time lim c')"
proof (induction buf tr c rule: skip_flight.induct)
  case (1 buf tr c)
  obtain x buf' c1 where h: "hs_next buf c = (x, buf', c1)" by (metis prod_cases3)
  note fr = hs_next_frame [OF h, of lim]
  show ?case
  proof (cases "\<exists>t msg. x = Inr (t, msg) \<and> t \<noteq> handshakeServerHelloDone")
    case True
    then obtain t msg where x: "x = Inr (t, msg)" "t \<noteq> handshakeServerHelloDone" by blast
    with "1.prems" h have "skip_flight buf' (tr @ msg) c1 = (r, c')"
      by (simp add: skip_flight.simps [of buf])
    from "1.IH" [OF h [symmetric] x(1) refl refl x(2) this] fr show ?thesis
      by (auto intro: keeps_trans)
  next
    case False
    with "1.prems" h have "c' = c1" by (auto simp: skip_flight.simps [of buf] split: sum.splits if_splits)
    with fr show ?thesis by simp
  qed
qed

section \<open>Keys and Finished\<close>

definition derive_session :: "cbcCipherParams \<Rightarrow> bytes \<Rightarrow> bytes \<Rightarrow> bytes \<Rightarrow> cbcSession" where
  "derive_session params masterSecret clientRandom serverRandom =
     (let keySeed = serverRandom @ clientRandom;
          macLen = cp_macLen params; keyLen = cp_keyLen params;
          keyBlock = prf12 masterSecret ''key expansion'' keySeed (2 * macLen + 2 * keyLen)
      in \<lparr>s_params = params,
          clientWriteKey = take keyLen (drop (2 * macLen) keyBlock),
          serverWriteKey = take keyLen (drop (2 * macLen + keyLen) keyBlock),
          clientWriteMAC = take macLen keyBlock,
          serverWriteMAC = take macLen (drop macLen keyBlock),
          clientSeq = 0, serverSeq = 0\<rparr>)"

lemma derive_session_wf:
  "wf_params params \<Longrightarrow> wf_session (derive_session params master cr sr)"
  by (auto simp: wf_session_def derive_session_def Let_def wf_params_def)

fun expectServerFinished_loop :: "nat \<Rightarrow> bool \<Rightarrow> cbcSession \<Rightarrow> conn \<Rightarrow> cbcSession option \<times> conn" where
  "expectServerFinished_loop 0 sawCCS s c = (None, c)"
| "expectServerFinished_loop (Suc n) sawCCS s c =
     (case readRecordHeader c of
        (Inl e, c1) \<Rightarrow> (None, c1)
      | (Inr (contentType, ver, recLen), c1) \<Rightarrow>
          if recLen > 2 ^ 16 then (None, c1)
          else case readFull recLen c1 of
                 (Inl e, c2) \<Rightarrow> (None, c2)
               | (Inr body, c2) \<Rightarrow>
                   if contentType = recordAlert then (None, c2)
                   else if contentType = recordChangeCipherSpec
                   then expectServerFinished_loop n True s c2
                   else if contentType = recordHandshake \<and> sawCCS
                   then (Some (s\<lparr>serverSeq := serverSeq s + 1\<rparr>), c2)
                   else if contentType = recordApplicationData \<and> sawCCS then (Some s, c2)
                   else expectServerFinished_loop n sawCCS s c2)"

definition expectServerFinished :: "int \<Rightarrow> cbcSession \<Rightarrow> conn \<Rightarrow> cbcSession option \<times> conn" where
  "expectServerFinished timeout s c = expectServerFinished_loop 6 False s (set_read_deadline timeout c)"

lemma expectServerFinished_loop_frame:
  "expectServerFinished_loop n saw s c = (r, c') \<Longrightarrow>
     keeps c c' \<and> c_sent c' = c_sent c \<and> (in_time lim c \<longrightarrow> in_time lim c')"
proof (induction n arbitrary: saw c)
  case 0
  then show ?case by simp
next
  case (Suc n)
  obtain h c1 where h: "readRecordHeader c = (h, c1)" by (metis surj_pair)
  note fr = readRecordHeader_frame [OF h, of lim]
  show ?case
  proof (cases "c' = c1")
    case True
    with fr show ?thesis by simp
  next
    case False
    with Suc.prems h obtain l x c2 where rf: "readFull l c1 = (x, c2)"
      and "c' = c2 \<or> (\<exists>saw'. expectServerFinished_loop n saw' s c2 = (r, c'))"
      by (fastforce split: sum.splits prod.splits if_splits)
    with Suc.IH readFull_frame [OF rf, of lim] fr show ?thesis by (auto intro: keeps_trans)
  qed
qed

lemma expectServerFinished_frame:
  "expectServerFinished timeout s c = (r, c') \<Longrightarrow> c_now c \<le> c_now c' \<and> c_sent c' = c_sent c \<and>
     (in_time lim c \<longrightarrow> in_time (lim + max 0 timeout) c')"
  using expectServerFinished_loop_frame [of 6 False s "set_read_deadline timeout c" r c' "lim + max 0 timeout"]
    set_read_deadline_in_time [of lim c timeout]
  by (auto simp: expectServerFinished_def keeps_def)

definition encrypted :: "cbcSession \<Rightarrow> byte \<Rightarrow> bytes \<Rightarrow> bytes step" where
  "encrypted s t pt c w = (case encryptRecord s t pt w of (r, w1) \<Rightarrow> (Some r, c, w1))"

definition cbc_finish ::
  "cbcCipherParams \<Rightarrow> bytes \<Rightarrow> bytes \<Rightarrow> bytes \<Rightarrow> bytes \<Rightarrow> bytes \<Rightarrow> int \<Rightarrow> cbcSession step" where
  "cbc_finish params premaster body transcript clientRandom serverRandom timeout =
     (let masterSecret = prf12 premaster ''master secret'' (clientRandom @ serverRandom) 48;
          sess = derive_session params masterSecret clientRandom serverRandom;
          cke = wrapHandshake handshakeClientKeyExchange body;
          transcript = transcript @ cke;
          verifyData = prf12 masterSecret ''client finished'' (sha256 transcript) 12;
          finishedMsg = wrapHandshake handshakeFinished verifyData
      in andThen (send (wrapTLS12Record recordHandshake cke)) (\<lambda>_.
         andThen (send (wrapTLS12Record recordChangeCipherSpec [0x01])) (\<lambda>_.
         andThen (encrypted sess recordHandshake (macThenPad sess recordHandshake finishedMsg False (- 1)))
           (\<lambda>finRec.
         andThen (send finRec) (\<lambda>_.
         on_conn (expectServerFinished timeout (sess\<lparr>clientSeq := clientSeq sess + 1\<rparr>)))))))"

section \<open>The whole handshake\<close>

definition establish_body ::
  "kex_lib \<Rightarrow> (bytes \<Rightarrow> rsa_key option) \<Rightarrow> string \<Rightarrow> int \<Rightarrow> cbcSession step" where
  "establish_body lib x509 host timeout =
     andThen (random 32) (\<lambda>clientRandom.
       let hello = cbcClientHello host clientRandom; transcript = drop 5 hello in
       andThen (send hello) (\<lambda>_.
       andThen (message []) (\<lambda>(shType, sh, buf).
       andThen (require (shType = handshakeServerHello)) (\<lambda>_.
       andThen (parsed (parseServerHelloSuite sh)) (\<lambda>(suite, serverRandom).
       andThen (needed (paramsForSuite suite)) (\<lambda>params.
       andThen (message buf) (\<lambda>(certType, certMsg, buf).
       andThen (require (certType = handshakeCertificate)) (\<lambda>_.
       andThen (parsed (map_option Some (parseLeafRSAKey x509 certMsg))) (\<lambda>rsaPub.
       andThen (cbc_key_exchange lib params rsaPub buf (transcript @ sh @ certMsg))
         (\<lambda>(premaster, body, transcript, buf).
       andThen (on_conn (skip_flight buf transcript)) (\<lambda>transcript.
       cbc_finish params premaster body transcript clientRandom serverRandom timeout)))))))))))"

definition establishCBCSession ::
  "kex_lib \<Rightarrow> (bytes \<Rightarrow> rsa_key option) \<Rightarrow> int option \<Rightarrow> string \<Rightarrow> int \<Rightarrow> world \<Rightarrow>
   (cbcSession \<times> conn) option option \<times> world" where
  "establishCBCSession lib x509 ctx host timeout w =
     (case dial ctx timeout w of
        (Inl e, w1) \<Rightarrow> (Some None, w1)
      | (Inr c, w1) \<Rightarrow>
          (case establish_body lib x509 host timeout (set_deadline timeout c) w1 of
             (Some (Some s), c', w2) \<Rightarrow> (Some (Some (s, c')), w2)
           | (r, c', w2) \<Rightarrow> (map_option (\<lambda>_. None) r, conn_close c' w2)))"

subsection \<open>Resources\<close>

lemma case_prod_op: "(\<And>x y. step_op (g x y) e) \<Longrightarrow> step_op (case p of (x, y) \<Rightarrow> g x y) e"
  by (cases p) simp

lemma encrypted_op: "step_op (encrypted s t pt) 0"
  by unfold_locales
     (auto simp: encrypted_def encryptRecord_def rand_read_def Let_def split: prod.splits option.splits if_splits)

lemma expect_op: "step_op (on_conn (expectServerFinished timeout s)) (max 0 timeout)"
  by (rule on_conn_op) (use expectServerFinished_frame in auto)

lemma skip_flight_op: "step_op (on_conn (skip_flight buf tr)) 0"
  by (rule on_conn_op) (use skip_flight_frame in \<open>auto simp: keeps_def\<close>)

lemma cbc_finish_op: "step_op (cbc_finish params pms body tr cr sr timeout) (max 0 timeout)"
  unfolding cbc_finish_def Let_def by (intro andThen_op0 step_ops encrypted_op expect_op)

lemma cbc_key_exchange_op: "step_op (cbc_key_exchange lib params pub buf tr) 0"
  unfolding cbc_key_exchange_def Let_def
  by (auto intro!: andThen_op0 step_ops case_prod_op parsed_op parse_total)

lemma establish_op: "step_op (establish_body lib x509 host timeout) (max 0 timeout)"
  unfolding establish_body_def Let_def
  by (intro andThen_op0 step_ops case_prod_op parsed_op parse_total cbc_key_exchange_op skip_flight_op
      cbc_finish_op) (simp add: parseLeafRSAKey_total)

interpretation establishing: step_op "establish_body lib x509 host timeout" "max 0 timeout"
  for lib x509 host timeout by (rule establish_op)

section \<open>What an established session is\<close>

text \<open>The messages a reader took, in order, from the first to ServerHelloDone.\<close>

lemma hs_nexts_add:
  "hs_nexts (m + n) buf c =
     (case hs_nexts m buf c of
        None \<Rightarrow> None
      | Some (ms, buf', c') \<Rightarrow> map_option (apfst ((@) ms)) (hs_nexts n buf' c'))"
proof (induction m arbitrary: buf c)
  case 0
  have "apfst ((@) []) = (id :: (byte \<times> bytes) list \<times> bytes \<times> conn \<Rightarrow> _)" by (auto simp: fun_eq_iff)
  then show ?case by (simp add: option.map_id)
next
  case (Suc m)
  obtain x buf' c' where h: "hs_next buf c = (x, buf', c')" by (metis prod_cases3)
  show ?case
  proof (cases x)
    case (Inl e)
    with h show ?thesis by simp
  next
    case (Inr t)
    then show ?thesis
      using h
      by (auto simp: Suc.IH option.map_comp comp_def apfst_def map_prod_def
          split: option.splits prod.splits intro!: option.map_cong0)
  qed
qed

lemma skip_flight_reads:
  "skip_flight buf tr c = (Some tr', c') \<Longrightarrow>
     \<exists>ms msg buf'. hs_nexts (length ms + 1) buf c = Some (ms @ [(handshakeServerHelloDone, msg)], buf', c') \<and>
       tr' = tr @ concat (map snd ms) @ msg"
proof (induction buf tr c rule: skip_flight.induct)
  case (1 buf tr c)
  from "1.prems" obtain t msg buf1 c1 where h: "hs_next buf c = (Inr (t, msg), buf1, c1)"
    by (auto simp: skip_flight.simps [of buf] split: prod.splits sum.splits)
  show ?case
  proof (cases "t = handshakeServerHelloDone")
    case True
    with "1.prems" h show ?thesis
      by (intro exI [of _ "[]"] exI [of _ msg] exI [of _ buf1])
         (auto simp: skip_flight.simps [of buf])
  next
    case False
    with "1.prems" h have "skip_flight buf1 (tr @ msg) c1 = (Some tr', c')"
      by (simp add: skip_flight.simps [of buf])
    from "1.IH" [OF h [symmetric] refl refl refl False this] obtain ms m buf' where
      "hs_nexts (length ms + 1) buf1 c1 = Some (ms @ [(handshakeServerHelloDone, m)], buf', c')"
      "tr' = (tr @ msg) @ concat (map snd ms) @ m" by blast
    with h show ?thesis
      by (intro exI [of _ "(t, msg) # ms"] exI [of _ m] exI [of _ buf']) simp
  qed
qed

text \<open>
  What the key exchange must be: with ECDHE, the message that follows the certificate is the server's
  key exchange, the private key is generated on its curve, from the random source, and the premaster
  secret is the one shared with its point; with RSA, the premaster secret is 03 03 and 46 random bytes,
  encrypted under the key of the certificate. \<open>draw i\<close> is the \<open>i\<close>-th use of the random source from here.
\<close>

definition kex_agrees ::
  "kex_lib \<Rightarrow> cbcCipherParams \<Rightarrow> rsa_key option \<Rightarrow> (byte \<times> bytes) list \<Rightarrow> (nat \<Rightarrow> (nat \<Rightarrow> byte) option) \<Rightarrow>
   bytes \<Rightarrow> bytes \<Rightarrow> bool" where
  "kex_agrees lib params rsaPub ms draw premaster body \<longleftrightarrow>
     (if cp_ecdhe params
      then \<exists>msg rest curveID point curve r priv. ms = (handshakeServerKeyExchange, msg) # rest \<and>
             parseECDHEServerKeyExchange msg = Some (Some (curveID, point)) \<and> ecdhCurve curveID = Some curve \<and>
             draw 0 = Some r \<and> ec_generate lib curve r = Some priv \<and>
             ec_valid lib curve point \<and> ec_shared lib curve priv point = Some premaster \<and>
             body = of_nat (length (ec_point lib curve priv)) # ec_point lib curve priv
      else \<exists>pub f rs enc. rsaPub = Some pub \<and> draw 0 = Some f \<and> premaster = [0x03, 0x03] @ map f [0..<46] \<and>
             draw 1 = Some rs \<and> rsa_encrypt lib pub rs premaster = Some enc \<and> body = put16 (length enc) @ enc)"

definition draws :: "world \<Rightarrow> nat \<Rightarrow> nat \<Rightarrow> (nat \<Rightarrow> byte) option" where
  "draws w k i = w_rand w (w_rands w + k + i)"

lemma cbc_key_exchange_ok:
  assumes "cbc_key_exchange lib params pub buf tr c w = (Some (Some (pms, body, tr', buf')), c', w')"
  shows "c_sent c' = c_sent c \<and>
    (\<exists>ms. hs_nexts (length ms) buf c = Some (ms, buf', c') \<and> tr' = tr @ concat (map snd ms) \<and>
       (\<forall>rest. kex_agrees lib params pub (ms @ rest) (draws w 0) pms body))"
proof (cases "cp_ecdhe params")
  case True
  with assms show ?thesis
    by (auto simp: cbc_key_exchange_def andThen_ok message_ok kex_agrees_def Let_def rand_stream_iff draws_def
        dest: hs_next_frame intro!: exI [of _ "[(_, _)]"])
next
  case False
  with assms show ?thesis
    by (auto simp: cbc_key_exchange_def andThen_ok kex_agrees_def Let_def random_iff rand_stream_iff draws_def
        intro!: exI [of _ "[]"])
qed

lemma encrypted_ok:
  "encrypted s t pt c w = (Some (Some r), c', w') \<longleftrightarrow> c' = c \<and> encryptRecord s t pt w = (Some r, w')"
  by (auto simp: encrypted_def split: prod.splits)

lemma on_conn_ok: "on_conn f c w = (Some (Some x), c', w') \<longleftrightarrow> f c = (Some x, c') \<and> w' = w"
  by (auto simp: on_conn_def split: prod.splits)

text \<open>The next \<open>n\<close> records, with their types.\<close>

fun records_read :: "nat \<Rightarrow> conn \<Rightarrow> ((byte \<times> bytes) list \<times> conn) option" where
  "records_read 0 c = Some ([], c)"
| "records_read (Suc n) c =
     (case readRecordHeader c of
        (Inl e, c1) \<Rightarrow> None
      | (Inr (contentType, ver, recLen), c1) \<Rightarrow>
          (case readFull recLen c1 of
             (Inl e, c2) \<Rightarrow> None
           | (Inr body, c2) \<Rightarrow> map_option (apfst ((#) (contentType, body))) (records_read n c2)))"

text \<open>
  The server accepts the client's Finished: within six records, none before the last an alert, its
  ChangeCipherSpec comes and then an encrypted record: its Finished, which counts as the first record
  it sent under the new keys, or application data, which the code does not count.
\<close>

definition server_accepts :: "conn \<Rightarrow> 64 word \<Rightarrow> conn \<Rightarrow> bool" where
  "server_accepts c sq c' \<longleftrightarrow>
     (\<exists>rs t body. records_read (length rs + 1) c = Some (rs @ [(t, body)], c') \<and> length rs < 6 \<and>
        recordChangeCipherSpec \<in> fst ` set rs \<and> recordAlert \<notin> fst ` set rs \<and>
        (t = recordHandshake \<and> sq = 1 \<or> t = recordApplicationData \<and> sq = 0))"

lemma expectServerFinished_loop_ok:
  "expectServerFinished_loop n saw s c = (Some s', c') \<Longrightarrow>
     \<exists>rs t body. records_read (length rs + 1) c = Some (rs @ [(t, body)], c') \<and> length rs < n \<and>
       (saw \<or> recordChangeCipherSpec \<in> fst ` set rs) \<and> recordAlert \<notin> fst ` set rs \<and>
       (t = recordHandshake \<and> s' = s\<lparr>serverSeq := serverSeq s + 1\<rparr> \<or> t = recordApplicationData \<and> s' = s)"
proof (induction n arbitrary: saw c)
  case 0
  then show ?case by simp
next
  case (Suc n)
  from Suc.prems obtain t v l c1 body c2 where
    h: "readRecordHeader c = (Inr (t, v, l), c1)" "readFull l c1 = (Inr body, c2)" and na: "t \<noteq> recordAlert"
    by (auto split: prod.splits sum.splits if_splits)
  show ?case
  proof (cases "\<exists>saw'. expectServerFinished_loop n saw' s c2 = (Some s', c') \<and>
      (saw' \<longrightarrow> saw \<or> t = recordChangeCipherSpec)")
    case True
    then obtain saw' where l: "expectServerFinished_loop n saw' s c2 = (Some s', c')"
      and saw': "saw' \<longrightarrow> saw \<or> t = recordChangeCipherSpec" by blast
    from Suc.IH [OF l] obtain rs u b where
      "records_read (length rs + 1) c2 = Some (rs @ [(u, b)], c')" "length rs < n"
      "saw' \<or> recordChangeCipherSpec \<in> fst ` set rs" "recordAlert \<notin> fst ` set rs"
      "u = recordHandshake \<and> s' = s\<lparr>serverSeq := serverSeq s + 1\<rparr> \<or> u = recordApplicationData \<and> s' = s" by blast
    with h na saw' show ?thesis
      by (intro exI [of _ "(t, body) # rs"] exI [of _ u] exI [of _ b]) auto
  next
    case False
    with Suc.prems h na have "saw" and c': "c' = c2" and
      "t = recordHandshake \<and> s' = s\<lparr>serverSeq := serverSeq s + 1\<rparr> \<or> t = recordApplicationData \<and> s' = s"
      by (auto split: if_splits)
    with h show ?thesis by (intro exI [of _ "[]"] exI [of _ t] exI [of _ body]) auto
  qed
qed

lemma expectServerFinished_ok:
  assumes "expectServerFinished timeout s c = (Some s', c')" and "serverSeq s = 0"
  shows "s' = s\<lparr>serverSeq := serverSeq s'\<rparr> \<and> server_accepts (set_read_deadline timeout c) (serverSeq s') c'"
proof -
  from expectServerFinished_loop_ok [OF assms(1) [unfolded expectServerFinished_def]] obtain rs t body where
    r: "records_read (length rs + 1) (set_read_deadline timeout c) = Some (rs @ [(t, body)], c')" "length rs < 6"
      "recordChangeCipherSpec \<in> fst ` set rs" "recordAlert \<notin> fst ` set rs"
    and s': "t = recordHandshake \<and> s' = s\<lparr>serverSeq := serverSeq s + 1\<rparr> \<or> t = recordApplicationData \<and> s' = s"
    by blast
  have "t = recordHandshake \<and> serverSeq s' = 1 \<or> t = recordApplicationData \<and> serverSeq s' = 0"
    using s' assms(2) by auto
  with r have "server_accepts (set_read_deadline timeout c) (serverSeq s') c'" unfolding server_accepts_def by blast
  with s' show ?thesis by auto
qed

definition master_secret :: "bytes \<Rightarrow> bytes \<Rightarrow> bytes \<Rightarrow> bytes" where
  "master_secret premaster clientRandom serverRandom =
     prf12 premaster ''master secret'' (clientRandom @ serverRandom) 48"

definition finished_message :: "bytes \<Rightarrow> bytes \<Rightarrow> bytes" where
  "finished_message masterSecret transcript =
     wrapHandshake handshakeFinished (prf12 masterSecret ''client finished'' (sha256 transcript) 12)"

text \<open>
  The last flight of the client: its key exchange, ChangeCipherSpec and Finished are written in this
  order, then the server accepts.
\<close>

definition last_flight :: "int \<Rightarrow> bytes \<Rightarrow> bytes \<Rightarrow> 64 word \<Rightarrow> conn \<Rightarrow> conn \<Rightarrow> bool" where
  "last_flight timeout body fin sq c c' \<longleftrightarrow>
     (\<exists>c1 c2 c3. conn_write (wrapTLS12Record recordHandshake (wrapHandshake handshakeClientKeyExchange body)) c = (None, c1) \<and>
        conn_write (wrapTLS12Record recordChangeCipherSpec [0x01]) c1 = (None, c2) \<and>
        conn_write fin c2 = (None, c3) \<and> server_accepts (set_read_deadline timeout c3) sq c')"

lemma cbc_finish_ok:
  assumes "cbc_finish params pms body tr cr sr timeout c w = (Some (Some s), c', w')" and "wf_params params"
  shows "\<exists>fin. last_flight timeout body fin (serverSeq s) c c' \<and> c_sent c' = c_sent c @
      [wrapTLS12Record recordHandshake (wrapHandshake handshakeClientKeyExchange body),
       wrapTLS12Record recordChangeCipherSpec [0x01], fin] \<and>
    s = (derive_session params (master_secret pms cr sr) cr sr)\<lparr>clientSeq := 1, serverSeq := serverSeq s\<rparr> \<and>
    received (s\<lparr>clientSeq := 0\<rparr>) recordHandshake fin =
      Genuine (finished_message (master_secret pms cr sr)
        (tr @ wrapHandshake handshakeClientKeyExchange body))"
proof -
  define sess where "sess = derive_session params (master_secret pms cr sr) cr sr"
  have wf: "wf_session sess" using derive_session_wf [OF assms(2)] by (simp add: sess_def)
  have sq: "clientSeq sess = 0" "serverSeq sess = 0" by (simp_all add: sess_def derive_session_def Let_def)
  define msg where "msg = finished_message (master_secret pms cr sr) (tr @ wrapHandshake handshakeClientKeyExchange body)"
  from assms(1) obtain c1 w1 c2 w2 c3 w3 c4 w4 fin where
    1: "send (wrapTLS12Record recordHandshake (wrapHandshake handshakeClientKeyExchange body)) c w = (Some (Some ()), c1, w1)"
    and 2: "send (wrapTLS12Record recordChangeCipherSpec [0x01]) c1 w1 = (Some (Some ()), c2, w2)"
    and 3: "encryptRecord sess recordHandshake (macThenPad sess recordHandshake msg False (- 1)) w2 = (Some fin, w3)"
    and 4: "send fin c2 w3 = (Some (Some ()), c4, w4)"
    and 5: "expectServerFinished timeout (sess\<lparr>clientSeq := clientSeq sess + 1\<rparr>) c4 = (Some s, c')"
    unfolding cbc_finish_def Let_def sess_def [symmetric] msg_def finished_message_def master_secret_def
    by (auto simp: andThen_ok encrypted_ok on_conn_ok sess_def master_secret_def)
  have s: "s = sess\<lparr>clientSeq := 1, serverSeq := serverSeq s\<rparr>"
    and acc: "server_accepts (set_read_deadline timeout c4) (serverSeq s) c'"
    using expectServerFinished_ok [OF 5] sq by simp_all
  have "received sess recordHandshake fin = Genuine msg"
    unfolding received_encrypted [OF wf 3] using judge_valid_pad [OF wf, of recordHandshake msg False] by simp
  then have r: "received (s\<lparr>clientSeq := 0\<rparr>) recordHandshake fin = Genuine msg"
    by (subst s) (simp add: received_def sq)
  have fl: "last_flight timeout body fin (serverSeq s) c c'"
    using 1 2 4 acc unfolding last_flight_def send_iff by blast
  have "c_sent c' = c_sent c4" using expectServerFinished_frame [OF 5] by simp
  with send_ok [OF 1] send_ok [OF 2] send_ok [OF 4] have
    "c_sent c' = c_sent c @ [wrapTLS12Record recordHandshake (wrapHandshake handshakeClientKeyExchange body),
       wrapTLS12Record recordChangeCipherSpec [0x01], fin]" by simp
  with s r fl show ?thesis unfolding msg_def sess_def by blast
qed

text \<open>The keys are the consecutive parts of the key block, in the order of RFC 5246.\<close>

lemma derive_session_keys:
  assumes "wf_params params" and "s = derive_session params master rnd srnd"
  shows "clientWriteMAC s @ serverWriteMAC s @ clientWriteKey s @ serverWriteKey s =
    prf12 master ''key expansion'' (srnd @ rnd) (2 * cp_macLen params + 2 * cp_keyLen params)"
proof -
  have split: "take m kb @ take m (drop m kb) @ take k (drop (2 * m) kb) @ take k (drop (2 * m + k) kb) =
      take (2 * m + 2 * k) kb" for m k and kb :: bytes
    using take_add [of m "m + (k + k)" kb] take_add [of m "k + k" "drop m kb"]
      take_add [of k k "drop (2 * m) kb"]
    by (simp add: mult_2 add.assoc add.commute add.left_commute)
  show ?thesis unfolding assms(2) derive_session_def Let_def cbcSession.select_convs split by simp
qed

text \<open>What was read and agreed on before the client's last flight.\<close>

lemma establish_reads:
  assumes "establish_body lib x509 host timeout c w = (Some (Some s), c', w')"
  shows "\<exists>f rnd srnd suite params pub pms body sh cert ms d tr buf c1 c2 w2.
    w_rand w (w_rands w) = Some f \<and> rnd = map f [0..<32] \<and> conn_write (cbcClientHello host rnd) c = (None, c1) \<and>
    parseServerHelloSuite sh = Some (Some (suite, srnd)) \<and> paramsForSuite suite = Some params \<and>
    parseLeafRSAKey x509 cert = Some pub \<and>
    kex_agrees lib params pub (ms @ [(handshakeServerHelloDone, d)]) (draws w 1) pms body \<and>
    hs_nexts (length ms + 3) [] c1 =
      Some ([(handshakeServerHello, sh), (handshakeCertificate, cert)] @ ms @ [(handshakeServerHelloDone, d)],
            buf, c2) \<and>
    tr = drop 5 (cbcClientHello host rnd) @ sh @ cert @ concat (map snd ms) @ d \<and> c_sent c2 = c_sent c1 \<and>
    cbc_finish params pms body tr rnd srnd timeout c2 w2 = (Some (Some s), c', w')"
proof -
  from assms obtain f rnd wr c1 w1 sh buf1 c2 suite srnd params cert buf2 c3 pub
      pms body tr buf3 c4 w4 tr' c5 where
    1: "w_rand w (w_rands w) = Some f" "rnd = map f [0..<32]" "w1 = w\<lparr>w_rands := Suc (w_rands w)\<rparr>"
    and 2: "conn_write (cbcClientHello host rnd) c = (None, c1)"
    and 3: "hs_next [] c1 = (Inr (handshakeServerHello, sh), buf1, c2)"
    and 4: "parseServerHelloSuite sh = Some (Some (suite, srnd))" "paramsForSuite suite = Some params"
    and 5: "hs_next buf1 c2 = (Inr (handshakeCertificate, cert), buf2, c3)" "parseLeafRSAKey x509 cert = Some pub"
    and 6: "cbc_key_exchange lib params pub buf2 (drop 5 (cbcClientHello host rnd) @ sh @ cert) c3 w1 =
        (Some (Some (pms, body, tr, buf3)), c4, w4)"
    and 7: "skip_flight buf3 tr c4 = (Some tr', c5)"
    and 8: "cbc_finish params pms body tr' rnd srnd timeout c5 w4 = (Some (Some s), c', w')"
    by (auto simp: establish_body_def Let_def andThen_ok message_ok on_conn_ok random_iff send_iff)
  from cbc_key_exchange_ok [OF 6] obtain msk where
    k: "c_sent c4 = c_sent c3" "hs_nexts (length msk) buf2 c3 = Some (msk, buf3, c4)"
       "tr = (drop 5 (cbcClientHello host rnd) @ sh @ cert) @ concat (map snd msk)"
       "\<And>rest. kex_agrees lib params pub (msk @ rest) (draws w1 0) pms body" by blast
  from skip_flight_reads [OF 7] obtain msr d buf4 where
    r: "hs_nexts (length msr + 1) buf3 c4 = Some (msr @ [(handshakeServerHelloDone, d)], buf4, c5)"
       "tr' = tr @ concat (map snd msr) @ d" by blast
  have "hs_nexts (length msk + (length msr + 1)) buf2 c3 =
      Some (msk @ msr @ [(handshakeServerHelloDone, d)], buf4, c5)"
    unfolding hs_nexts_add [of "length msk" "length msr + 1"] k(2) option.case prod.case r(1) by simp
  then have read: "hs_nexts (length (msk @ msr) + 3) [] c1 =
      Some ([(handshakeServerHello, sh), (handshakeCertificate, cert)] @ (msk @ msr) @ [(handshakeServerHelloDone, d)], buf4, c5)"
    using 3 5(1) by (simp add: numeral_3_eq_3)
  have same: "c_sent c5 = c_sent c1"
    using hs_next_frame [OF 3] hs_next_frame [OF 5(1)] k(1) skip_flight_frame [OF 7] by simp
  have tr: "tr' = drop 5 (cbcClientHello host rnd) @ sh @ cert @ concat (map snd (msk @ msr)) @ d"
    by (simp add: r(2) k(3))
  have "draws w1 0 = draws w 1" by (simp add: fun_eq_iff draws_def 1(3))
  with k(4) [of "msr @ [(handshakeServerHelloDone, d)]"] have
    "kex_agrees lib params pub ((msk @ msr) @ [(handshakeServerHelloDone, d)]) (draws w 1) pms body" by simp
  then show ?thesis using 1(1,2) 2 4 5(2) read tr same 8 by blast
qed

text \<open>
  C16. An established session. If \<open>establishCBCSession\<close>'s handshake succeeds on a fresh connection, then
  it has these parts. The client hello carries 32 random bytes; after it the server's flight is read
  from ServerHello to ServerHelloDone. The premaster secret is agreed on with this server: with ECDHE,
  from the curve and the point of the ServerKeyExchange that follows the certificate and a fresh
  private key, with RSA, under the key of the certificate (\<open>kex_agrees\<close>). Then the client writes its
  ClientKeyExchange, a ChangeCipherSpec and one encrypted record, and the server accepts
  (\<open>server_accepts\<close>); nothing else is written. The session's two MAC keys and two encryption keys are,
  in this order, the key block that the PRF yields for the two randoms; the next record of the client
  has number 1, and that of the server 1, or 0 if it answered with application data instead of its
  Finished. The encrypted record is accepted under those keys as the Finished message whose verify
  data covers the hello, every message of the server's flight and the ClientKeyExchange, in this order.
\<close>

theorem establish_session:
  assumes "establish_body lib x509 host timeout c w = (Some (Some s), c', w')" and "c_sent c = []"
  shows "\<exists>f rnd srnd suite params pub pms body sh cert ms d fin buf' c1 c2.
    w_rand w (w_rands w) = Some f \<and> rnd = map f [0..<32] \<and>
    conn_write (cbcClientHello host rnd) c = (None, c1) \<and>
    hs_nexts (length ms + 3) [] c1 =
      Some ([(handshakeServerHello, sh), (handshakeCertificate, cert)] @ ms @ [(handshakeServerHelloDone, d)],
            buf', c2) \<and>
    parseServerHelloSuite sh = Some (Some (suite, srnd)) \<and> paramsForSuite suite = Some params \<and>
    parseLeafRSAKey x509 cert = Some pub \<and>
    kex_agrees lib params pub (ms @ [(handshakeServerHelloDone, d)]) (draws w 1) pms body \<and>
    last_flight timeout body fin (serverSeq s) c2 c' \<and>
    c_sent c' = [cbcClientHello host rnd,
      wrapTLS12Record recordHandshake (wrapHandshake handshakeClientKeyExchange body),
      wrapTLS12Record recordChangeCipherSpec [0x01], fin] \<and>
    wf_session s \<and> s_params s = params \<and> clientSeq s = 1 \<and> serverSeq s \<in> {0, 1} \<and>
    clientWriteMAC s @ serverWriteMAC s @ clientWriteKey s @ serverWriteKey s =
      prf12 (master_secret pms rnd srnd) ''key expansion'' (srnd @ rnd)
        (2 * cp_macLen params + 2 * cp_keyLen params) \<and>
    received (s\<lparr>clientSeq := 0\<rparr>) recordHandshake fin =
      Genuine (finished_message (master_secret pms rnd srnd)
        (drop 5 (cbcClientHello host rnd) @ sh @ cert @ concat (map snd ms) @ d @
         wrapHandshake handshakeClientKeyExchange body))"
proof -
  from establish_reads [OF assms(1)] obtain f rnd srnd suite params pub pms body sh cert ms d tr buf c1 c2 w2 where
    2: "w_rand w (w_rands w) = Some f" "rnd = map f [0..<32]" "conn_write (cbcClientHello host rnd) c = (None, c1)"
    and 4: "parseServerHelloSuite sh = Some (Some (suite, srnd))" "paramsForSuite suite = Some params"
      "parseLeafRSAKey x509 cert = Some pub"
      "kex_agrees lib params pub (ms @ [(handshakeServerHelloDone, d)]) (draws w 1) pms body"
    and read: "hs_nexts (length ms + 3) [] c1 =
      Some ([(handshakeServerHello, sh), (handshakeCertificate, cert)] @ ms @ [(handshakeServerHelloDone, d)], buf, c2)"
    and tr: "tr = drop 5 (cbcClientHello host rnd) @ sh @ cert @ concat (map snd ms) @ d" "c_sent c2 = c_sent c1"
    and 8: "cbc_finish params pms body tr rnd srnd timeout c2 w2 = (Some (Some s), c', w')" by blast
  have "send (cbcClientHello host rnd) c w = (Some (Some ()), c1, w)" using 2(3) by (simp add: send_iff)
  from send_ok [OF this] have sent: "c_sent c1 = [cbcClientHello host rnd]" using assms(2) by simp
  note wf = paramsForSuite_wf [OF 4(2)]
  define s0 where "s0 = derive_session params (master_secret pms rnd srnd) rnd srnd"
  from cbc_finish_ok [OF 8 wf] sent tr(2) obtain fin where
    f: "last_flight timeout body fin (serverSeq s) c2 c'"
      "c_sent c' = [cbcClientHello host rnd,
        wrapTLS12Record recordHandshake (wrapHandshake handshakeClientKeyExchange body),
        wrapTLS12Record recordChangeCipherSpec [0x01], fin]"
      "s = s0\<lparr>clientSeq := 1, serverSeq := serverSeq s\<rparr>"
      "received (s\<lparr>clientSeq := 0\<rparr>) recordHandshake fin =
        Genuine (finished_message (master_secret pms rnd srnd) (tr @ wrapHandshake handshakeClientKeyExchange body))"
    unfolding s0_def by auto
  have keys: "clientWriteMAC s = clientWriteMAC s0" "serverWriteMAC s = serverWriteMAC s0"
    "clientWriteKey s = clientWriteKey s0" "serverWriteKey s = serverWriteKey s0" "s_params s = s_params s0"
    "clientSeq s = 1"
    by (subst f(3), simp)+
  have sq: "serverSeq s \<in> {0, 1}" using f(1) by (auto simp: last_flight_def server_accepts_def)
  have s0: "wf_session s0" "s_params s0 = params" using derive_session_wf [OF wf] by (simp_all add: s0_def derive_session_def Let_def)
  then have "wf_session s" "s_params s = params" unfolding wf_session_def keys by simp_all
  with derive_session_keys [OF wf s0_def, folded keys] keys(6) sq show ?thesis
    using 2 4 read f(1,2) f(4) [unfolded tr(1) append_assoc] by blast
qed

end
