(* ===== verification/CbcOracle.thy ===== *)
theory CbcOracle
  imports CbcSession
begin

text \<open>
  The CBC padding-oracle probe of internal/handshake/cbc_oracle.go, with the record sending and the
  reading of reactions of cbc.go: the stimuli, one exchange, the repetitions (theory \<open>Stable\<close>), the
  classification and the probe.
\<close>

section \<open>Reactions\<close>

record cbcReaction =
  cr_kind :: string
  cr_level :: byte
  cr_desc :: byte

definition reaction_of :: "string \<Rightarrow> cbcReaction" where
  "reaction_of kind = \<lparr>cr_kind = kind, cr_level = 0, cr_desc = 0\<rparr>"

definition cbc_equal :: "cbcReaction \<Rightarrow> cbcReaction \<Rightarrow> bool" where
  "cbc_equal r o' =
     (if cr_kind r \<noteq> cr_kind o' then False
      else if cr_kind r = ''alert'' then cr_level r = cr_level o' \<and> cr_desc r = cr_desc o'
      else True)"

interpretation cbc_same: same_reaction cbc_equal
  by unfold_locales (auto simp: cbc_equal_def split: if_splits)

definition classifyCBCTransportError :: "net_err \<Rightarrow> cbcReaction" where
  "classifyCBCTransportError err =
     (if ne_timeout err then reaction_of ''timeout''
      else let msg = ne_msg err
           in if containsSubstr msg ''reset'' then reaction_of ''reset''
              else if containsSubstr msg ''EOF'' \<or> containsSubstr msg ''closed'' \<or>
                      containsSubstr msg ''broken pipe'' then reaction_of ''closed''
              else reaction_of ''error'')"

definition readReaction :: "int \<Rightarrow> conn \<Rightarrow> cbcReaction \<times> conn" where
  "readReaction timeout c =
     (case readRecordHeader (set_read_deadline timeout c) of
        (Inl err, c1) \<Rightarrow> (classifyCBCTransportError err, c1)
      | (Inr (contentType, ver, recLen), c1) \<Rightarrow>
          if contentType = recordAlert
          then let r = reaction_of ''alert''
               in if recLen \<ge> 2
                  then case readFull recLen c1 of
                         (Inl e, c2) \<Rightarrow> (r, c2)
                       | (Inr body, c2) \<Rightarrow> (r\<lparr>cr_level := body ! 0, cr_desc := body ! 1\<rparr>, c2)
                  else (r, c1)
          else (reaction_of ''data'', c1))"

lemma readReaction_frame:
  "readReaction timeout c = (r, c') \<Longrightarrow> c_now c \<le> c_now c' \<and>
     (in_time lim c \<longrightarrow> in_time (lim + max 0 timeout) c')"
proof -
  assume a: "readReaction timeout c = (r, c')"
  obtain h c1 where h: "readRecordHeader (set_read_deadline timeout c) = (h, c1)" by (metis surj_pair)
  have "c' = c1 \<or> (\<exists>l x. readFull l c1 = (x, c'))"
    using a h by (auto simp: readReaction_def Let_def split: sum.splits prod.splits if_splits)
  then have "keeps (set_read_deadline timeout c) c' \<and>
      (in_time (lim + max 0 timeout) (set_read_deadline timeout c) \<longrightarrow> in_time (lim + max 0 timeout) c')"
    using readRecordHeader_frame [OF h, of "lim + max 0 timeout"]
      readFull_frame [of _ c1 _ c' "lim + max 0 timeout"]
    by (blast intro: keeps_trans)
  then show ?thesis
    using set_read_deadline_in_time [of lim c timeout] keeps_now [of "set_read_deadline timeout c" c'] by auto
qed

section \<open>One exchange\<close>

datatype cbcVector = vecControl | vecBadMAC | vecBadPad | vecZeroLen

definition cbc_request :: "string \<Rightarrow> bytes" where
  "cbc_request host =
     (let crlf = [0x0d, 0x0a]
      in bytes_of ''GET / HTTP/1.1'' @ crlf @ bytes_of ''Host: '' @ bytes_of host @ crlf @
         bytes_of ''Connection: close'' @ crlf @ crlf)"

text \<open>\<open>forceBadMAC\<close> and \<open>padOverride\<close> of a vector.\<close>

fun stimulus :: "cbcVector \<Rightarrow> bool \<times> int" where
  "stimulus vecControl = (False, - 1)"
| "stimulus vecBadMAC = (True, - 1)"
| "stimulus vecBadPad = (False, 255)"
| "stimulus vecZeroLen = (True, 0)"

definition sendCrafted :: "cbcSession \<Rightarrow> bytes \<Rightarrow> bool \<Rightarrow> int \<Rightarrow> cbcSession step" where
  "sendCrafted s content forceBadMAC padOverride =
     andThen (encrypted s recordApplicationData
                (macThenPad s recordApplicationData content forceBadMAC padOverride)) (\<lambda>rec.
     andThen (send rec) (\<lambda>_.
     result (s\<lparr>clientSeq := clientSeq s + 1\<rparr>)))"

definition cbc_response_timeout :: "int \<Rightarrow> int" where
  "cbc_response_timeout timeout =
     (if timeout > 1200 * millisecond then 1200 * millisecond else timeout)"

definition cbcExchange_body :: "string \<Rightarrow> cbcVector \<Rightarrow> int \<Rightarrow> cbcSession \<Rightarrow> cbcReaction step" where
  "cbcExchange_body host vec timeout sess =
     (case stimulus vec of (forceBadMAC, padOverride) \<Rightarrow>
        andThen (sendCrafted sess (cbc_request host) forceBadMAC padOverride) (\<lambda>_.
        on_conn (\<lambda>c. apfst Some (readReaction (cbc_response_timeout timeout) c))))"

definition cbcExchange ::
  "kex_lib \<Rightarrow> (bytes \<Rightarrow> rsa_key option) \<Rightarrow> int option \<Rightarrow> string \<Rightarrow> cbcVector \<Rightarrow> int \<Rightarrow>
   cbcReaction exchange" where
  "cbcExchange lib x509 ctx host vec timeout w =
     (case establishCBCSession lib x509 ctx host timeout w of
        (None, w1) \<Rightarrow> (None, w1)
      | (Some None, w1) \<Rightarrow> (Some None, w1)
      | (Some (Some (sess, c)), w1) \<Rightarrow>
          (case cbcExchange_body host vec timeout sess c w1 of
             (r, c', w2) \<Rightarrow> (r, conn_close c' w2)))"

definition stableCBCReaction ::
  "kex_lib \<Rightarrow> (bytes \<Rightarrow> rsa_key option) \<Rightarrow> int option \<Rightarrow> string \<Rightarrow> cbcVector \<Rightarrow> nat \<Rightarrow> int \<Rightarrow>
   cbcReaction exchange" where
  "stableCBCReaction lib x509 ctx host vec reps timeout =
     stable cbc_equal (cbcExchange lib x509 ctx host vec timeout) (reaction_of []) reps"

section \<open>Classification and the probe\<close>

record cbcResult =
  goldenDoodle :: bool
  zombiePoodle :: bool
  sleepingPoodle :: bool
  cve20191559 :: bool

definition no_oracle :: cbcResult where
  "no_oracle = \<lparr>goldenDoodle = False, zombiePoodle = False, sleepingPoodle = False, cve20191559 = False\<rparr>"

definition classifyCBC :: "cbcReaction \<Rightarrow> cbcReaction \<Rightarrow> cbcReaction \<Rightarrow> cbcResult" where
  "classifyCBC badMAC badPad zeroLen =
     (let macVsPadDiffer = \<not> cbc_equal badMAC badPad;
          zeroVsPadDiffer = \<not> cbc_equal zeroLen badPad;
          zeroVsMacDiffer = \<not> cbc_equal zeroLen badMAC
      in if \<not> macVsPadDiffer \<and> \<not> zeroVsPadDiffer then no_oracle
         else \<lparr>goldenDoodle = macVsPadDiffer,
               zombiePoodle = macVsPadDiffer \<and> cr_kind badPad \<noteq> ''alert'' \<and> cr_kind badPad \<noteq> cr_kind badMAC,
               sleepingPoodle = macVsPadDiffer \<and> cr_kind badPad = ''alert'' \<and> cr_kind badMAC = ''alert'' \<and>
                 (cr_level badPad \<noteq> cr_level badMAC \<or> cr_desc badPad \<noteq> cr_desc badMAC),
               cve20191559 = zeroVsPadDiffer \<and> zeroVsMacDiffer\<rparr>)"

text \<open>\<open>context.WithTimeout(ctx, d)\<close>.\<close>

definition with_timeout :: "int option \<Rightarrow> int \<Rightarrow> world \<Rightarrow> int option" where
  "with_timeout ctx d w = Some (case ctx of None \<Rightarrow> w_now w + d | Some t \<Rightarrow> min t (w_now w + d))"

definition ProbeCBCPaddingOracles ::
  "kex_lib \<Rightarrow> (bytes \<Rightarrow> rsa_key option) \<Rightarrow> int option \<Rightarrow> string \<Rightarrow> int \<Rightarrow> world \<Rightarrow> cbcResult option \<times> world" where
  "ProbeCBCPaddingOracles lib x509 ctx0 host timeout w =
     (let per = probe_per timeout;
          ctx = with_timeout ctx0 (12 * second) w;
          reaction = (\<lambda>vec. stableCBCReaction lib x509 ctx host vec repetitions per)
      in case establishCBCSession lib x509 ctx host per w of
           (None, w1) \<Rightarrow> (None, w1)
         | (Some None, w1) \<Rightarrow> (Some no_oracle, w1)
         | (Some (Some (s, c)), w1) \<Rightarrow>
             seq (reaction vecBadMAC) (\<lambda>r. case r of
               None \<Rightarrow> Pair None | Some None \<Rightarrow> Pair (Some no_oracle)
             | Some (Some badMAC) \<Rightarrow>
             seq (reaction vecBadPad) (\<lambda>r. case r of
               None \<Rightarrow> Pair None | Some None \<Rightarrow> Pair (Some no_oracle)
             | Some (Some badPad) \<Rightarrow>
             seq (reaction vecZeroLen) (\<lambda>r. case r of
               None \<Rightarrow> Pair None | Some None \<Rightarrow> Pair (Some no_oracle)
             | Some (Some zeroLen) \<Rightarrow>
                 Pair (Some (classifyCBC badMAC badPad zeroLen))))) (conn_close c w1))"

section \<open>Resources\<close>

text \<open>An operation that never panics, closes what it opens and is over at \<open>D\<close> if it starts before.\<close>

locale ends_by =
  fixes run :: "world \<Rightarrow> 'r option \<times> world" and D :: int
  assumes total: "fst (run w) \<noteq> None"
    and balanced: "run w = (r, w') \<Longrightarrow> w_open w' = w_open w"
    and forward: "run w = (r, w') \<Longrightarrow> w_now w \<le> w_now w'"
    and ends: "run w = (r, w') \<Longrightarrow> w_now w' \<le> max (w_now w) D"

lemma ends_by_pure: "ends_by (Pair (Some x)) D"
  by unfold_locales auto

lemma ends_by_seq:
  assumes f: "ends_by f D" and g: "\<And>x. ends_by (g (Some x)) D"
  shows "ends_by (seq f g) D"
proof
  fix w
  obtain x w1 where f1: "f w = (Some x, w1)" using ends_by.total [OF f, of w] by (cases "f w") auto
  then have s: "seq f g w = g (Some x) w1" by (simp add: seq_def)
  show "fst (seq f g w) \<noteq> None" using ends_by.total [OF g] by (simp add: s)
  fix r w'
  assume "seq f g w = (r, w')"
  then have g1: "g (Some x) w1 = (r, w')" by (simp add: s)
  show "w_open w' = w_open w" and "w_now w \<le> w_now w'" and "w_now w' \<le> max (w_now w) D"
    using ends_by.balanced [OF f f1] ends_by.balanced [OF g g1] ends_by.forward [OF f f1]
      ends_by.forward [OF g g1] ends_by.ends [OF f f1] ends_by.ends [OF g g1] by linarith+
qed

lemma ends_by_stable_rest:
  assumes e: "ends_by exch D"
  shows "ends_by (stable_rest equal exch first n) D"
proof (induction n)
  case 0
  then show ?case by (simp only: stable_none ends_by_pure)
next
  case (Suc n)
  then show ?case
    unfolding stable_rest_seq by (intro ends_by_seq [OF e]) (auto simp: ends_by_pure split: option.splits)
qed

lemma ends_by_stable:
  assumes e: "ends_by exch D"
  shows "ends_by (stable equal exch zero n) D"
proof (cases n)
  case 0
  then show ?thesis by (simp only: stable_none ends_by_pure)
next
  case (Suc m)
  then show ?thesis
    by (simp only: stable_seq, intro ends_by_seq [OF e])
       (auto simp: ends_by_pure ends_by_stable_rest [OF e] split: option.splits)
qed

text \<open>What \<open>establishCBCSession\<close> leaves behind: on success an open connection that is still in time.\<close>

lemma establish_world:
  assumes "establishCBCSession lib x509 (Some d) host per w = (r, w')"
  shows "r \<noteq> None \<and> w_now w \<le> w_now w' \<and>
    (case r of Some (Some (s, c)) \<Rightarrow> w_open w' = w_open w + 1 \<and> w_now w' \<le> c_now c \<and>
                 in_time (d + 2 * max 0 per) c
     | _ \<Rightarrow> w_open w' = w_open w \<and> w_now w' \<le> max (w_now w) (d + 2 * max 0 per))"
proof -
  obtain x w1 where dl: "dial (Some d) per w = (x, w1)" by (metis surj_pair)
  note D = dial_before [OF dl] dial_frame [OF dl]
  show ?thesis
  proof (cases x)
    case (Inl e)
    with assms dl D show ?thesis by (auto simp: establishCBCSession_def)
  next
    case (Inr c)
    obtain y c' w2 where b: "establish_body lib x509 host per (set_deadline per c) w1 = (y, c', w2)"
      by (metis prod_cases3)
    have now: "c_now c = w_now w1" using dial_conn [of "Some d" per w c w1] dl Inr by simp
    have "in_time (d + max 0 per) (set_deadline per c)"
      by (rule set_deadline_in_time) (use D(2) [OF Inr] now in simp)
    from establishing.step_time [OF b this] have t: "in_time (d + 2 * max 0 per) c'"
      by (simp add: algebra_simps)
    have f: "w_now w1 \<le> c_now c'" using establishing.step_forward [OF b] now by (simp add: set_deadline_def)
    have y: "y \<noteq> None" using establishing.no_panic [of lib x509 host per "set_deadline per c" w1] b by simp
    show ?thesis
      using assms dl Inr b t f y D establishing.step_world [OF b] in_time_now [OF t]
      by (auto simp: establishCBCSession_def conn_close_def split: option.splits)
  qed
qed

lemma sendCrafted_op: "step_op (sendCrafted s content bad p) 0"
  unfolding sendCrafted_def by (intro andThen_op0 encrypted_op step_ops)

lemma cbcExchange_body_op:
  "step_op (cbcExchange_body host vec timeout sess) (max 0 (cbc_response_timeout timeout))"
  unfolding cbcExchange_body_def
  by (intro case_prod_op andThen_op0 sendCrafted_op on_conn_op)
     (use readReaction_frame in \<open>auto simp: apfst_def map_prod_def split: prod.splits\<close>)

interpretation exchanging: step_op "cbcExchange_body host vec timeout sess"
    "max 0 (cbc_response_timeout timeout)" for host vec timeout sess
  by (rule cbcExchange_body_op)

definition exchange_end :: "int \<Rightarrow> int" where
  "exchange_end d = d + 7200 * millisecond"

lemma timeouts_le:
  "2 * max 0 (probe_per timeout) \<le> 6 * second"
  "2 * max 0 (probe_per timeout) + max 0 (cbc_response_timeout (probe_per timeout)) \<le> 7200 * millisecond"
  using probe_per_le [of timeout] by (auto simp: cbc_response_timeout_def second_def millisecond_def)

lemma cbcExchange_ends_by:
  "ends_by (cbcExchange lib x509 (Some d) host vec (probe_per timeout)) (exchange_end d)"
proof
  fix w
  let ?per = "probe_per timeout" and ?rt = "cbc_response_timeout (probe_per timeout)"
  obtain e w1 where e: "establishCBCSession lib x509 (Some d) host ?per w = (e, w1)" by (metis surj_pair)
  note E = establish_world [OF e]
  note late = timeouts_le [of timeout]
  have all: "r \<noteq> None \<and> w_open w' = w_open w \<and> w_now w \<le> w_now w' \<and> w_now w' \<le> max (w_now w) (exchange_end d)"
    if "cbcExchange lib x509 (Some d) host vec ?per w = (r, w')" for r w'
  proof (cases "\<exists>s c. e = Some (Some (s, c))")
    case True
    then obtain s c where sc: "e = Some (Some (s, c))" by blast
    obtain y c' w2 where b: "cbcExchange_body host vec ?per s c w1 = (y, c', w2)" by (metis prod_cases3)
    have t: "in_time (d + 2 * max 0 ?per) c" and o': "w_open w1 = w_open w + 1" and n: "w_now w \<le> w_now w1" "w_now w1 \<le> c_now c"
      using E sc by auto
    from exchanging.step_time [OF b t] in_time_now have "c_now c' \<le> d + 2 * max 0 ?per + max 0 ?rt" by blast
    then have "c_now c' \<le> exchange_end d" using late unfolding exchange_end_def by linarith
    moreover have "y \<noteq> None" using exchanging.no_panic [of host vec ?per s c w1] b by simp
    ultimately show ?thesis
      using that e sc b n o' exchanging.step_world [OF b] exchanging.step_forward [OF b]
      by (auto simp: cbcExchange_def conn_close_def)
  next
    case False
    then have "r = Some None" "w' = w1" "e = Some None"
      using that e E by (auto simp: cbcExchange_def split: option.splits)
    moreover have "d + 2 * max 0 ?per \<le> exchange_end d"
    proof -
      have "6 * second \<le> 7200 * millisecond" by (simp add: second_def millisecond_def)
      then show ?thesis using late(1) unfolding exchange_end_def by linarith
    qed
    then have "w_now w1 \<le> max (w_now w) (exchange_end d)"
      using E \<open>e = Some None\<close> by (auto simp: le_max_iff_disj)
    ultimately show ?thesis using E by simp
  qed
  show "fst (cbcExchange lib x509 (Some d) host vec ?per w) \<noteq> None"
    using all [OF prod.collapse [symmetric]] by simp
  fix r w'
  assume "cbcExchange lib x509 (Some d) host vec ?per w = (r, w')"
  from all [OF this] show "w_open w' = w_open w" and "w_now w \<le> w_now w'"
    and "w_now w' \<le> max (w_now w) (exchange_end d)" by auto
qed

interpretation cbc_exchange: ends_by "cbcExchange lib x509 (Some d) host vec (probe_per timeout)" "exchange_end d"
  for lib x509 d host vec timeout
  by (rule cbcExchange_ends_by)

lemma stableCBCReaction_ends_by:
  "ends_by (stableCBCReaction lib x509 (Some d) host vec n (probe_per timeout)) (exchange_end d)"
  unfolding stableCBCReaction_def by (rule ends_by_stable [OF cbc_exchange.ends_by_axioms])

lemma ProbeCBC_run:
  assumes d: "with_timeout ctx (12 * second) w = Some d"
  shows "\<exists>r w'. ProbeCBCPaddingOracles lib x509 ctx host timeout w = (Some r, w') \<and> w_open w' = w_open w \<and>
     w_now w \<le> w_now w' \<and> w_now w' \<le> max (w_now w) (exchange_end d)"
proof -
  let ?per = "probe_per timeout"
  define D where "D = exchange_end d"
  define rest where "rest = (\<lambda>badMAC. seq (stableCBCReaction lib x509 (Some d) host vecBadPad repetitions ?per) (\<lambda>r. case r of
               None \<Rightarrow> Pair None | Some None \<Rightarrow> Pair (Some no_oracle)
             | Some (Some badPad) \<Rightarrow>
             seq (stableCBCReaction lib x509 (Some d) host vecZeroLen repetitions ?per) (\<lambda>r. case r of
               None \<Rightarrow> Pair None | Some None \<Rightarrow> Pair (Some no_oracle)
             | Some (Some zeroLen) \<Rightarrow> Pair (Some (classifyCBC badMAC badPad zeroLen)))))"
  have rest: "ends_by (rest badMAC) D" for badMAC
    unfolding rest_def D_def
    by (intro ends_by_seq stableCBCReaction_ends_by)
       (auto split: option.splits intro!: ends_by_pure ends_by_seq stableCBCReaction_ends_by)
  define all where "all = seq (stableCBCReaction lib x509 (Some d) host vecBadMAC repetitions ?per) (\<lambda>r. case r of
      None \<Rightarrow> Pair None | Some None \<Rightarrow> Pair (Some no_oracle) | Some (Some badMAC) \<Rightarrow> rest badMAC)"
  have all: "ends_by all D"
    unfolding all_def using rest
    by (intro ends_by_seq) (auto simp: D_def ends_by_pure stableCBCReaction_ends_by split: option.splits)
  obtain e w1 where e: "establishCBCSession lib x509 (Some d) host ?per w = (e, w1)" by (metis surj_pair)
  note E = establish_world [OF e]
  have dD: "d + 2 * max 0 ?per \<le> D"
  proof -
    have "6 * second \<le> 7200 * millisecond" by (simp add: second_def millisecond_def)
    then show ?thesis using timeouts_le(1) [of timeout] unfolding D_def exchange_end_def by linarith
  qed
  show ?thesis
  proof (cases "\<exists>s c. e = Some (Some (s, c))")
    case True
    then obtain s c where sc: "e = Some (Some (s, c))" by blast
    have P: "ProbeCBCPaddingOracles lib x509 ctx host timeout w = all (conn_close c w1)"
      unfolding ProbeCBCPaddingOracles_def all_def rest_def Let_def d using e sc by simp
    obtain r w' where a: "all (conn_close c w1) = (Some r, w')"
      using ends_by.total [OF all, of "conn_close c w1"] by (cases "all (conn_close c w1)") auto
    have c: "c_now c \<le> D" "w_now w \<le> c_now c" "w_open w1 = w_open w + 1"
      using E sc dD in_time_now [of "d + 2 * max 0 ?per" c] by auto
    have "w_open w' = w_open w" using ends_by.balanced [OF all a] c(3) by (simp add: conn_close_def)
    moreover have "w_now w \<le> w_now w'" using ends_by.forward [OF all a] c(2) by (simp add: conn_close_def)
    moreover have "w_now w' \<le> D" using ends_by.ends [OF all a] c(1) by (simp add: conn_close_def)
    ultimately show ?thesis using P a by (auto simp: D_def)
  next
    case False
    then have "e = Some None" using E by (metis not_Some_eq surj_pair)
    with e E dD show ?thesis by (auto simp: ProbeCBCPaddingOracles_def d D_def le_max_iff_disj)
  qed
qed

lemma with_timeout_bounds:
  "\<exists>d. with_timeout ctx s w = Some d \<and> d \<le> w_now w + s \<and> (\<forall>t. ctx = Some t \<longrightarrow> d \<le> t)"
  by (cases ctx) (auto simp: with_timeout_def)

lemma ProbeCBC_bound:
  "\<exists>r w'. ProbeCBCPaddingOracles lib x509 ctx host timeout w = (Some r, w') \<and> w_open w' = w_open w \<and>
     w_now w \<le> w_now w' \<and> w_now w' \<le> w_now w + 19200 * millisecond \<and>
     (\<forall>t. ctx = Some t \<longrightarrow> w_now w' \<le> max (w_now w) (t + 7200 * millisecond))"
proof -
  from with_timeout_bounds [of ctx "12 * second" w] obtain d where
    d: "with_timeout ctx (12 * second) w = Some d" "d \<le> w_now w + 12 * second" "\<forall>t. ctx = Some t \<longrightarrow> d \<le> t" by blast
  from ProbeCBC_run [OF d(1), of lib x509 host timeout] obtain r w' where
    r: "ProbeCBCPaddingOracles lib x509 ctx host timeout w = (Some r, w')" "w_open w' = w_open w"
      "w_now w \<le> w_now w'" "w_now w' \<le> max (w_now w) (exchange_end d)" by blast
  have "max (w_now w) (exchange_end d) \<le> w_now w + 19200 * millisecond"
    using d(2) by (simp add: exchange_end_def second_def millisecond_def)
  moreover have "max (w_now w) (exchange_end d) \<le> max (w_now w) (t + 7200 * millisecond)" if "ctx = Some t" for t
    using d(3) that by (simp add: exchange_end_def max.coboundedI2)
  ultimately show ?thesis using r by (meson order.trans)
qed

lemma ProbeCBC_net_op: "net_op (ProbeCBCPaddingOracles lib x509 ctx host timeout) True (19200 * millisecond)"
proof
  fix w r w'
  assume "ProbeCBCPaddingOracles lib x509 ctx host timeout w = (r, w')"
  with ProbeCBC_bound [of lib x509 ctx host timeout w]
  show "w_open w' = w_open w" and "w_now w \<le> w_now w'" and "w_now w' \<le> w_now w + 19200 * millisecond"
    by auto
qed

lemma ProbeCBC_stops: "stops (ProbeCBCPaddingOracles lib x509 (Some d) host timeout) (d + 7200 * millisecond)"
  unfolding stops_def
proof (intro allI impI)
  fix w r w'
  assume "ProbeCBCPaddingOracles lib x509 (Some d) host timeout w = (r, w')"
  with ProbeCBC_bound [of lib x509 "Some d" host timeout w]
  show "w_now w' \<le> max (w_now w) (d + 7200 * millisecond)" by auto
qed

text \<open>
  The probe of the padding oracles cannot panic, whatever the server sends; it closes every
  connection it opens, and it is over 19.2 seconds after its start at the latest: no dial succeeds
  after its context's 12 seconds, and an exchange that has been dialled is cut off by its deadlines
  within 7.2 more (not, as the code's comment has it, within the 12 seconds).
\<close>

theorem ProbeCBCPaddingOracles_resources:
  "\<exists>r w'. ProbeCBCPaddingOracles lib x509 ctx host timeout w = (Some r, w') \<and> w_open w' = w_open w \<and>
     w_now w \<le> w_now w' \<and> w_now w' \<le> w_now w + 19200 * millisecond"
  using ProbeCBC_bound [of lib x509 ctx host timeout w] by blast

section \<open>The decision\<close>

text \<open>
  The verdicts, for any three reactions. None is reported exactly if all three are the same;
  GOLDENDOODLE exactly if bad MAC and bad padding differ; Zombie and Sleeping POODLE imply it and
  exclude each other; the zero-length verdict means that its reaction is unlike both others.
\<close>

theorem classifyCBC_verdicts:
  "(classifyCBC m p z = no_oracle \<longleftrightarrow> cbc_equal m p \<and> cbc_equal z p) \<and>
   (goldenDoodle (classifyCBC m p z) \<longleftrightarrow> \<not> cbc_equal m p) \<and>
   (zombiePoodle (classifyCBC m p z) \<longleftrightarrow> cr_kind p \<noteq> ''alert'' \<and> cr_kind p \<noteq> cr_kind m) \<and>
   (sleepingPoodle (classifyCBC m p z) \<longleftrightarrow> \<not> cbc_equal m p \<and> cr_kind p = ''alert'' \<and> cr_kind m = ''alert'') \<and>
   (cve20191559 (classifyCBC m p z) \<longleftrightarrow> \<not> cbc_equal z p \<and> \<not> cbc_equal z m) \<and>
   \<not> (zombiePoodle (classifyCBC m p z) \<and> sleepingPoodle (classifyCBC m p z))"
proof -
  have zm: "cbc_equal m p \<Longrightarrow> cbc_equal z m \<longleftrightarrow> cbc_equal z p"
    using cbc_same.sym [of m p] cbc_same.trans [of z m p] cbc_same.trans [of z p m] by blast
  have kind: "cbc_equal m p \<Longrightarrow> cr_kind p = cr_kind m"
    by (simp add: cbc_equal_def split: if_splits)
  have alert: "cr_kind p = ''alert'' \<Longrightarrow> cr_kind m = ''alert'' \<Longrightarrow>
      cbc_equal m p \<longleftrightarrow> cr_level p = cr_level m \<and> cr_desc p = cr_desc m"
    by (auto simp: cbc_equal_def)
  note defs = classifyCBC_def no_oracle_def Let_def
  have "classifyCBC m p z = no_oracle \<longleftrightarrow> cbc_equal m p \<and> cbc_equal z p"
    using zm by (auto simp: defs)
  moreover have "goldenDoodle (classifyCBC m p z) \<longleftrightarrow> \<not> cbc_equal m p" by (simp add: defs)
  moreover have zombie: "zombiePoodle (classifyCBC m p z) \<longleftrightarrow> cr_kind p \<noteq> ''alert'' \<and> cr_kind p \<noteq> cr_kind m"
    using kind by (auto simp: defs)
  moreover have sleeping: "sleepingPoodle (classifyCBC m p z) \<longleftrightarrow>
      \<not> cbc_equal m p \<and> cr_kind p = ''alert'' \<and> cr_kind m = ''alert''"
    using alert by (auto simp: defs)
  moreover have "cve20191559 (classifyCBC m p z) \<longleftrightarrow> \<not> cbc_equal z p \<and> \<not> cbc_equal z m"
    by (simp add: defs)
  ultimately show ?thesis by blast
qed

lemma stable_cbc_twice:
  "stable cbc_equal exch zero 2 w = (Some (Some r), w') \<longleftrightarrow>
     (\<exists>r' w1. exch w = (Some (Some r), w1) \<and> exch w1 = (Some (Some r'), w') \<and> cbc_equal r' r)"
  using cbc_same.stable_iff [of exch zero 1 w r w']
  by (auto simp: observes_Cons cbc_same.agree_def numeral_2_eq_2)

text \<open>Three stable reactions in a row are six exchanges that agree in pairs.\<close>

lemma three_stable_iff:
  "(\<exists>m w2 p w3 z. stable cbc_equal (ex a) zero 2 w = (Some (Some m), w2) \<and>
      stable cbc_equal (ex b) zero 2 w2 = (Some (Some p), w3) \<and>
      stable cbc_equal (ex c) zero 2 w3 = (Some (Some z), w') \<and> r = f m p z) \<longleftrightarrow>
   (\<exists>m p z. observes (twice ex [a, b, c]) w (pair_list [m, p, z]) w' \<and>
      cbc_equal (snd m) (fst m) \<and> cbc_equal (snd p) (fst p) \<and> cbc_equal (snd z) (fst z) \<and>
      r = f (fst m) (fst p) (fst z))" (is "?L \<longleftrightarrow> ?R")
proof
  assume ?L
  then obtain m m' v1 w2 p p' v2 w3 z z' v3 where
    "ex a w = (Some (Some m), v1)" "ex a v1 = (Some (Some m'), w2)"
    "ex b w2 = (Some (Some p), v2)" "ex b v2 = (Some (Some p'), w3)"
    "ex c w3 = (Some (Some z), v3)" "ex c v3 = (Some (Some z'), w')"
    "cbc_equal m' m" "cbc_equal p' p" "cbc_equal z' z" "r = f m p z"
    unfolding stable_cbc_twice by blast
  then show ?R
    by (intro exI [of _ "(m, m')"] exI [of _ "(p, p')"] exI [of _ "(z, z')"]) (simp add: observes_Cons)
next
  assume ?R
  then obtain m p z where
    o': "observes (twice ex [a, b, c]) w (pair_list [m, p, z]) w'"
    and eq: "cbc_equal (snd m) (fst m)" "cbc_equal (snd p) (fst p)" "cbc_equal (snd z) (fst z)"
    and r: "r = f (fst m) (fst p) (fst z)" by blast
  from o' obtain v1 w2 v2 w3 v3 where
    "ex a w = (Some (Some (fst m)), v1)" "ex a v1 = (Some (Some (snd m)), w2)"
    "ex b w2 = (Some (Some (fst p)), v2)" "ex b v2 = (Some (Some (snd p)), w3)"
    "ex c w3 = (Some (Some (fst z)), v3)" "ex c v3 = (Some (Some (snd z)), w')"
    by (auto simp: observes_Cons)
  with eq r show ?L unfolding stable_cbc_twice by blast
qed

text \<open>
  C6. What a verdict rests on, exactly. The probe reports an oracle if and only if a CBC session could
  be set up and six exchanges on fresh sessions, two for each of the three manipulations, all gave a
  reaction, the two of each manipulation the same one, and not all three manipulations the same; the
  verdicts are then those of the classification of the first reactions.
\<close>

theorem ProbeCBCPaddingOracles_evidence:
  "ProbeCBCPaddingOracles lib x509 ctx host timeout w = (Some r, w') \<and> r \<noteq> no_oracle \<longleftrightarrow>
    r \<noteq> no_oracle \<and>
    (\<exists>s c w1 m p z.
       establishCBCSession lib x509 (with_timeout ctx (12 * second) w) host (probe_per timeout) w =
         (Some (Some (s, c)), w1) \<and>
       observes (twice (\<lambda>vec. cbcExchange lib x509 (with_timeout ctx (12 * second) w) host vec (probe_per timeout))
           [vecBadMAC, vecBadPad, vecZeroLen])
         (conn_close c w1) (pair_list [m, p, z]) w' \<and>
       cbc_equal (snd m) (fst m) \<and> cbc_equal (snd p) (fst p) \<and> cbc_equal (snd z) (fst z) \<and>
       r = classifyCBC (fst m) (fst p) (fst z))"
proof (cases "r = no_oracle")
  case False
  let ?ctx = "with_timeout ctx (12 * second) w" and ?per = "probe_per timeout"
  let ?ex = "\<lambda>vec. cbcExchange lib x509 ?ctx host vec ?per"
  let ?st = "\<lambda>vec. stable cbc_equal (?ex vec) (reaction_of []) 2"
  have "ProbeCBCPaddingOracles lib x509 ctx host timeout w = (Some r, w') \<longleftrightarrow>
      (\<exists>s c w1. establishCBCSession lib x509 ?ctx host ?per w = (Some (Some (s, c)), w1) \<and>
         (\<exists>m w2 p w3 z. ?st vecBadMAC (conn_close c w1) = (Some (Some m), w2) \<and>
            ?st vecBadPad w2 = (Some (Some p), w3) \<and> ?st vecZeroLen w3 = (Some (Some z), w') \<and>
            r = classifyCBC m p z))"
    using False
    by (auto simp: ProbeCBCPaddingOracles_def stableCBCReaction_def repetitions_def seq_def Let_def
        simp del: stable.simps split: prod.splits option.splits)
  then show ?thesis
    using False
    unfolding three_stable_iff [of ?ex vecBadMAC "reaction_of []" _ vecBadPad vecZeroLen w' r classifyCBC]
    by blast
qed simp

section \<open>The stimuli\<close>

lemma length_cbc_request: "length (cbc_request host) = length host + 45"
  by (simp add: cbc_request_def Let_def)

lemma stimulus_judged:
  assumes "stimulus vec = (bad, p)" and "wf_session s"
  shows "judge_plain (clientWriteMAC s) (clientSeq s) t (zero_fill 16 (macThenPad s t (cbc_request host) bad p)) \<noteq>
      BadPadding"
proof (cases "p = - 1")
  case True
  then show ?thesis using judge_valid_pad [OF assms(2), of t "cbc_request host" bad] by simp
next
  case False
  then have "0 \<le> p" "p < 256" using assms(1) by (cases vec; auto)+
  then show ?thesis by (rule judge_override_padding)
qed

text \<open>
  C18. The stimuli are not what their names say. No vector of the probe has invalid padding: a correct
  receiver never answers one with a padding error. Moreover, when the host name's length is 15
  modulo 16, the record of the vector called \<open>vecBadPad\<close> is valid in every respect, padding and MAC,
  and is accepted as the HTTP request.
\<close>

theorem stimulus_verdicts:
  assumes "wf_session s" and "stimulus vec = (bad, p)"
    and "encryptRecord s t (macThenPad s t (cbc_request host) bad p) w = (Some r, w')"
  shows "received s t r \<noteq> BadPadding \<and>
    (vec = vecBadMAC \<longrightarrow> received s t r = BadMAC) \<and>
    (vec = vecBadPad \<and> length host mod 16 = 15 \<longrightarrow> received s t r = Genuine (cbc_request host))"
proof -
  note eq = received_encrypted [OF assms(1,3), of t]
  have "received s t r = BadMAC" if "vec = vecBadMAC"
    using that assms(2) unfolding eq by (auto simp: judge_valid_pad [OF assms(1)])
  moreover have "received s t r = Genuine (cbc_request host)"
    if "vec = vecBadPad" and "length host mod 16 = 15"
  proof -
    have "(length (cbc_request host) + 21 + nat 255) mod 16 = (length host mod 16 + 321) mod 16"
      by (simp add: length_cbc_request mod_simps add.commute)
    then have "(length (cbc_request host) + 21 + nat 255) mod 16 = 0" using that(2) by simp
    from judge_override_aligned [OF _ _ this, of s t False] show ?thesis
      using that(1) assms(2) unfolding eq by simp
  qed
  ultimately show ?thesis using stimulus_judged [OF assms(2,1)] unfolding eq by blast
qed

theorem stimulus_verdicts_witness:
  "\<exists>r w'. encryptRecord demo_session 0x17
       (macThenPad demo_session 0x17 (cbc_request ''www.example.com'') False 255) (answering []) = (Some r, w') \<and>
     received demo_session 0x17 r = Genuine (cbc_request ''www.example.com'')"
proof -
  from encrypt_answering obtain r w' where
    e: "encryptRecord demo_session 0x17
       (macThenPad demo_session 0x17 (cbc_request ''www.example.com'') False 255) (answering []) = (Some r, w')"
    by blast
  with stimulus_verdicts [OF demo_session_wf _ e, of vecBadPad] show ?thesis by auto
qed

section \<open>Alerts\<close>

lemma readReaction_alert:
  assumes "clean c" and "stream (set_read_deadline t c) = wrapTLS12Record recordAlert frag @ rest"
    and "2 \<le> length frag" and "length frag < 65536"
  shows "fst (readReaction t c) = \<lparr>cr_kind = ''alert'', cr_level = frag ! 0, cr_desc = frag ! 1\<rparr>"
proof -
  from tls12_record.read_wrapped [OF _ assms(2,4)] assms(1) obtain c1 c2 where
    "readRecordHeader (set_read_deadline t c) = (Inr (recordAlert, versionTLS12, length frag), c1)"
    "readFull (length frag) c1 = (Inr frag, c2)" by auto
  with assms(3) show ?thesis by (simp add: readReaction_def reaction_of_def)
qed

text \<open>
  C38. What an alert is recognised by. In a CBC session an alert is encrypted under a fresh explicit IV.
  Two such alerts count as the same reaction if and only if their IVs agree in the first two bytes:
  neither the alert nor the length of the record plays a role. So a server that always sends the
  same alert shows a reproducible reaction only by chance.
\<close>

theorem encrypted_alerts_same_iff:
  assumes "clean c" and "stream (set_read_deadline t c) = wrapTLS12Record recordAlert (iv @ ct) @ rest"
    and "clean c'" and "stream (set_read_deadline t c') = wrapTLS12Record recordAlert (iv' @ ct') @ rest'"
    and "length iv = 16" and "length iv' = 16" and "length ct < 65520" and "length ct' < 65520"
  shows "cbc_equal (fst (readReaction t c)) (fst (readReaction t c')) \<longleftrightarrow> take 2 iv = take 2 iv'"
proof -
  have "fst (readReaction t c) = \<lparr>cr_kind = ''alert'', cr_level = iv ! 0, cr_desc = iv ! 1\<rparr>"
    using readReaction_alert [OF assms(1,2)] assms(5,7) by (simp add: nth_append)
  moreover have "fst (readReaction t c') = \<lparr>cr_kind = ''alert'', cr_level = iv' ! 0, cr_desc = iv' ! 1\<rparr>"
    using readReaction_alert [OF assms(3,4)] assms(6,8) by (simp add: nth_append)
  moreover have "take 2 xs = [xs ! 0, xs ! 1]" if "length xs = 16" for xs :: bytes
    using that by (cases xs; cases "tl xs") (auto simp: numeral_2_eq_2)
  ultimately show ?thesis using assms(5,6) by (simp add: cbc_equal_def)
qed

text \<open>A connection on which some bytes have arrived.\<close>

definition arrived :: "bytes \<Rightarrow> conn" where
  "arrived bs = open_conn 0 \<lparr>p_werr = \<lambda>_. None, p_react = \<lambda>_. [\<lparr>sg_delay = 0, sg_data = bs, sg_err = None\<rparr>]\<rparr>"

lemma arrived_stream: "clean (arrived bs)" "stream (set_read_deadline 1 (arrived bs)) = bs"
  by (simp_all add: arrived_def open_conn_def enqueue_def clean_def clean_arrivals_def stream_def
      set_read_deadline_def expired_def)

theorem encrypted_alerts_same_iff_witness:
  "\<not> cbc_equal (fst (readReaction 1 (arrived (wrapTLS12Record recordAlert (replicate 16 1 @ replicate 32 0)))))
     (fst (readReaction 1 (arrived (wrapTLS12Record recordAlert (replicate 16 2 @ replicate 32 0)))))"
  using encrypted_alerts_same_iff [of "arrived (wrapTLS12Record recordAlert (replicate 16 1 @ replicate 32 0))" 1
      "replicate 16 1" "replicate 32 0" "[]" "arrived (wrapTLS12Record recordAlert (replicate 16 2 @ replicate 32 0))"
      "replicate 16 2" "replicate 32 0" "[]"]
  by (simp add: arrived_stream numeral_2_eq_2 take_Cons')

end
