(* ===== verification/Vulns.thy ===== *)
theory Vulns
  imports Offline Rating Ciphers Probes Renegotiation Heartbleed Robot CbcOracle
begin

text \<open>
  The vulnerability layer of pkg/tlsscan/vulns.go: the name searches of the cipher summary, the choice
  of the version the fallback probe pins, and \<open>probeVulnerabilities\<close>, which runs every active probe.
  An outcome \<open>None\<close> is a panic, which leaves the scan at once.
\<close>

section \<open>Searching the cipher names\<close>

fun containsName :: "string list \<Rightarrow> string \<Rightarrow> bool" where
  "containsName [] sub = False"
| "containsName (n # ns) sub = (if length sub > 0 \<and> indexOf n sub \<ge> 0 then True else containsName ns sub)"

definition hasCBC :: "cipher_summary \<Rightarrow> bool" where
  "hasCBC c \<longleftrightarrow> containsName (Strong c) ''CBC'' \<or> containsName (Weak c) ''CBC'' \<or> containsName (Insecure c) ''CBC''"

definition has3DES :: "cipher_summary \<Rightarrow> bool" where
  "has3DES c \<longleftrightarrow> containsName (Strong c) ''3DES'' \<or> containsName (Weak c) ''3DES'' \<or> containsName (Insecure c) ''3DES''"

section \<open>The fallback version\<close>

text \<open>
  The list of supported versions is built as the code builds it; the two indexings are in range by
  the preceding checks (\<open>fallback_in_range\<close> below).
\<close>

definition supported_versions :: "protocols \<Rightarrow> nat list" where
  "supported_versions p =
     (let supported = [];
          supported = (if TLS10 p then supported @ [0x0301] else supported);
          supported = (if TLS11 p then supported @ [0x0302] else supported)
      in if TLS12 p then supported @ [0x0303] else supported)"

definition fallbackProbeVersion :: "protocols \<Rightarrow> nat" where
  "fallbackProbeVersion p =
     (let supported = supported_versions p;
          highestSub13Count = length supported
      in if highestSub13Count = 0 then 0
         else if TLS13 p then supported ! (highestSub13Count - 1)
         else if highestSub13Count < 2 then 0
         else supported ! (highestSub13Count - 2))"

lemma fallback_in_range:
  "length (supported_versions p) \<noteq> 0 \<Longrightarrow> length (supported_versions p) - 1 < length (supported_versions p)"
  "\<not> length (supported_versions p) < 2 \<Longrightarrow> length (supported_versions p) - 2 < length (supported_versions p)"
  by auto

text \<open>The reference: all versions the scan negotiated with crypto/tls, greatest first.\<close>

definition negotiated :: "protocols \<Rightarrow> nat list" where
  "negotiated p = map snd (filter fst
     [(TLS13 p, VersionTLS13), (TLS12 p, VersionTLS12), (TLS11 p, VersionTLS11), (TLS10 p, VersionTLS10)])"

text \<open>
  The downgrade target is the second-highest supported version: \<open>fallbackProbeVersion\<close> picks the
  second element of the supported versions in falling order, and says that the probe does not apply
  (0) exactly when fewer than two are supported. In particular the target is never TLS 1.3.
\<close>

theorem fallbackProbeVersion_second_highest:
  "fallbackProbeVersion p = (if length (negotiated p) < 2 then 0 else negotiated p ! 1) \<and>
   fallbackProbeVersion p \<in> {0, VersionTLS10, VersionTLS11, VersionTLS12}"
  by (cases "TLS10 p"; cases "TLS11 p"; cases "TLS12 p"; cases "TLS13 p")
     (simp_all add: fallbackProbeVersion_def supported_versions_def negotiated_def Let_def
       VersionTLS10_def VersionTLS11_def VersionTLS12_def VersionTLS13_def numeral_2_eq_2)

section \<open>The probes in sequence\<close>

text \<open>Continuing after a step that may panic.\<close>

definition seqp ::
  "(world \<Rightarrow> 'a option \<times> world) \<Rightarrow> ('a \<Rightarrow> world \<Rightarrow> 'b option \<times> world) \<Rightarrow> world \<Rightarrow> 'b option \<times> world" where
  "seqp f g = seq f (\<lambda>r. case r of None \<Rightarrow> Pair None | Some x \<Rightarrow> g x)"

text \<open>The first part of \<open>probeVulnerabilities\<close>: what is inferred without a connection.\<close>

definition inferred :: "result \<Rightarrow> vulnerabilities" where
  "inferred r =
     (let v = no_vulnerabilities;
          v = v\<lparr>v_Poodle := SSL3 (r_Protocols r)\<rparr>;
          v = v\<lparr>v_Drown := SSL2 (r_Protocols r)\<rparr>;
          v = v\<lparr>v_Beast := TLS10 (r_Protocols r) \<and> hasCBC (r_Ciphers r)\<rparr>
      in v\<lparr>v_Sweet32 := has3DES (r_Ciphers r)\<rparr>)"

text \<open>The active probes follow, in the order of the code.\<close>

definition probeVulnerabilities ::
  "kex_lib \<Rightarrow> (bytes \<Rightarrow> rsa_key option) \<Rightarrow> int option \<Rightarrow> options \<Rightarrow> result \<Rightarrow> world \<Rightarrow>
   vulnerabilities option \<times> world" where
  "probeVulnerabilities lib x509 ctx opts r =
     (let v = inferred r
      in seq (Heartbleed ctx (Timeout opts)) (\<lambda>(hb, err).
         let v = (case err of None \<Rightarrow> v\<lparr>v_Heartbleed := hb\<rparr> | Some e \<Rightarrow> v) in
         seq (ProbeExportRSA ctx (Timeout opts)) (\<lambda>freak.
         let v = v\<lparr>v_Freak := freak\<rparr> in
         seq (ProbeExportDH ctx (Timeout opts)) (\<lambda>logjam.
         let v = v\<lparr>v_Logjam := logjam\<rparr> in
         seqp (ProbeInsecureRenegotiation ctx (Timeout opts)) (\<lambda>reneg.
         let v = v\<lparr>v_InsecureRenegotiation := reneg\<rparr> in
         seqp (ProbeROBOT x509 ctx (Host opts) (Timeout opts)) (\<lambda>robot.
         let v = v\<lparr>v_Robot := robot\<rparr>;
             fb = fallbackProbeVersion (r_Protocols r)
         in seq (if fb \<noteq> 0 then ProbeFallbackSCSVMissing ctx fb (Timeout opts) else Pair (v_TLSFallbackSCSV v))
              (\<lambda>scsv.
         let v = v\<lparr>v_TLSFallbackSCSV := scsv\<rparr> in
         seqp (ProbeCBCPaddingOracles lib x509 ctx (Host opts) (Timeout opts)) (\<lambda>cbc.
         Pair (Some (v\<lparr>v_GoldenDoodle := goldenDoodle cbc, v_ZombiePoodle := zombiePoodle cbc,
           v_SleepingPoodle := sleepingPoodle cbc, v_ZeroLengthPaddingCVE := cve20191559 cbc\<rparr>))))))))))"

section \<open>Resources\<close>

lemma net_op_seqp:
  assumes f: "net_op f b m" and g: "\<And>x. net_op (g x) b n" and "0 \<le> n"
  shows "net_op (seqp f g) b (m + n)"
  unfolding seqp_def
  by (rule net_op_seq [OF f]) (auto intro: g net_op_mono [OF net_op_pure] assms(3) split: option.splits)

lemma stops_seqp:
  assumes f: "stops f D" and g: "\<And>x. stops (g x) D"
  shows "stops (seqp f g) D"
  unfolding seqp_def
  by (rule stops_seq [OF f]) (auto intro: g stops_pure split: option.splits)

lemma net_op_if: "net_op f b n \<Longrightarrow> 0 \<le> n \<Longrightarrow> net_op (if c then f else Pair x) b n"
  by (auto intro: net_op_mono [OF net_op_pure])

lemma stops_if: "stops f D \<Longrightarrow> stops (if c then f else Pair x) D"
  by (auto intro: stops_pure)

lemma probeVulnerabilities_net_op:
  "net_op (probeVulnerabilities lib x509 ctx opts r) (0 < Timeout opts)
     (4 * max 0 (Timeout opts) + 147200 * millisecond)"
proof -
  have nn: "0 \<le> 8 * second" "(0 :: int) \<le> 0" by (simp_all add: second_def)
  have hb: "net_op (Heartbleed ctx (Timeout opts)) (0 < Timeout opts) (4 * max 0 (Timeout opts))"
    by (rule net_op_mono [OF Heartbleed_net_op]) auto
  have cbc: "net_op (ProbeCBCPaddingOracles lib x509 ctx (Host opts) (Timeout opts)) (0 < Timeout opts)
      (19200 * millisecond)"
    by (rule net_op_mono [OF ProbeCBC_net_op]) auto
  have "net_op (probeVulnerabilities lib x509 ctx opts r) (0 < Timeout opts)
      (4 * max 0 (Timeout opts) + (8 * second + (8 * second + (8 * second + (96 * second +
         (8 * second + (19200 * millisecond + 0)))))))"
    unfolding probeVulnerabilities_def Let_def prod.case_eq_if
    by (intro net_op_seq net_op_seqp net_op_if hb cbc export_net_op ProbeInsecureRenegotiation_net_op
          ProbeROBOT_net_op ProbeFallbackSCSVMissing_net_op net_op_pure nn)
       (simp_all add: second_def millisecond_def)
  then show ?thesis by (simp add: second_def millisecond_def algebra_simps)
qed

lemma probeVulnerabilities_stops:
  "stops (probeVulnerabilities lib x509 (Some d) opts r)
     (d + max (3 * max 0 (Timeout opts)) (7200 * millisecond))" (is "stops _ ?D")
proof -
  have four: "d + 4 * second \<le> ?D" "d + 4500 * millisecond \<le> ?D" "d + 7200 * millisecond \<le> ?D"
    "d + 3 * max 0 (Timeout opts) \<le> ?D"
    by (auto simp: second_def millisecond_def)
  note parts = stops_mono [OF Heartbleed_stops four(4)] stops_mono [OF signalling_stops(1) four(1)]
    stops_mono [OF signalling_stops(2) four(1)] stops_mono [OF signalling_stops(3) four(1)]
    stops_mono [OF ProbeInsecureRenegotiation_stops four(1)] stops_mono [OF ProbeROBOT_stops four(2)]
    stops_mono [OF ProbeCBC_stops four(3)]
  show ?thesis
    unfolding probeVulnerabilities_def Let_def prod.case_eq_if
    by (intro stops_seq stops_seqp stops_if stops_pure parts)
qed

section \<open>Panics\<close>

lemma snd_seq: "seq f g w = g (fst (f w)) (snd (f w))"
  by (simp add: seq_def split: prod.splits)

lemma seqp_total: "fst (f w) \<noteq> None \<Longrightarrow> seqp f g w = g (the (fst (f w))) (snd (f w))"
  by (auto simp: seqp_def snd_seq split: option.splits)

lemma seqp_none_iff:
  "fst (seqp f g w) = None \<longleftrightarrow> fst (f w) = None \<or> fst (g (the (fst (f w))) (snd (f w))) = None"
  by (auto simp: seqp_def snd_seq split: option.splits)

lemma ProbeCBC_total: "fst (ProbeCBCPaddingOracles lib x509 ctx host timeout w) \<noteq> None"
  using ProbeCBC_bound [of lib x509 ctx host timeout w] by auto

text \<open>The world in which the ROBOT probe starts: after the four probes before it.\<close>

definition before_robot :: "int option \<Rightarrow> options \<Rightarrow> world \<Rightarrow> world" where
  "before_robot ctx opts w =
     snd (ProbeInsecureRenegotiation ctx (Timeout opts) (snd (ProbeExportDH ctx (Timeout opts)
       (snd (ProbeExportRSA ctx (Timeout opts) (snd (Heartbleed ctx (Timeout opts) w)))))))"

text \<open>
  The only panic of the vulnerability layer is that of the ROBOT probe: \<open>probeVulnerabilities\<close>
  panics if and only if \<open>ProbeROBOT\<close> does when its turn comes (which is when the host presents an RSA
  modulus of fewer than 11 bytes). No other probe can, whatever the host sends.
\<close>

theorem probeVulnerabilities_panics_iff:
  "fst (probeVulnerabilities lib x509 ctx opts r w) = None \<longleftrightarrow>
     fst (ProbeROBOT x509 ctx (Host opts) (Timeout opts) (before_robot ctx opts w)) = None"
  by (simp add: probeVulnerabilities_def Let_def snd_seq seqp_none_iff reneg_no_panic ProbeCBC_total
      before_robot_def case_prod_unfold)

section \<open>Hosts that cannot be reached\<close>

lemma sees_seqp:
  "sees ctx f (\<lambda>r. r = Some x) \<Longrightarrow> sees ctx (g x) Q \<Longrightarrow> sees ctx (seqp f g) Q"
  unfolding seqp_def by (erule sees_seq) auto

lemma sees_if: "sees ctx f P \<Longrightarrow> P x \<Longrightarrow> sees ctx (if c then f else Pair x) P"
  by (simp add: sees_pure)

lemma sees_Heartbleed: "sees ctx (Heartbleed ctx timeout) (\<lambda>r. fst r = False \<and> snd r \<noteq> None)"
  unfolding Heartbleed_def by (rule sees_mono [OF sees_with_conn]) auto

lemma sees_signalling:
  "sees ctx (ProbeExportRSA ctx timeout) (\<lambda>r. r = False)"
  "sees ctx (ProbeExportDH ctx timeout) (\<lambda>r. r = False)"
  "sees ctx (ProbeFallbackSCSVMissing ctx version timeout) (\<lambda>r. r = False)"
  "sees ctx (ProbeInsecureRenegotiation ctx timeout) (\<lambda>r. r = Some False)"
  unfolding ProbeExportRSA_def ProbeExportDH_def ProbeFallbackSCSVMissing_def serverSelectsOffered_def
    ProbeInsecureRenegotiation_def Let_def
  by (rule sees_false)+

lemma sees_ROBOT: "sees ctx (ProbeROBOT x509 ctx host timeout) (\<lambda>r. r = Some False)"
proof -
  have "sees ctx (robotServerRSAKey x509 ctx host (probe_per timeout)) (\<lambda>r. r = Some None)"
    unfolding robotServerRSAKey_def by (rule sees_false)
  then show ?thesis unfolding ProbeROBOT_seq by (rule sees_seq) (simp add: sees_pure)
qed

lemma sees_CBC: "sees ctx (ProbeCBCPaddingOracles lib x509 ctx host timeout) (\<lambda>r. r = Some no_oracle)"
  unfolding sees_def
proof (intro allI impI)
  fix w
  assume off: "offline ctx w"
  let ?ctx = "with_timeout ctx (12 * second) w"
  have "offline ?ctx w" using off by (auto simp: offline_def with_timeout_def)
  from offline_dial [OF this] obtain e w' where d: "dial ?ctx (probe_per timeout) w = (Inl e, w')" by blast
  then have "w_net w' = w_net w" "w_now w \<le> w_now w'"
    using dial_frame(1) [OF d] by (auto simp: dial_def Let_def split: dial_outcome.splits if_splits)
  with off have "offline ctx w'" by (auto simp: offline_def refusing_def)
  with d show "\<exists>r w'. ProbeCBCPaddingOracles lib x509 ctx host timeout w = (r, w') \<and> r = Some no_oracle \<and>
      offline ctx w'"
    by (simp add: ProbeCBCPaddingOracles_def establishCBCSession_def Let_def)
qed

lemma sees_vulnerabilities:
  "sees ctx (probeVulnerabilities lib x509 ctx opts r) (\<lambda>v. v = Some (inferred r))"
  unfolding probeVulnerabilities_def Let_def prod.case_eq_if
  apply (rule sees_seq [OF sees_Heartbleed])
  apply (rule sees_seq [OF sees_signalling(1)])
  apply (rule sees_seq [OF sees_signalling(2)])
  apply (rule sees_seqp [OF sees_signalling(4)])
  apply (rule sees_seqp [OF sees_ROBOT])
  apply (rule sees_seq [OF sees_if [OF sees_signalling(3)]])
   apply (auto simp: inferred_def no_vulnerabilities_def Let_def) [1]
  apply (rule sees_seqp [OF sees_CBC])
  apply (rule sees_pure)
  apply (auto simp: inferred_def no_vulnerabilities_def no_oracle_def Let_def)
  done

section \<open>What the inferred flags mean\<close>

lemma containsName_iff: "containsName ns sub \<longleftrightarrow> sub \<noteq> [] \<and> list_ex (\<lambda>n. containsSubstr n sub) ns"
  by (induction ns) (auto simp: indexOf_nonneg)

lemma catalog_names:
  "list_all (\<lambda>m. (containsSubstr (cm_name m) ''3DES'' \<longleftrightarrow> cm_id m = 0x000a) \<and>
     (containsSubstr (cm_name m) ''CBC'' \<longleftrightarrow> cm_id m = 0xc013 \<or> cm_id m = 0x002f \<or> cm_id m = 0x000a))
   cipherCatalog"
  by (simp add: cipherCatalog_def meta_def containsSubstr_sublist sublist_Cons_right)

lemma catalog_classes: "list_all (\<lambda>m. cm_class m \<in> {''strong'', ''weak'', ''insecure''}) cipherCatalog"
  by (simp add: cipherCatalog_def meta_def)

lemma list_ex_classes:
  assumes "set acc \<subseteq> set cipherCatalog"
  shows "list_ex P (names_of ''strong'' acc) \<or> list_ex P (names_of ''weak'' acc) \<or> list_ex P (names_of ''insecure'' acc) \<longleftrightarrow>
    (\<exists>m \<in> set acc. P (cm_name m))"
proof -
  have "cm_class m \<in> {''strong'', ''weak'', ''insecure''}" if "m \<in> set acc" for m
    using catalog_classes assms that unfolding list_all_iff by blast
  then show ?thesis by (auto simp: names_of_def list_ex_iff)
qed

lemma accepted_subset: "set (accepted order oks) \<subseteq> set order"
  by (auto simp: accepted_def dest: set_zip_leftD)

text \<open>
  C36. Sweet32 and BEAST, traced to the wire: whatever the iteration order of the catalog, the summary
  the enumeration produces makes the inferred Sweet32 flag true exactly if the server accepted suite
  0x000a, and the BEAST flag exactly if TLS 1.0 was negotiated and one of the suites 0xc013, 0x002f,
  0x000a was accepted (in the TLS 1.2 handshakes of the enumeration, not in TLS 1.0).
\<close>

theorem inferred_flags_iff:
  assumes "set order \<subseteq> set cipherCatalog"
    and "r_Ciphers r = fst (fst (probeCiphers order tls ctx opts w))"
    and "ids = cm_id ` set (accepted order (accepts tls ctx opts order w))"
  shows "(v_Sweet32 (inferred r) \<longleftrightarrow> 0x000a \<in> ids) \<and>
    (v_Beast (inferred r) \<longleftrightarrow> TLS10 (r_Protocols r) \<and> ids \<inter> {0xc013, 0x002f, 0x000a} \<noteq> {})"
proof -
  define acc where "acc = accepted order (accepts tls ctx opts order w)"
  have sub: "set acc \<subseteq> set cipherCatalog" using assms(1) accepted_subset unfolding acc_def by blast
  have r: "Strong (r_Ciphers r) = names_of ''strong'' acc" "Weak (r_Ciphers r) = names_of ''weak'' acc"
    "Insecure (r_Ciphers r) = names_of ''insecure'' acc"
    using assms(2) probeCiphers_loop_eq [of tls ctx opts order "no_ciphers" False w]
    by (simp_all add: probeCiphers_def acc_def Let_def no_ciphers_def)
  have ids: "ids = cm_id ` set acc" using assms(3) by (simp add: acc_def)
  have names: "containsSubstr (cm_name m) ''3DES'' \<longleftrightarrow> cm_id m = 0x000a"
    "containsSubstr (cm_name m) ''CBC'' \<longleftrightarrow> cm_id m = 0xc013 \<or> cm_id m = 0x002f \<or> cm_id m = 0x000a"
    if "m \<in> set acc" for m
    using catalog_names sub that unfolding list_all_iff by blast+
  have "has3DES (r_Ciphers r) \<longleftrightarrow> (\<exists>m \<in> set acc. containsSubstr (cm_name m) ''3DES'')"
    by (simp add: has3DES_def containsName_iff r list_ex_classes [OF sub])
  moreover have "hasCBC (r_Ciphers r) \<longleftrightarrow> (\<exists>m \<in> set acc. containsSubstr (cm_name m) ''CBC'')"
    by (simp add: hasCBC_def containsName_iff r list_ex_classes [OF sub])
  ultimately show ?thesis using names by (auto simp: inferred_def ids Let_def)
qed

theorem inferred_flags_iff_witness:
  "\<exists>r. r_Ciphers r =
       fst (fst (probeCiphers cipherCatalog (picky_tls 0x000a) None demo_options (answering []))) \<and>
     v_Sweet32 (inferred r) \<and> v_Beast (inferred r)"
proof -
  let ?run = "fst (fst (probeCiphers cipherCatalog (picky_tls 0x000a) None demo_options (answering [])))"
  define r where "r = empty_result\<lparr>r_Ciphers := ?run, r_Protocols := no_protocols\<lparr>TLS10 := True\<rparr>\<rparr>"
  have "cm_id ` set (accepted cipherCatalog (accepts (picky_tls 0x000a) None demo_options cipherCatalog (answering [])))
      = {0x000a}"
    by (subst accepts_stable [of listening, OF picky_accepts])
       (auto simp: listening_def cipherCatalog_def meta_def)
  from inferred_flags_iff [OF subset_refl, of r, OF _ this [symmetric]]
  have "v_Sweet32 (inferred r) \<and> v_Beast (inferred r)" by (simp add: r_def)
  then show ?thesis by (intro exI [of _ r]) (simp add: r_def)
qed

text \<open>
  No false alarm from silence. Where no dial can succeed, because the host refuses every connection or
  the context has expired, the vulnerability layer does not panic and reports nothing beyond what it
  infers from the configuration it is given.
\<close>

theorem probeVulnerabilities_offline:
  assumes "offline ctx w"
  shows "fst (probeVulnerabilities lib x509 ctx opts r w) = Some (inferred r)"
  using sees_D [OF sees_vulnerabilities assms] by blast

text \<open>A host that refuses every connection, and key exchange functions that always fail.\<close>

definition refusing_world :: world where
  "refusing_world = (answering [])\<lparr>w_net := \<lambda>_. Refused 0 err_eof\<rparr>"

lemma refusing_world_offline: "offline ctx refusing_world"
  by (auto simp: offline_def refusing_def refusing_world_def)

definition no_kex :: kex_lib where
  "no_kex = \<lparr>ec_generate = \<lambda>_ _. None, ec_point = \<lambda>_ _. [], ec_valid = \<lambda>_ _. False, ec_shared = \<lambda>_ _ _. None,
     rsa_encrypt = \<lambda>_ _ _. None\<rparr>"

theorem probeVulnerabilities_offline_witness:
  "fst (probeVulnerabilities no_kex (\<lambda>_. None) None demo_options empty_result refusing_world) =
     Some no_vulnerabilities"
  using probeVulnerabilities_offline [OF refusing_world_offline, of no_kex "\<lambda>_. None" None demo_options empty_result]
  by (simp add: inferred_def Let_def empty_result_def no_vulnerabilities_def hasCBC_def has3DES_def no_ciphers_def
      no_protocols_def)

end
