(* ===== verification/Guard.thy ===== *)
theory Guard
  imports Pkcs1
begin

text \<open>
  The target guard of pkg/tlsscan/guard.go. The parts of Go's \<open>strings\<close> and \<open>net\<close> packages it uses are
  modelled as documented: \<open>ToLower\<close> and \<open>TrimSpace\<close> on ASCII text, \<open>HasSuffix\<close>, \<open>ParseIP\<close> with both
  address families, and the classification methods of \<open>net.IP\<close> on the 4- and 16-byte forms.
  \<open>lookupIP\<close> stands for the resolver.
\<close>

section \<open>Strings\<close>

definition lower_char :: "char \<Rightarrow> char" where
  "lower_char c = (if 65 \<le> (of_char c :: nat) \<and> (of_char c :: nat) \<le> 90
     then char_of ((of_char c :: nat) + 32) else c)"

definition ToLower :: "string \<Rightarrow> string" where
  "ToLower s = map lower_char s"

definition is_space :: "char \<Rightarrow> bool" where
  "is_space c \<longleftrightarrow> (of_char c :: nat) \<in> {9, 10, 11, 12, 13, 32}"

definition TrimSpace :: "string \<Rightarrow> string" where
  "TrimSpace s = rev (dropWhile is_space (rev (dropWhile is_space s)))"

definition HasSuffix :: "string \<Rightarrow> string \<Rightarrow> bool" where
  "HasSuffix s suf \<longleftrightarrow> length suf \<le> length s \<and> drop (length s - length suf) s = suf"

section \<open>ParseIP\<close>

definition digit :: "char \<Rightarrow> nat option" where
  "digit c = (let n = (of_char c :: nat) in if 48 \<le> n \<and> n \<le> 57 then Some (n - 48) else None)"

definition hex_digit :: "char \<Rightarrow> nat option" where
  "hex_digit c =
     (let n = (of_char c :: nat)
      in if 48 \<le> n \<and> n \<le> 57 then Some (n - 48)
         else if 97 \<le> n \<and> n \<le> 102 then Some (n - 87)
         else if 65 \<le> n \<and> n \<le> 70 then Some (n - 55)
         else None)"

text \<open>
  The loop over the octets of a dotted address: the text still to read, the value and digit count of
  the current octet, whether a dot may come next, and the fields so far.
\<close>

fun ipv4_fields :: "string \<Rightarrow> nat \<Rightarrow> nat \<Rightarrow> byte list \<Rightarrow> byte list option" where
  "ipv4_fields [] val digLen octets =
     (if length octets < 3 \<or> digLen = 0 then None else Some (octets @ [of_nat val]))"
| "ipv4_fields (c # s) val digLen octets =
     (case digit c of
        Some d \<Rightarrow>
          if digLen = 1 \<and> val = 0 then None
          else if val * 10 + d > 255 then None
          else ipv4_fields s (val * 10 + d) (digLen + 1) octets
      | None \<Rightarrow>
          if c = CHR ''.''
          then if digLen = 0 \<or> s = [] then None
               else if length octets = 3 then None
               else ipv4_fields s 0 0 (octets @ [of_nat val])
          else None)"

definition parseIPv4 :: "string \<Rightarrow> byte list option" where
  "parseIPv4 s = ipv4_fields s 0 0 []"

text \<open>The hexadecimal digits at the start of a string: their count, their value and the rest.\<close>

fun hex_prefix :: "string \<Rightarrow> nat \<Rightarrow> nat \<Rightarrow> nat \<times> nat \<times> string" where
  "hex_prefix [] off acc = (off, acc, [])"
| "hex_prefix (c # s) off acc =
     (case hex_digit c of
        None \<Rightarrow> (off, acc, c # s)
      | Some d \<Rightarrow> hex_prefix s (off + 1) (acc * 16 + d))"

text \<open>
  The loop over the 16-bit groups, with the bytes so far and the position of the ellipsis; the
  remaining text is not empty. The result also says where the ellipsis was.
\<close>

fun ipv6_groups :: "nat \<Rightarrow> string \<Rightarrow> byte list \<Rightarrow> nat option \<Rightarrow> (byte list \<times> nat option) option" where
  "ipv6_groups 0 s ip ellipsis = (if s = [] then Some (ip, ellipsis) else None)"
| "ipv6_groups (Suc n) s ip ellipsis =
     (if length ip \<ge> 16 then (if s = [] then Some (ip, ellipsis) else None)
      else case hex_prefix s 0 0 of
        (off, acc, r) \<Rightarrow>
          if off = 0 \<or> off > 4 then None
          else if r \<noteq> [] \<and> hd r = CHR ''.''
          then if ellipsis = None \<and> length ip \<noteq> 12 then None
               else if length ip + 4 > 16 then None
               else map_option (\<lambda>q. (ip @ q, ellipsis)) (parseIPv4 s)
          else let ip' = ip @ put16 acc in
               if r = [] then Some (ip', ellipsis)
               else if hd r \<noteq> CHR '':'' \<or> tl r = [] then None
               else if hd (tl r) = CHR '':''
               then if ellipsis \<noteq> None then None
                    else if tl (tl r) = [] then Some (ip', Some (length ip'))
                    else ipv6_groups n (tl (tl r)) ip' (Some (length ip'))
               else ipv6_groups n (tl r) ip' ellipsis)"

definition expand_ellipsis :: "byte list \<times> nat option \<Rightarrow> byte list option" where
  "expand_ellipsis r =
     (case r of (ip, ellipsis) \<Rightarrow>
        if length ip < 16
        then (case ellipsis of
                None \<Rightarrow> None
              | Some e \<Rightarrow> Some (take e ip @ replicate (16 - length ip) 0 @ drop e ip))
        else if ellipsis \<noteq> None then None else Some ip)"

definition parseIPv6 :: "string \<Rightarrow> byte list option" where
  "parseIPv6 s =
     (if CHR ''%'' \<in> set s then None
      else if take 2 s = ''::''
      then if drop 2 s = [] then Some (replicate 16 0)
           else Option.bind (ipv6_groups 8 (drop 2 s) [] (Some 0)) expand_ellipsis
      else Option.bind (ipv6_groups 8 s [] None) expand_ellipsis)"

text \<open>IPv4 addresses are returned in their 16-byte form; an address with a zone is no address.\<close>

definition v4_in_v6 :: "bytes \<Rightarrow> bytes" where
  "v4_in_v6 ip4 = replicate 10 0 @ [0xff, 0xff] @ ip4"

fun ParseAddr_at :: "string \<Rightarrow> string \<Rightarrow> bytes option" where
  "ParseAddr_at whole [] = None"
| "ParseAddr_at whole (c # s) =
     (if c = CHR ''.'' then map_option v4_in_v6 (parseIPv4 whole)
      else if c = CHR '':'' then parseIPv6 whole
      else if c = CHR ''%'' then None
      else ParseAddr_at whole s)"

definition ParseIP :: "string \<Rightarrow> bytes option" where
  "ParseIP s = ParseAddr_at s s"

section \<open>Address classes\<close>

definition To4 :: "bytes \<Rightarrow> bytes option" where
  "To4 ip =
     (if length ip = 4 then Some ip
      else if length ip = 16 \<and> take 10 ip = replicate 10 0 \<and> ip ! 10 = 0xff \<and> ip ! 11 = 0xff
      then Some (drop 12 ip)
      else None)"

definition ip_Equal :: "bytes \<Rightarrow> bytes \<Rightarrow> bool" where
  "ip_Equal ip x =
     (if length ip = length x then ip = x
      else if length ip = 4 \<and> length x = 16 then x = v4_in_v6 ip
      else if length ip = 16 \<and> length x = 4 then ip = v4_in_v6 x
      else False)"

definition IPv6loopback :: bytes where "IPv6loopback = replicate 15 0 @ [1]"
definition IPv6unspecified :: bytes where "IPv6unspecified = replicate 16 0"
definition IPv4zero :: bytes where "IPv4zero = v4_in_v6 [0, 0, 0, 0]"

definition IsLoopback :: "bytes \<Rightarrow> bool" where
  "IsLoopback ip = (case To4 ip of Some ip4 \<Rightarrow> ip4 ! 0 = 127 | None \<Rightarrow> ip_Equal ip IPv6loopback)"

definition IsPrivate :: "bytes \<Rightarrow> bool" where
  "IsPrivate ip =
     (case To4 ip of
        Some ip4 \<Rightarrow> ip4 ! 0 = 10 \<or> (ip4 ! 0 = 172 \<and> and (ip4 ! 1) 0xf0 = 16) \<or>
                    (ip4 ! 0 = 192 \<and> ip4 ! 1 = 168)
      | None \<Rightarrow> length ip = 16 \<and> and (ip ! 0) 0xfe = 0xfc)"

definition IsLinkLocalUnicast :: "bytes \<Rightarrow> bool" where
  "IsLinkLocalUnicast ip =
     (case To4 ip of
        Some ip4 \<Rightarrow> ip4 ! 0 = 169 \<and> ip4 ! 1 = 254
      | None \<Rightarrow> length ip = 16 \<and> ip ! 0 = 0xfe \<and> and (ip ! 1) 0xc0 = 0x80)"

definition IsLinkLocalMulticast :: "bytes \<Rightarrow> bool" where
  "IsLinkLocalMulticast ip =
     (case To4 ip of
        Some ip4 \<Rightarrow> ip4 ! 0 = 224 \<and> ip4 ! 1 = 0 \<and> ip4 ! 2 = 0
      | None \<Rightarrow> length ip = 16 \<and> ip ! 0 = 0xff \<and> and (ip ! 1) 0x0f = 0x02)"

definition IsUnspecified :: "bytes \<Rightarrow> bool" where
  "IsUnspecified ip \<longleftrightarrow> ip_Equal ip IPv4zero \<or> ip_Equal ip IPv6unspecified"

definition isBlockedIP :: "bytes \<Rightarrow> bool" where
  "isBlockedIP ip =
     (if IsLoopback ip \<or> IsPrivate ip \<or> IsLinkLocalUnicast ip \<or> IsLinkLocalMulticast ip \<or>
         IsUnspecified ip then True
      else if ip_Equal ip (v4_in_v6 [169, 254, 169, 254]) then True
      else case To4 ip of
             Some ip4 \<Rightarrow> ip4 ! 0 = 100 \<and> and (ip4 ! 1) 0xc0 = 64
           | None \<Rightarrow> False)"

section \<open>guardTarget\<close>

text \<open>The errors, in the order of the code.\<close>

datatype guard_error =
    EmptyHost
  | RefusingInternalHost string
  | RefusingIP string
  | ResolutionFailed string
  | ResolvesToBlocked bytes

definition guardTarget :: "(string \<Rightarrow> string + bytes list) \<Rightarrow> string \<Rightarrow> guard_error option" where
  "guardTarget lookupIP host =
     (let h = TrimSpace (ToLower host)
      in if h = [] then Some EmptyHost
         else if h = ''localhost'' \<or> HasSuffix h ''.localhost'' \<or> HasSuffix h ''.internal''
         then Some (RefusingInternalHost host)
         else case ParseIP h of
                Some ip \<Rightarrow> if isBlockedIP ip then Some (RefusingIP host) else None
              | None \<Rightarrow>
                  (case lookupIP h of
                     Inl err \<Rightarrow> Some (ResolutionFailed err)
                   | Inr ips \<Rightarrow> map_option ResolvesToBlocked (find isBlockedIP ips)))"

text \<open>
  The name the guard hands to the resolver, if it gets that far: the call that takes time, without a
  context or a limit of its own.
\<close>

definition looked_up :: "string \<Rightarrow> string option" where
  "looked_up host =
     (let h = TrimSpace (ToLower host)
      in if h = [] \<or> h = ''localhost'' \<or> HasSuffix h ''.localhost'' \<or> HasSuffix h ''.internal'' then None
         else case ParseIP h of Some ip \<Rightarrow> None | None \<Rightarrow> Some h)"

lemma guardTarget_looked_up:
  "looked_up host = None \<Longrightarrow> guardTarget l host = guardTarget l' host"
  "looked_up host = Some h \<Longrightarrow> guardTarget l host =
     (case l h of Inl err \<Rightarrow> Some (ResolutionFailed err) | Inr ips \<Rightarrow> map_option ResolvesToBlocked (find isBlockedIP ips))"
  by (auto simp: looked_up_def guardTarget_def Let_def split: if_splits option.splits)

text \<open>The texts of the errors; \<open>show_ip\<close> is \<open>net.IP.String\<close>.\<close>

fun guard_message :: "(bytes \<Rightarrow> string) \<Rightarrow> guard_error \<Rightarrow> string" where
  "guard_message show_ip EmptyHost = ''empty host''"
| "guard_message show_ip (RefusingInternalHost host) = ''refusing internal host: '' @ host"
| "guard_message show_ip (RefusingIP host) = ''refusing private/reserved IP: '' @ host"
| "guard_message show_ip (ResolutionFailed err) = ''dns resolution failed: '' @ err"
| "guard_message show_ip (ResolvesToBlocked ip) = ''host resolves to blocked address: '' @ show_ip ip"

section \<open>The blocked ranges\<close>

text \<open>Address ranges in prefix notation.\<close>

definition in_cidr :: "bytes \<Rightarrow> bytes \<times> nat \<Rightarrow> bool" where
  "in_cidr ip r \<longleftrightarrow>
     length ip = length (fst r) \<and>
     be_nat ip div 2 ^ (8 * length ip - snd r) = be_nat (fst r) div 2 ^ (8 * length ip - snd r)"

definition blocked_v4 :: "(bytes \<times> nat) list" where
  "blocked_v4 =
     [([127, 0, 0, 0], 8), ([10, 0, 0, 0], 8), ([172, 16, 0, 0], 12), ([192, 168, 0, 0], 16),
      ([169, 254, 0, 0], 16), ([224, 0, 0, 0], 24), ([0, 0, 0, 0], 32), ([100, 64, 0, 0], 10)]"

text \<open>Two subnet masks on a byte.\<close>

lemma unat_and_high: "unat (and (a :: byte) (not (mask n))) = unat a div 2 ^ n * 2 ^ n"
proof -
  have e: "and a (not (mask n)) = push_bit n (drop_bit n a)"
    by (rule bit_word_eqI) (auto simp: bit_simps)
  have t: "take_bit 8 (unat a) = unat a"
    using unat_byte_less [of a] by (simp add: take_bit_nat_eq_self)
  have "unat (push_bit n (drop_bit n a)) = take_bit 8 (push_bit n (drop_bit n (unat a)))"
    using t by (simp only: unsigned_push_bit_eq unsigned_drop_bit_eq) simp
  also have "\<dots> = take_bit 8 (unat a div 2 ^ n * 2 ^ n)"
    by (simp only: push_bit_eq_mult drop_bit_eq_div)
  also have "\<dots> = unat a div 2 ^ n * 2 ^ n"
    using le_less_trans [OF div_times_less_eq_dividend [of "unat a" "2 ^ n"] unat_byte_less [of a]]
    by (intro take_bit_nat_eq_self) simp
  finally show ?thesis by (simp only: e)
qed

lemma byte_masks: "(0xf0 :: byte) = not (mask 4)" "(0xc0 :: byte) = not (mask 6)" "(0xfe :: byte) = not (mask 1)"
  by (simp_all add: mask_eq_exp_minus_1)

lemma and_0xf0: "and (a :: byte) 0xf0 = b \<longleftrightarrow> unat a div 16 * 16 = unat b"
  and and_0xc0: "and (a :: byte) 0xc0 = b \<longleftrightarrow> unat a div 64 * 64 = unat b"
  and and_0xfe: "and (a :: byte) 0xfe = b \<longleftrightarrow> unat a div 2 * 2 = unat b"
  using unat_and_high [of a 4] unat_and_high [of a 6] unat_and_high [of a 1]
  by (simp_all add: byte_masks word_unat_eq_iff)

lemma byte_eq_iff: "a = b \<longleftrightarrow> unat a = unat (b :: byte)"
  by (simp add: word_unat_eq_iff)

lemma be_nat4: "be_nat [a, b, c, d] = unat a * 16777216 + unat b * 65536 + unat c * 256 + unat d"
  by (simp add: be_nat_Cons)

lemma quad_div:
  assumes "x < 256" "y < 256" "z < 256" "w < (256 :: nat)"
  shows "(x * 16777216 + y * 65536 + z * 256 + w) div 16777216 = x"
    and "(x * 16777216 + y * 65536 + z * 256 + w) div 65536 = x * 256 + y"
    and "(x * 16777216 + y * 65536 + z * 256 + w) div 256 = x * 65536 + y * 256 + z"
    and "(x * 16777216 + y * 65536 + z * 256 + w) div 1048576 = x * 16 + y div 16"
    and "(x * 16777216 + y * 65536 + z * 256 + w) div 4194304 = x * 4 + y div 64"
proof -
  have y16: "y div 16 * 16 \<le> y" "y < y div 16 * 16 + 16"
    and y64: "y div 64 * 64 \<le> y" "y < y div 64 * 64 + 64" by linarith+
  show "(x * 16777216 + y * 65536 + z * 256 + w) div 16777216 = x"
    by (rule div_nat_eqI, unfold mult_Suc_right distrib_left) (use assms in linarith)+
  show "(x * 16777216 + y * 65536 + z * 256 + w) div 65536 = x * 256 + y"
    by (rule div_nat_eqI, unfold mult_Suc_right distrib_left) (use assms in linarith)+
  show "(x * 16777216 + y * 65536 + z * 256 + w) div 256 = x * 65536 + y * 256 + z"
    by (rule div_nat_eqI, unfold mult_Suc_right distrib_left) (use assms in linarith)+
  show "(x * 16777216 + y * 65536 + z * 256 + w) div 1048576 = x * 16 + y div 16"
    by (rule div_nat_eqI, unfold mult_Suc_right distrib_left) (use assms y16 in linarith)+
  show "(x * 16777216 + y * 65536 + z * 256 + w) div 4194304 = x * 4 + y div 64"
    by (rule div_nat_eqI, unfold mult_Suc_right distrib_left) (use assms y64 in linarith)+
qed

lemma cidr_v4:
  "in_cidr [a, b, c, d] ([127, 0, 0, 0], 8) \<longleftrightarrow> a = 127"
  "in_cidr [a, b, c, d] ([10, 0, 0, 0], 8) \<longleftrightarrow> a = 10"
  "in_cidr [a, b, c, d] ([172, 16, 0, 0], 12) \<longleftrightarrow> a = 172 \<and> and b 0xf0 = 16"
  "in_cidr [a, b, c, d] ([192, 168, 0, 0], 16) \<longleftrightarrow> a = 192 \<and> b = 168"
  "in_cidr [a, b, c, d] ([169, 254, 0, 0], 16) \<longleftrightarrow> a = 169 \<and> b = 254"
  "in_cidr [a, b, c, d] ([224, 0, 0, 0], 24) \<longleftrightarrow> a = 224 \<and> b = 0 \<and> c = 0"
  "in_cidr [a, b, c, d] ([0, 0, 0, 0], 32) \<longleftrightarrow> a = 0 \<and> b = 0 \<and> c = 0 \<and> d = 0"
  "in_cidr [a, b, c, d] ([100, 64, 0, 0], 10) \<longleftrightarrow> a = 100 \<and> and b 0xc0 = 64"
proof -
  define x y z w where "x = unat a" and "y = unat b" and "z = unat c" and "w = unat d"
  have r: "x < 256" "y < 256" "z < 256" "w < 256"
    by (simp_all add: x_def y_def z_def w_def unat_byte_less)
  have h: "y div 16 < 16" "y div 64 < 4" using r by auto
  note defs = x_def [symmetric] y_def [symmetric] z_def [symmetric] w_def [symmetric]
  have m16: "and b 0xf0 = 16 \<longleftrightarrow> y div 16 = 1" by (simp add: and_0xf0 defs)
  have m64: "and b 0xc0 = 64 \<longleftrightarrow> y div 64 = 1" by (simp add: and_0xc0 defs)
  note simps = in_cidr_def be_nat4 byte_eq_iff defs quad_div [OF r]
  show "in_cidr [a, b, c, d] ([127, 0, 0, 0], 8) \<longleftrightarrow> a = 127" by (simp add: simps)
  show "in_cidr [a, b, c, d] ([10, 0, 0, 0], 8) \<longleftrightarrow> a = 10" by (simp add: simps)
  show "in_cidr [a, b, c, d] ([172, 16, 0, 0], 12) \<longleftrightarrow> a = 172 \<and> and b 0xf0 = 16"
    using two_digits [OF h(1), of 1 x 172] unfolding m16 by (simp add: simps)
  show "in_cidr [a, b, c, d] ([192, 168, 0, 0], 16) \<longleftrightarrow> a = 192 \<and> b = 168"
    using two_digits [OF r(2), of 168 x 192] by (simp add: simps)
  show "in_cidr [a, b, c, d] ([169, 254, 0, 0], 16) \<longleftrightarrow> a = 169 \<and> b = 254"
    using two_digits [OF r(2), of 254 x 169] by (simp add: simps)
  show "in_cidr [a, b, c, d] ([224, 0, 0, 0], 24) \<longleftrightarrow> a = 224 \<and> b = 0 \<and> c = 0"
  proof -
    have "x * 65536 + y * 256 + z = 14680064 \<longleftrightarrow> x = 224 \<and> y = 0 \<and> z = 0"
      using two_digits [of z 256 0 "x * 256 + y" "224 * 256"] two_digits [of y 256 0 x 224] r
      by (simp add: algebra_simps)
    then show ?thesis by (simp add: simps)
  qed
  show "in_cidr [a, b, c, d] ([0, 0, 0, 0], 32) \<longleftrightarrow> a = 0 \<and> b = 0 \<and> c = 0 \<and> d = 0"
    by (simp add: simps)
  show "in_cidr [a, b, c, d] ([100, 64, 0, 0], 10) \<longleftrightarrow> a = 100 \<and> and b 0xc0 = 64"
    using two_digits [OF h(2), of 1 x 100] unfolding m64 by (simp add: simps)
qed

lemma To4_v4: "length ip4 = 4 \<Longrightarrow> To4 ip4 = Some ip4" "length ip4 = 4 \<Longrightarrow> To4 (v4_in_v6 ip4) = Some ip4"
  by (simp_all add: To4_def v4_in_v6_def nth_append)

lemma length4_cases:
  assumes "length h = 4"
  obtains a b c d where "h = [a, b, c, d]"
  using assms by (auto simp: numeral_eq_Suc length_Suc_conv)

lemma length_v4_in_v6: "length (v4_in_v6 q) = 12 + length q"
  by (simp add: v4_in_v6_def)

lemma v4_in_v6_inject: "v4_in_v6 p = v4_in_v6 q \<longleftrightarrow> p = q"
  by (simp add: v4_in_v6_def)

lemma v4_not_zero: "v4_in_v6 q \<noteq> replicate 16 0"
proof
  assume "v4_in_v6 q = replicate 16 0"
  then have "v4_in_v6 q ! 10 = replicate 16 0 ! 10" by simp
  then show False by (simp add: v4_in_v6_def nth_append)
qed

lemma ip_Equal_v4:
  "length ip4 = 4 \<Longrightarrow> length q = 4 \<Longrightarrow> ip_Equal ip4 (v4_in_v6 q) \<longleftrightarrow> ip4 = q"
  "length ip4 = 4 \<Longrightarrow> length q = 4 \<Longrightarrow> ip_Equal (v4_in_v6 ip4) (v4_in_v6 q) \<longleftrightarrow> ip4 = q"
  "length ip4 = 4 \<Longrightarrow> \<not> ip_Equal ip4 IPv6unspecified"
  "length ip4 = 4 \<Longrightarrow> \<not> ip_Equal (v4_in_v6 ip4) IPv6unspecified"
  using v4_not_zero [of ip4] v4_not_zero [of ip4, symmetric]
  by (auto simp: ip_Equal_def IPv6unspecified_def length_v4_in_v6 v4_in_v6_inject)

lemma isBlockedIP_v4:
  assumes "length ip4 = 4" and "ip = ip4 \<or> ip = v4_in_v6 ip4"
  shows "isBlockedIP ip \<longleftrightarrow> list_ex (in_cidr ip4) blocked_v4"
proof -
  obtain a b c d where q: "ip4 = [a, b, c, d]" using assms(1) by (elim length4_cases)
  have t: "To4 ip = Some ip4" using assms To4_v4 by auto
  have e: "ip_Equal ip IPv4zero \<longleftrightarrow> ip4 = [0, 0, 0, 0]" "\<not> ip_Equal ip IPv6unspecified"
    "ip_Equal ip (v4_in_v6 [169, 254, 169, 254]) \<longleftrightarrow> ip4 = [169, 254, 169, 254]"
    using assms ip_Equal_v4 by (auto simp: IPv4zero_def)
  show ?thesis
    by (auto simp: isBlockedIP_def IsLoopback_def IsPrivate_def IsLinkLocalUnicast_def
        IsLinkLocalMulticast_def IsUnspecified_def t e q blocked_v4_def cidr_v4)
qed

section \<open>Dotted quads\<close>

definition dig :: "nat \<Rightarrow> char" where
  "dig n = char_of (48 + n)"

definition dec :: "nat \<Rightarrow> string" where
  "dec n = (if n < 10 then [dig n]
            else if n < 100 then [dig (n div 10), dig (n mod 10)]
            else [dig (n div 100), dig (n div 10 mod 10), dig (n mod 10)])"

definition dotted :: "byte \<Rightarrow> byte \<Rightarrow> byte \<Rightarrow> byte \<Rightarrow> string" where
  "dotted a b c d = dec (unat a) @ ''.'' @ dec (unat b) @ ''.'' @ dec (unat c) @ ''.'' @ dec (unat d)"

lemma of_char_dig: "n < 10 \<Longrightarrow> of_char (dig n) = 48 + n"
  by (simp add: dig_def of_char_of)

lemma digit_dig: "n < 10 \<Longrightarrow> digit (dig n) = Some n"
  by (simp add: digit_def of_char_dig)

lemma digit_dot: "digit CHR ''.'' = None"
  by (simp add: digit_def)

lemma ipv4_fields_dec:
  assumes "n < 256"
  shows "\<exists>k > 0. ipv4_fields (dec n @ s) 0 0 f = ipv4_fields s n k f"
proof -
  consider "n < 10" | "10 \<le> n" "n < 100" | "100 \<le> n" by linarith
  then show ?thesis
  proof cases
    case 1
    then show ?thesis by (intro exI [of _ 1]) (simp add: dec_def digit_dig)
  next
    case 2
    define p q where "p = n div 10" and "q = n mod 10"
    have "p < 10" "q < 10" "0 < p" "n = p * 10 + q" using 2 by (simp_all add: p_def q_def)
    moreover have "dec n = [dig p, dig q]" using 2 by (simp add: dec_def p_def q_def)
    ultimately show ?thesis using 2 by (intro exI [of _ "Suc (Suc 0)"]) (simp add: digit_dig)
  next
    case 3
    define p q r where "p = n div 100" and "q = n div 10 mod 10" and "r = n mod 10"
    have "n div 10 = n div 10 div 10 * 10 + q" unfolding q_def by simp
    moreover have "n div 10 div 10 = p" by (simp add: p_def div_mult2_eq [symmetric])
    moreover have "n = n div 10 * 10 + r" unfolding r_def by simp
    ultimately have "n = (p * 10 + q) * 10 + r" by simp
    moreover have "p < 10" "q < 10" "r < 10" "0 < p" using 3 assms by (simp_all add: p_def q_def r_def)
    moreover have "dec n = [dig p, dig q, dig r]" using 3 by (simp add: dec_def p_def q_def r_def)
    ultimately show ?thesis using assms by (intro exI [of _ "Suc (Suc (Suc 0))"]) (simp add: digit_dig)
  qed
qed

lemma ipv4_fields_dot:
  "0 < k \<Longrightarrow> s \<noteq> [] \<Longrightarrow> length f < 3 \<Longrightarrow> ipv4_fields (CHR ''.'' # s) n k f = ipv4_fields s 0 0 (f @ [of_nat n])"
  by (simp add: digit_dot)

lemma dec_nonempty [simp]: "dec n \<noteq> []"
  by (simp add: dec_def)

lemma octet_dot:
  assumes "s \<noteq> []" and "length f < 3"
  shows "ipv4_fields (dec (unat a) @ CHR ''.'' # s) 0 0 f = ipv4_fields s 0 0 (f @ [a :: byte])"
proof -
  obtain k where "0 < k"
    "ipv4_fields (dec (unat a) @ CHR ''.'' # s) 0 0 f = ipv4_fields (CHR ''.'' # s) (unat a) k f"
    using ipv4_fields_dec [OF unat_byte_less [of a], of "CHR ''.'' # s" f] by blast
  with ipv4_fields_dot [OF \<open>0 < k\<close> assms, of "unat a"] show ?thesis by simp
qed

lemma octet_end:
  assumes "length f = 3"
  shows "ipv4_fields (dec (unat a)) 0 0 f = Some (f @ [a :: byte])"
proof -
  obtain k where "0 < k" "ipv4_fields (dec (unat a)) 0 0 f = ipv4_fields [] (unat a) k f"
    using ipv4_fields_dec [OF unat_byte_less [of a], of "[]" f] by auto
  with assms show ?thesis by simp
qed

lemma parseIPv4_dotted: "parseIPv4 (dotted a b c d) = Some [a, b, c, d]"
  by (simp add: parseIPv4_def dotted_def octet_dot octet_end)

lemma ParseAddr_at_dec:
  "ParseAddr_at whole (dec n @ CHR ''.'' # s) = map_option v4_in_v6 (parseIPv4 whole)" if "n < 256"
proof -
  have d: "dig m \<noteq> CHR ''.''" "dig m \<noteq> CHR '':''" "dig m \<noteq> CHR ''%''" if "m < 10" for m
    using of_char_dig [OF that] that by auto
  have "n div 100 < 10" "n div 10 mod 10 < 10" "n mod 10 < 10" "n < 100 \<Longrightarrow> n div 10 < 10"
    using that by auto
  then show ?thesis by (simp add: dec_def d)
qed

lemma ParseIP_dotted: "ParseIP (dotted a b c d) = Some (v4_in_v6 [a, b, c, d])"
proof -
  have "ParseIP (dotted a b c d) = map_option v4_in_v6 (parseIPv4 (dotted a b c d))"
    unfolding ParseIP_def
    using ParseAddr_at_dec [OF unat_byte_less [of a], of "dotted a b c d"]
    by (simp add: dotted_def)
  then show ?thesis by (simp add: parseIPv4_dotted)
qed

text \<open>The characters of a dotted quad are neither letters nor space.\<close>

definition plain_char :: "char \<Rightarrow> bool" where
  "plain_char c \<longleftrightarrow> 33 \<le> (of_char c :: nat) \<and> (of_char c :: nat) \<le> 64"

lemma plain_text:
  assumes "list_all plain_char s"
  shows "TrimSpace (ToLower s) = s"
proof -
  have l: "lower_char c = c" "\<not> is_space c" if "plain_char c" for c
    using that by (auto simp: lower_char_def is_space_def plain_char_def)
  have "map lower_char s = s"
    using assms l(1) by (induction s) auto
  moreover have "dropWhile is_space t = t" if "list_all plain_char t" for t
    using that l(2) by (cases t) auto
  moreover have "list_all plain_char (rev s)" using assms by (simp add: list_all_iff)
  ultimately show ?thesis using assms by (simp add: TrimSpace_def ToLower_def)
qed

lemma plain_dotted: "list_all plain_char (dotted a b c d)"
proof -
  have "plain_char (dig m)" if "m < 10" for m using of_char_dig [OF that] that by (simp add: plain_char_def)
  then have "list_all plain_char (dec n)" if "n < 256" for n using that by (simp add: dec_def)
  then show ?thesis by (simp add: dotted_def unat_byte_less plain_char_def)
qed

lemma dotted_not_local:
  "dotted a b c d \<noteq> []" "dotted a b c d \<noteq> ''localhost''"
  "\<not> HasSuffix (dotted a b c d) ''.localhost''" "\<not> HasSuffix (dotted a b c d) ''.internal''"
proof -
  have l: "CHR ''l'' \<notin> set (dotted a b c d)"
    using plain_dotted [of a b c d] by (auto simp: list_all_iff plain_char_def)
  have "set suf \<subseteq> set s" if "HasSuffix s suf" for s suf
    using that set_drop_subset [of "length s - length suf" s] by (simp add: HasSuffix_def)
  from this [of "dotted a b c d" "''.localhost''"] this [of "dotted a b c d" "''.internal''"] l
  show "\<not> HasSuffix (dotted a b c d) ''.localhost''" "\<not> HasSuffix (dotted a b c d) ''.internal''" by auto
  show "dotted a b c d \<noteq> ''localhost''" using l by auto
  show "dotted a b c d \<noteq> []" by (simp add: dotted_def)
qed

section \<open>What the guard lets through\<close>

lemma guard_literal:
  "(guardTarget lookupIP (dotted a b c d) = None \<longleftrightarrow> \<not> list_ex (in_cidr [a, b, c, d]) blocked_v4) \<and>
   (isBlockedIP (v4_in_v6 [a, b, c, d]) \<longleftrightarrow> list_ex (in_cidr [a, b, c, d]) blocked_v4)"
  using isBlockedIP_v4 [of "[a, b, c, d]" "v4_in_v6 [a, b, c, d]"]
  by (simp add: guardTarget_def plain_text [OF plain_dotted] dotted_not_local ParseIP_dotted Let_def)

lemma lookup_dotted: "looked_up (dotted a b c d) = None"
  by (simp add: looked_up_def plain_text [OF plain_dotted] dotted_not_local ParseIP_dotted Let_def)

text \<open>
  C9. Literal IPv4 targets. The guard accepts \<open>a.b.c.d\<close> exactly when the address lies in none of
  127/8, 10/8, 172.16/12, 192.168/16, 169.254/16, 224.0.0/24, 0.0.0.0/32 and 100.64/10, without
  asking the resolver; the IPv4-mapped IPv6 form of an address is blocked when the address is.
\<close>

theorem guardTarget_dotted:
  "(guardTarget lookupIP (dotted a b c d) = None \<longleftrightarrow> \<not> list_ex (in_cidr [a, b, c, d]) blocked_v4) \<and>
   (isBlockedIP (v4_in_v6 [a, b, c, d]) \<longleftrightarrow> list_ex (in_cidr [a, b, c, d]) blocked_v4)"
  by (rule guard_literal)

text \<open>The IPv6 ranges.\<close>

definition blocked_v6 :: "(bytes \<times> nat) list" where
  "blocked_v6 =
     [(IPv6loopback, 128), (IPv6unspecified, 128), ([0xfc] @ replicate 15 0, 7),
      ([0xfe, 0x80] @ replicate 14 0, 10)] @
     map (\<lambda>s. ([0xff, of_nat (16 * s + 2)] @ replicate 14 0, 16)) [0..<16]"

lemma be_nat_top:
  assumes "length r = 14"
  shows "be_nat (a # b # r) div 2 ^ 112 = unat a * 256 + unat b"
proof -
  have "be_nat (a # b # r) = (unat a * 256 + unat b) * 256 ^ 14 + be_nat r"
    using assms by (simp add: be_nat_Cons algebra_simps)
  moreover have "(2 :: nat) ^ 112 = 256 ^ 14" by simp
  ultimately show ?thesis using be_nat_less [of r] assms by simp
qed

lemma length16_cases:
  assumes "length ip = 16"
  obtains a b r where "ip = a # b # r" "length r = 14"
  using assms by (cases ip; cases "tl ip") auto

lemma in_cidr_16:
  assumes "length ip = 16"
  shows "in_cidr ip (a # b # replicate 14 0, 16) \<longleftrightarrow> ip ! 0 = a \<and> ip ! 1 = b"
proof -
  obtain x y r where ip: "ip = x # y # r" "length r = 14" using assms by (elim length16_cases)
  have "unat x * 256 + unat y = unat a * 256 + unat b \<longleftrightarrow> unat x = unat a \<and> unat y = unat b"
    by (rule two_digits) (rule unat_byte_less)+
  then show ?thesis
    using be_nat_top [OF ip(2), of x y] be_nat_top [of "replicate 14 0" a b] ip
    by (simp add: in_cidr_def word_unat_eq_iff)
qed

lemma div_pow2: "(n :: nat) div 2 ^ (j + k) = n div 2 ^ j div 2 ^ k"
  by (simp add: power_add div_mult2_eq)

lemma in_cidr_7:
  assumes "length ip = 16"
  shows "in_cidr ip ([0xfc] @ replicate 15 0, 7) \<longleftrightarrow> and (ip ! 0) 0xfe = 0xfc"
proof -
  obtain x y r where ip: "ip = x # y # r" "length r = 14" using assms by (elim length16_cases)
  have m: "and x 0xfe = 0xfc \<longleftrightarrow> unat x div 2 = 126" by (simp add: and_0xfe)
  have z: "[0xfc] @ replicate 15 0 = 0xfc # 0 # replicate 14 (0 :: byte)"
    by (simp add: numeral_eq_Suc)
  have d: "(unat x * 256 + unat y) div 512 = unat x div 2"
    using unat_byte_less [of y] div_mult2_eq [of "unat x * 256 + unat y" 256 2] by simp
  have "in_cidr ip ([0xfc] @ replicate 15 0, 7) \<longleftrightarrow>
      be_nat ip div 2 ^ 112 div 2 ^ 9 = be_nat (0xfc # 0 # replicate 14 0) div 2 ^ 112 div 2 ^ 9"
    using assms unfolding in_cidr_def z div_pow2 [symmetric] by simp
  also have "\<dots> \<longleftrightarrow> unat x div 2 = 126"
    using be_nat_top [OF ip(2), of x y] be_nat_top [of "replicate 14 0" "0xfc" 0] ip(1) d by simp
  finally show ?thesis using m ip(1) by simp
qed

lemma in_cidr_10:
  assumes "length ip = 16"
  shows "in_cidr ip ([0xfe, 0x80] @ replicate 14 0, 10) \<longleftrightarrow> ip ! 0 = 0xfe \<and> and (ip ! 1) 0xc0 = 0x80"
proof -
  obtain x y r where ip: "ip = x # y # r" "length r = 14" using assms by (elim length16_cases)
  have m: "and y 0xc0 = 0x80 \<longleftrightarrow> unat y div 64 = 2" by (simp add: and_0xc0)
  have x: "x = 0xfe \<longleftrightarrow> unat x = 254" by (simp add: word_unat_eq_iff)
  have d: "(unat x * 256 + unat y) div 64 = unat x * 4 + unat y div 64"
  proof -
    have "unat x * 256 + unat y = unat x * 4 * 64 + unat y" by simp
    then show ?thesis by (simp only: div_mult_self3)
  qed
  have h: "unat y div 64 < 4" using unat_byte_less [of y] by simp
  have "in_cidr ip ([0xfe, 0x80] @ replicate 14 0, 10) \<longleftrightarrow>
      be_nat ip div 2 ^ 112 div 2 ^ 6 = be_nat (0xfe # 0x80 # replicate 14 0) div 2 ^ 112 div 2 ^ 6"
    using assms unfolding in_cidr_def div_pow2 [symmetric] by simp
  also have "\<dots> \<longleftrightarrow> unat x * 4 + unat y div 64 = 254 * 4 + 2"
    using be_nat_top [OF ip(2), of x y] be_nat_top [of "replicate 14 0" "0xfe" "0x80"] ip(1) d by simp
  finally show ?thesis using two_digits [OF h, of 2 "unat x" 254] m x ip(1) by simp
qed

lemma in_cidr_128: "length net = length ip \<Longrightarrow> 8 * length ip = n \<Longrightarrow> in_cidr ip (net, n) \<longleftrightarrow> ip = net"
  by (simp add: in_cidr_def be_nat_inject)

lemma and_0x0f: "and (y :: byte) 0x0f = 2 \<longleftrightarrow> (\<exists>s < 16. y = of_nat (16 * s + 2))"
proof -
  have "(0x0f :: byte) = mask 4" by (simp add: mask_eq_exp_minus_1)
  then have "unat (and y 0x0f) = take_bit 4 (unat y)"
    by (simp only: take_bit_eq_mask [symmetric] unsigned_take_bit_eq)
  then have m: "and y 0x0f = 2 \<longleftrightarrow> unat y mod 16 = 2" by (simp add: word_unat_eq_iff take_bit_eq_mod)
  have "unat y mod 16 = 2 \<longleftrightarrow> (\<exists>s < 16. unat y = 16 * s + 2)"
  proof
    assume "unat y mod 16 = 2"
    then have "unat y = 16 * (unat y div 16) + 2" using mult_div_mod_eq [of 16 "unat y"] by simp
    moreover have "unat y div 16 < 16" using unat_byte_less [of y] by simp
    ultimately show "\<exists>s < 16. unat y = 16 * s + 2" by blast
  next
    assume "\<exists>s < 16. unat y = 16 * s + 2"
    then show "unat y mod 16 = 2" by presburger
  qed
  also have "\<dots> \<longleftrightarrow> (\<exists>s < 16. y = of_nat (16 * s + 2))"
  proof -
    have "unat y = 16 * s + 2 \<longleftrightarrow> y = of_nat (16 * s + 2)" if "s < 16" for s
      unfolding word_unat_eq_iff unat_byte_of_nat using that by simp
    then show ?thesis by blast
  qed
  finally show ?thesis using m by simp
qed

text \<open>
  A 16-byte address that is not an IPv4-mapped one is blocked exactly when it is the loopback or the
  unspecified address or lies in fc00::/7, fe80::/10 or one of the ranges ff?2::/16.
\<close>

lemma isBlockedIP_v6:
  assumes "length ip = 16" and "To4 ip = None"
  shows "isBlockedIP ip \<longleftrightarrow> list_ex (in_cidr ip) blocked_v6"
proof -
  have n4: "ip \<noteq> v4_in_v6 q" if "length q = 4" for q using assms(2) To4_v4(2) [OF that] by auto
  have eq: "ip_Equal ip IPv4zero \<longleftrightarrow> False" "ip_Equal ip (v4_in_v6 [169, 254, 169, 254]) \<longleftrightarrow> False"
    "ip_Equal ip IPv6loopback \<longleftrightarrow> ip = IPv6loopback" "ip_Equal ip IPv6unspecified \<longleftrightarrow> ip = IPv6unspecified"
    using assms(1) n4 by (auto simp: ip_Equal_def IPv4zero_def length_v4_in_v6 IPv6loopback_def IPv6unspecified_def)
  have mc: "list_ex (in_cidr ip) (map (\<lambda>s. ([0xff, of_nat (16 * s + 2)] @ replicate 14 0, 16)) [0..<16]) \<longleftrightarrow>
      ip ! 0 = 0xff \<and> and (ip ! 1) 0x0f = 2"
    using in_cidr_16 [OF assms(1)] and_0x0f [of "ip ! 1"]
    by (auto simp: list_ex_iff)
  have lb: "in_cidr ip (IPv6loopback, 128) \<longleftrightarrow> ip = IPv6loopback"
    "in_cidr ip (IPv6unspecified, 128) \<longleftrightarrow> ip = IPv6unspecified"
    using assms(1) by (simp_all add: in_cidr_128 IPv6loopback_def IPv6unspecified_def)
  have "isBlockedIP ip \<longleftrightarrow> ip = IPv6loopback \<or> and (ip ! 0) 0xfe = 0xfc \<or>
      (ip ! 0 = 0xfe \<and> and (ip ! 1) 0xc0 = 0x80) \<or> (ip ! 0 = 0xff \<and> and (ip ! 1) 0x0f = 2) \<or>
      ip = IPv6unspecified"
    using assms
    by (simp add: isBlockedIP_def IsLoopback_def IsPrivate_def IsLinkLocalUnicast_def
        IsLinkLocalMulticast_def IsUnspecified_def eq)
  then show ?thesis
    unfolding blocked_v6_def list_ex_append mc
    using lb in_cidr_7 [OF assms(1)] in_cidr_10 [OF assms(1)] by auto
qed

lemma length_v6_consts: "length IPv6loopback = 16" "length IPv6unspecified = 16"
  by (simp_all add: IPv6loopback_def IPv6unspecified_def)

lemma v6_example:
  "[0x20, 0x01] @ replicate 14 1 \<noteq> IPv6loopback" "[0x20, 0x01] @ replicate 14 1 \<noteq> IPv6unspecified"
proof -
  have "hd IPv6loopback = 0" "hd IPv6unspecified = 0"
    by (simp_all add: IPv6loopback_def IPv6unspecified_def hd_append)
  moreover have "hd ([0x20, 0x01] @ replicate 14 (1 :: byte)) \<noteq> 0" by simp
  ultimately show "[0x20, 0x01] @ replicate 14 1 \<noteq> IPv6loopback"
    "[0x20, 0x01] @ replicate 14 1 \<noteq> IPv6unspecified" by metis+
qed

lemma isBlockedIP_v6_examples:
  "isBlockedIP ([0xfd] @ replicate 15 1) \<and> \<not> isBlockedIP ([0x20, 0x01] @ replicate 14 1)"
proof -
  have "in_cidr ([0xfd] @ replicate 15 1) ([0xfc] @ replicate 15 0, 7)"
    using in_cidr_7 [of "[0xfd] @ replicate 15 1"] by (simp add: and_0xfe)
  then have "list_ex (in_cidr ([0xfd] @ replicate 15 1)) blocked_v6" by (simp add: blocked_v6_def)
  moreover have "To4 ([0xfd] @ replicate 15 1) = None" "To4 ([0x20, 0x01] @ replicate 14 1) = None"
    by (simp_all add: To4_def numeral_eq_Suc)
  moreover have "\<not> list_ex (in_cidr ([0x20, 0x01] @ replicate 14 1)) blocked_v6"
    using v6_example in_cidr_16 [of "[0x20, 0x01] @ replicate 14 1"] in_cidr_7 [of "[0x20, 0x01] @ replicate 14 1"]
      in_cidr_10 [of "[0x20, 0x01] @ replicate 14 1"]
    by (auto simp: blocked_v6_def list_ex_iff in_cidr_128 length_v6_consts and_0xfe)
  ultimately show ?thesis
    using isBlockedIP_v6 [of "[0xfd] @ replicate 15 1"] isBlockedIP_v6 [of "[0x20, 0x01] @ replicate 14 1"]
    by simp
qed

text \<open>The ranges, over both families.\<close>

definition in_blocked_range :: "bytes \<Rightarrow> bool" where
  "in_blocked_range ip =
     (case To4 ip of
        Some ip4 \<Rightarrow> list_ex (in_cidr ip4) blocked_v4
      | None \<Rightarrow> list_ex (in_cidr ip) blocked_v6)"

definition wf_ip :: "bytes \<Rightarrow> bool" where
  "wf_ip ip \<longleftrightarrow> length ip = 4 \<or> length ip = 16"

lemma To4_mapped: "length ip = 16 \<Longrightarrow> To4 ip = Some q \<Longrightarrow> ip = v4_in_v6 q \<and> length q = 4"
proof -
  assume l: "length ip = 16" and t: "To4 ip = Some q"
  then have ip: "take 10 ip = replicate 10 0" "ip ! 10 = 0xff" "ip ! 11 = 0xff" "q = drop 12 ip"
    by (auto simp: To4_def split: if_splits)
  have "drop 10 ip = ip ! 10 # drop 11 ip" "drop 11 ip = ip ! 11 # drop 12 ip"
    using l Cons_nth_drop_Suc [of 10 ip] Cons_nth_drop_Suc [of 11 ip] by simp_all
  then have "ip = v4_in_v6 q" using append_take_drop_id [of 10 ip] ip unfolding v4_in_v6_def by simp
  moreover have "length q = 4" using l by (simp add: ip(4))
  ultimately show ?thesis by blast
qed

lemma isBlockedIP_range: "wf_ip ip \<Longrightarrow> isBlockedIP ip \<longleftrightarrow> in_blocked_range ip"
proof (cases "To4 ip")
  case (Some q)
  assume "wf_ip ip"
  then have "length q = 4 \<and> (ip = q \<or> ip = v4_in_v6 q)"
    using Some To4_mapped [of ip q] To4_v4(1) [of ip] by (auto simp: wf_ip_def)
  with isBlockedIP_v4 [of q ip] Some show ?thesis by (simp add: in_blocked_range_def)
next
  case None
  assume "wf_ip ip"
  then have "length ip = 16" using None To4_v4(1) [of ip] by (auto simp: wf_ip_def)
  with isBlockedIP_v6 [of ip] None show ?thesis by (simp add: in_blocked_range_def)
qed

text \<open>
  C37. The blocked addresses. For an address of either family, in either of its forms, the chain of
  tests is membership in a fixed list of ranges: for IPv4 and IPv4-mapped addresses those of
  \<open>blocked_v4\<close>; otherwise ::1, ::, fc00::/7, fe80::/10 and the link-local multicast ranges ff?2::/16.
\<close>

theorem isBlockedIP_ranges:
  assumes "length ip = 4 \<or> length ip = 16"
  shows "isBlockedIP ip \<longleftrightarrow>
    (case To4 ip of
       Some ip4 \<Rightarrow> list_ex (in_cidr ip4) blocked_v4
     | None \<Rightarrow> list_ex (in_cidr ip) blocked_v6)"
  using isBlockedIP_range [of ip] assms by (simp add: wf_ip_def in_blocked_range_def)

theorem isBlockedIP_ranges_witness: "isBlockedIP [100, 127, 0, 1] \<and> \<not> isBlockedIP [100, 128, 0, 1]"
  using isBlockedIP_ranges [of "[100, 127, 0, 1]"] isBlockedIP_ranges [of "[100, 128, 0, 1]"]
  by (simp add: To4_def blocked_v4_def in_cidr_def be_nat_Cons)

section \<open>What acceptance means\<close>

lemma ipv4_fields_length: "ipv4_fields s v n f = Some q \<Longrightarrow> length f \<le> 3 \<Longrightarrow> length q = 4"
  by (induction s v n f rule: ipv4_fields.induct) (auto split: if_splits option.splits)

lemma ipv6_groups_length:
  "ipv6_groups n s ip e = Some (ip', e') \<Longrightarrow> length ip \<le> 16 \<Longrightarrow> even (length ip) \<Longrightarrow> length ip' \<le> 16"
proof (induction n arbitrary: s ip e)
  case 0
  then show ?case by (simp split: if_splits)
next
  case (Suc n)
  have step: "length (ip @ put16 k) \<le> 16" "even (length (ip @ put16 k))" if "length ip < 16" for k
    using that Suc.prems(3) by (auto elim: evenE)
  have quad: "length q = 4" if "parseIPv4 s = Some q" for q
    using ipv4_fields_length that by (simp add: parseIPv4_def)
  show ?case
  proof (cases "16 \<le> length ip")
    case True
    with Suc.prems show ?thesis by (simp split: if_splits)
  next
    case False
    obtain off acc r where h: "hex_prefix s 0 0 = (off, acc, r)" by (metis prod_cases3)
    show ?thesis
      using Suc.prems(1) False h step [of acc] quad Suc.IH
      by (fastforce simp: Let_def not_le split: if_splits)
  qed
qed

lemma expand_ellipsis_length: "expand_ellipsis (a, e) = Some ip \<Longrightarrow> length a \<le> 16 \<Longrightarrow> length ip = 16"
  by (auto simp: expand_ellipsis_def min_def split: if_splits option.splits)

lemma parseIPv6_length: "parseIPv6 t = Some ip \<Longrightarrow> length ip = 16"
proof -
  assume p: "parseIPv6 t = Some ip"
  have "length ip = 16" if "Option.bind (ipv6_groups 8 u [] e) expand_ellipsis = Some ip" for u e
  proof -
    from that obtain a e' where g: "ipv6_groups 8 u [] e = Some (a, e')" "expand_ellipsis (a, e') = Some ip"
      by (auto split: Option.bind_splits)
    with ipv6_groups_length [OF g(1)] show ?thesis by (simp add: expand_ellipsis_length)
  qed
  with p show ?thesis by (auto simp: parseIPv6_def split: if_splits)
qed

lemma ParseIP_length:
  assumes "ParseIP s = Some ip"
  shows "length ip = 16"
proof -
  have four: "length q = 4" if "parseIPv4 t = Some q" for t q
    using ipv4_fields_length that by (simp add: parseIPv4_def)
  have "ParseAddr_at whole t = Some ip \<Longrightarrow> length ip = 16" for whole t
    by (induction whole t rule: ParseAddr_at.induct) (auto simp: v4_in_v6_def parseIPv6_length four split: if_splits)
  with assms show ?thesis by (simp add: ParseIP_def)
qed

text \<open>
  C10. What acceptance means. For a resolver that answers with addresses of 4 or 16 bytes, the guard
  accepts a host exactly when, after trimming and lower-casing, it is neither empty nor a local name,
  and either it is a literal address outside all blocked ranges, or it is not a literal, the resolver
  answers, and none of the answered addresses is in a blocked range: one is enough to refuse.
\<close>

theorem guardTarget_accepts_iff:
  assumes "\<And>h ips. lookupIP h = Inr ips \<Longrightarrow> list_all wf_ip ips"
  shows "guardTarget lookupIP host = None \<longleftrightarrow>
     (\<exists>h. h = TrimSpace (ToLower host) \<and> h \<noteq> [] \<and> h \<noteq> ''localhost'' \<and>
        \<not> HasSuffix h ''.localhost'' \<and> \<not> HasSuffix h ''.internal'' \<and>
        (case ParseIP h of
           Some ip \<Rightarrow> \<not> in_blocked_range ip
         | None \<Rightarrow> (\<exists>ips. lookupIP h = Inr ips \<and> list_all (\<lambda>ip. \<not> in_blocked_range ip) ips)))"
proof -
  have lit: "isBlockedIP ip \<longleftrightarrow> in_blocked_range ip" if "ParseIP h = Some ip" for h ip
    using isBlockedIP_range [of ip] ParseIP_length [OF that] by (simp add: wf_ip_def)
  have res: "find isBlockedIP ips = None \<longleftrightarrow> list_all (\<lambda>ip. \<not> in_blocked_range ip) ips"
    if "lookupIP h = Inr ips" for h ips
    using assms [OF that] isBlockedIP_range by (auto simp: find_None_iff list_all_iff)
  show ?thesis
    using res by (auto simp: guardTarget_def Let_def lit split: option.splits sum.splits if_splits)
qed

theorem guardTarget_accepts_iff_witness:
  "guardTarget (\<lambda>_. Inr [[8, 8, 8, 8], [10, 0, 0, 1]]) ''example.com'' \<noteq> None"
proof -
  have "list_all wf_ip [[8, 8, 8, 8], [10, 0, 0, 1]]" by (simp add: wf_ip_def)
  moreover have "in_blocked_range [10, 0, 0, 1]"
    by (simp add: in_blocked_range_def To4_def blocked_v4_def in_cidr_def be_nat_Cons)
  moreover have "ParseIP ''example.com'' = None"
    by (simp add: ParseIP_def parseIPv4_def digit_def)
  moreover have "TrimSpace (ToLower ''example.com'') = ''example.com''"
    by (simp add: TrimSpace_def ToLower_def lower_char_def is_space_def)
  ultimately show ?thesis
    using guardTarget_accepts_iff [of "\<lambda>_. Inr [[8, 8, 8, 8], [10, 0, 0, 1]]" "''example.com''"] by simp
qed

end
