(* ===== verification/Clock.thy ===== *)
theory Clock
  imports Pkcs1 Complex_Main
begin

text \<open>
  The parts of Go's \<open>time\<close> package that the certificate analysis computes with: \<open>time.Until\<close>, which
  saturates at the ends of \<open>int64\<close>, and \<open>Duration.Hours\<close>, which is a \<open>float64\<close>. The roundings of the
  floating-point operations are written out: \<open>fl\<close> rounds a rational to 53 significant bits, to the
  nearest and to even on a tie (no value that occurs here is subnormal or overflows).
\<close>

section \<open>Rounding to float64\<close>

definition round_half_even :: "rat \<Rightarrow> int" where
  "round_half_even y =
     (let f = \<lfloor>y\<rfloor>; r = y - of_int f
      in if r < 1 / 2 then f else if r > 1 / 2 then f + 1 else if even f then f else f + 1)"

text \<open>The exponent of a positive rational: \<open>2 ^ e \<le> x < 2 ^ (e + 1)\<close>.\<close>

definition exponent :: "rat \<Rightarrow> int" where
  "exponent x =
     (case quotient_of x of (a, b) \<Rightarrow>
        let k = int (bit_len (nat a)) - int (bit_len (nat b))
        in if 2 powi k \<le> x then k else k - 1)"

definition fl_pos :: "rat \<Rightarrow> rat" where
  "fl_pos x = (let u = 2 powi (exponent x - 52) in u * of_int (round_half_even (x / u)))"

definition fl :: "rat \<Rightarrow> rat" where
  "fl x = (if x = 0 then 0 else if x < 0 then - fl_pos (- x) else fl_pos x)"

section \<open>Durations\<close>

definition max_int64 :: int where "max_int64 = 2 ^ 63 - 1"
definition min_int64 :: int where "min_int64 = - (2 ^ 63)"

definition Until :: "int \<Rightarrow> int \<Rightarrow> int" where
  "Until now t = max min_int64 (min max_int64 (t - now))"

definition hour :: int where "hour = 3600 * second"
definition day :: int where "day = 24 * hour"

text \<open>Go's division and remainder truncate toward zero.\<close>

definition Hours :: "int \<Rightarrow> rat" where
  "Hours d =
     (let h = sgn d * (\<bar>d\<bar> div hour); nsec = sgn d * (\<bar>d\<bar> mod hour)
      in fl (of_int h + fl (of_int nsec / 3600000000000)))"

text \<open>\<open>int(d.Hours() / 24)\<close>: the conversion truncates toward zero.\<close>

definition whole_days :: "int \<Rightarrow> int" where
  "whole_days d = (let q = fl (Hours d / 24) in if q < 0 then \<lceil>q\<rceil> else \<lfloor>q\<rfloor>)"

section \<open>Accuracy\<close>

lemma bit_len_lower: "0 < n \<Longrightarrow> 2 ^ (bit_len n - 1) \<le> n"
proof (induction n rule: bit_len.induct)
  case (1 n)
  then have s: "bit_len n = Suc (bit_len (n div 2))" by (simp add: bit_len.simps [of n])
  show ?case
  proof (cases "n div 2 = 0")
    case True
    with s "1.prems" show ?thesis by (simp add: bit_len.simps [of 0])
  next
    case False
    then have "bit_len (n div 2) \<noteq> 0" by (simp add: bit_len.simps [of "n div 2"])
    then have "(2 :: nat) ^ bit_len (n div 2) = 2 * 2 ^ (bit_len (n div 2) - 1)"
      by (cases "bit_len (n div 2)") simp_all
    moreover have "2 ^ (bit_len (n div 2) - 1) \<le> n div 2" using "1.IH" "1.prems" False by simp
    ultimately show ?thesis using s by simp
  qed
qed

lemma exponent_bounds:
  assumes "0 < x"
  shows "2 powi exponent x \<le> x" and "x < 2 powi (exponent x + 1)"
proof -
  obtain a b where q: "quotient_of x = (a, b)" by (metis surj_pair)
  have b: "0 < b" using quotient_of_denom_pos [OF q] .
  have x: "x = of_int a / of_int b" by (rule quotient_of_div [OF q])
  with assms b have a: "0 < a" by (simp add: zero_less_divide_iff)
  define m n where "m = bit_len (nat a)" and "n = bit_len (nat b)"
  have pos: "0 < m" "0 < n"
    using a b by (simp_all add: m_def n_def bit_len.simps [of "nat _"])
  have nA: "2 ^ (m - 1) \<le> nat a" "nat a < 2 ^ m" and nB: "2 ^ (n - 1) \<le> nat b" "nat b < 2 ^ n"
    using a b bit_len_lower [of "nat a"] bit_len_bound [of "nat a"] bit_len_lower [of "nat b"]
      bit_len_bound [of "nat b"] by (simp_all add: m_def n_def)
  have cast: "of_nat (nat z) = (of_int z :: rat)" if "0 < z" for z using that by simp
  have A: "2 ^ (m - 1) \<le> (of_int a :: rat)" "(of_int a :: rat) < 2 ^ m"
    using nA cast [OF a] by (metis of_nat_le_iff of_nat_less_iff of_nat_numeral of_nat_power)+
  have B: "2 ^ (n - 1) \<le> (of_int b :: rat)" "(of_int b :: rat) < 2 ^ n"
    using nB cast [OF b] by (metis of_nat_le_iff of_nat_less_iff of_nat_numeral of_nat_power)+
  define k where "k = int m - int n"
  have p: "(2 :: rat) powi (k - 1) = 2 ^ (m - 1) / 2 ^ n" "(2 :: rat) powi (k + 1) = 2 ^ m / 2 ^ (n - 1)"
    using pos by (cases m; cases n; simp add: k_def power_int_diff power_int_add field_simps)+
  have bp: "0 < (of_int b :: rat)" and ap: "0 \<le> (of_int a :: rat)" using a b by simp_all
  have "(2 :: rat) ^ (m - 1) / 2 ^ n \<le> x" unfolding x
    by (rule frac_le) (use A B bp ap in auto)
  moreover have "x < 2 ^ m / 2 ^ (n - 1)" unfolding x
    by (rule frac_less [OF ap A(2) _ B(1)]) simp
  ultimately have lo: "2 powi (k - 1) \<le> x" and hi: "x < 2 powi (k + 1)" using p by simp_all
  have e: "exponent x = (if 2 powi k \<le> x then k else k - 1)"
    by (simp add: exponent_def q k_def m_def n_def)
  show "2 powi exponent x \<le> x" and "x < 2 powi (exponent x + 1)"
    using e lo hi by (auto simp: not_le)
qed

lemma round_half_even_error: "\<bar>of_int (round_half_even y) - y\<bar> \<le> 1 / 2"
proof -
  define r where "r = y - of_int \<lfloor>y\<rfloor>"
  have "0 \<le> r" "r < 1" and y: "y = of_int \<lfloor>y\<rfloor> + r" unfolding r_def by linarith+
  then have "r \<le> 1 / 2 \<Longrightarrow> \<bar>- r\<bar> \<le> 1 / 2" and "1 / 2 \<le> r \<Longrightarrow> \<bar>1 - r\<bar> \<le> 1 / 2" by auto
  moreover have "of_int (round_half_even y) - y = - r \<and> r \<le> 1 / 2 \<or> of_int (round_half_even y) - y = 1 - r \<and> 1 / 2 \<le> r"
    using y by (auto simp: round_half_even_def Let_def r_def [symmetric])
  ultimately show ?thesis by (elim disjE conjE) simp_all
qed

lemma fl_error:
  assumes "0 \<le> x"
  shows "\<bar>fl x - x\<bar> \<le> x / 2 ^ 53"
proof (cases "x = 0")
  case False
  with assms have x: "0 < x" by simp
  define u :: rat where "u = 2 powi (exponent x - 52)"
  have u: "0 < u" by (simp add: u_def)
  have "u * of_int (round_half_even (x / u)) - x = u * (of_int (round_half_even (x / u)) - x / u)"
    using u by (simp add: field_simps)
  then have "\<bar>fl x - x\<bar> = u * \<bar>of_int (round_half_even (x / u)) - x / u\<bar>"
    using x u by (simp add: fl_def fl_pos_def Let_def u_def abs_mult)
  also have "\<dots> \<le> u * (1 / 2)"
    by (rule mult_left_mono [OF round_half_even_error]) (use u in simp)
  also have "u = 2 powi exponent x / 2 ^ 52" by (simp add: u_def power_int_diff)
  also have "2 powi exponent x / 2 ^ 52 * (1 / 2) \<le> x / 2 ^ 53"
    using exponent_bounds(1) [OF x] by simp
  finally show ?thesis .
qed (simp add: fl_def)

text \<open>
  The day count of a duration that is not negative: the rounding errors of the three operations
  together stay below 3 microseconds.
\<close>

lemma whole_days_bounds:
  assumes "0 \<le> d" and "d \<le> max_int64"
  shows "(d - 3000) div day \<le> whole_days d \<and> whole_days d \<le> (d + 3000) div day"
proof -
  define h m where "h = d div hour" and "m = d mod hour"
  have H: "hour = 3600000000000" "day = 86400000000000" by (simp_all add: day_def hour_def second_def)
  have d: "d = h * hour + m" "0 \<le> h" "0 \<le> m" "m < hour"
    using assms(1) by (simp_all add: h_def m_def H)
  have "d \<le> 9223372036854775807" using assms(2) by (simp add: max_int64_def)
  then have h: "h \<le> 2562048" using d(1,3) unfolding H by linarith
  define x :: rat where "x = of_int m / 3600000000000"
  have x: "0 \<le> x" "x < 1" using d H by (simp_all add: x_def)
  define s where "s = of_int h + fl x"
  define t where "t = fl s / 24"
  define E :: rat where "E = 1 / 2 ^ 53"
  have hr: "0 \<le> (of_int h :: rat)" "(of_int h :: rat) \<le> 2562048" using d(2) h by simp_all
  have e1: "\<bar>fl x - x\<bar> \<le> x * E" using fl_error [OF x(1)] by (simp add: E_def)
  have "x * E \<le> x" using x by (simp add: E_def)
  then have fx: "0 \<le> fl x" "fl x \<le> 2" using e1 x by linarith+
  have s: "0 \<le> s" "s \<le> 2562050" using fx hr by (simp_all add: s_def)
  have e2: "\<bar>fl s - s\<bar> \<le> s * E" using fl_error [OF s(1)] by (simp add: E_def)
  have "s * E \<le> s" "s * E \<le> 1" using s by (simp_all add: E_def)
  then have t: "0 \<le> t" "t \<le> 2562051 / 24" using e2 s by (simp_all add: t_def)
  have e3: "\<bar>fl t - t\<bar> \<le> t * E" using fl_error [OF t(1)] by (simp add: E_def)
  have "Hours d = fl s"
    using assms(1) by (simp add: Hours_def Let_def s_def x_def h_def m_def sgn_if zdiv_eq_0_iff)
  then have w: "whole_days d = (if fl t < 0 then \<lceil>fl t\<rceil> else \<lfloor>fl t\<rfloor>)"
    by (simp add: whole_days_def t_def Let_def)
  have "t * E \<le> t" using t by (simp add: E_def)
  then have "0 \<le> fl t" using e3 by linarith
  then have w: "whole_days d = \<lfloor>fl t\<rfloor>" using w by simp
  have exact: "(of_int d :: rat) / of_int day = (of_int h + x) / 24"
    using d(1) by (simp add: x_def H field_simps)
  have "x * E \<le> E" "s * E \<le> 2562050 * E" "24 * (t * E) \<le> 2562051 * E"
    using x s t by (simp_all add: E_def)
  moreover have "fl s = 24 * t" "s = of_int h + fl x" by (simp_all add: t_def s_def)
  ultimately have "24 * fl t - (of_int h + x) \<le> 5124102 * E" "(of_int h + x) - 24 * fl t \<le> 5124102 * E"
    using e1 e2 e3 unfolding abs_le_iff by linarith+
  moreover have "5124102 * E \<le> 24 * (3000 / 86400000000000)" by (simp add: E_def)
  ultimately have "\<bar>24 * fl t - (of_int h + x)\<bar> \<le> 24 * (3000 / 86400000000000)"
    unfolding abs_le_iff minus_diff_eq by (blast intro: order_trans)
  then have "\<bar>fl t - (of_int h + x) / 24\<bar> \<le> 3000 / 86400000000000"
    by (simp add: abs_le_iff field_simps)
  then have "\<bar>fl t - of_int d / of_int day\<bar> \<le> 3000 / of_int day"
    unfolding exact by (simp add: H(2))
  then have "of_int (d - 3000) / of_int day \<le> fl t" "fl t \<le> of_int (d + 3000) / of_int day"
    by (simp_all add: abs_le_iff diff_divide_distrib add_divide_distrib)
  then have "\<lfloor>of_int (d - 3000) / of_int day :: rat\<rfloor> \<le> \<lfloor>fl t\<rfloor>" "\<lfloor>fl t\<rfloor> \<le> \<lfloor>of_int (d + 3000) / of_int day :: rat\<rfloor>"
    by (blast intro: floor_mono)+
  then show ?thesis unfolding w floor_divide_of_int_eq by simp
qed

lemma fl_nonneg: "0 \<le> x \<Longrightarrow> 0 \<le> fl x"
proof -
  assume "0 \<le> x"
  then have "x / 2 ^ 53 \<le> x" "\<bar>fl x - x\<bar> \<le> x / 2 ^ 53" using fl_error by simp_all
  then show ?thesis by linarith
qed

lemma whole_days_nonneg: "0 \<le> d \<Longrightarrow> 0 \<le> whole_days d"
proof -
  assume d: "0 \<le> d"
  have H: "0 < hour" by (simp add: hour_def)
  have "0 \<le> Hours d"
    unfolding Hours_def Let_def using d H
    by (intro fl_nonneg add_nonneg_nonneg divide_nonneg_nonneg)
       (simp_all add: sgn_if pos_imp_zdiv_nonneg_iff)
  then have "0 \<le> fl (Hours d / 24)" by (simp add: fl_nonneg)
  then show ?thesis by (simp add: whole_days_def Let_def)
qed

end
