(* ===== verification/Decimal.thy ===== *)
theory Decimal
  imports Prelude
begin

text \<open>
  Decimal text: \<open>strconv\<close>'s printing of integers, the reading of digit strings, and the fact that the
  second undoes the first. Shared by the JSON text, the flags and the printed report.
\<close>

section \<open>Characters\<close>

definition code :: "char \<Rightarrow> nat" where
  "code c = of_char c"

definition is_digit :: "char \<Rightarrow> bool" where
  "is_digit c \<longleftrightarrow> 48 \<le> code c \<and> code c \<le> 57"

definition digit :: "nat \<Rightarrow> char" where
  "digit n = char_of (48 + n)"

lemma code_char_of [simp]: "n < 256 \<Longrightarrow> code (char_of n) = n"
  by (simp add: code_def)

lemma code_inject: "code c = code d \<longleftrightarrow> c = d"
  by (simp add: code_def)

lemma code_less: "code c < 256"
  by (simp add: code_def)

lemma digit_code [simp]: "n < 10 \<Longrightarrow> code (digit n) = 48 + n" "n < 10 \<Longrightarrow> is_digit (digit n)"
  by (simp_all add: digit_def is_digit_def)

section \<open>Printing\<close>

function show_nat :: "nat \<Rightarrow> string" where
  "show_nat n = (if n < 10 then [digit n] else show_nat (n div 10) @ [digit (n mod 10)])"
  by pat_completeness auto
termination
  by (relation "measure id") auto

declare show_nat.simps [simp del]

definition show_int :: "int \<Rightarrow> string" where
  "show_int i = (if i < 0 then ''-'' @ show_nat (nat (- i)) else show_nat (nat i))"

section \<open>Reading\<close>

text \<open>The value of a string of digits, leading zeros allowed.\<close>

definition read_digits :: "string \<Rightarrow> nat" where
  "read_digits ds = foldl (\<lambda>a c. 10 * a + (code c - 48)) 0 ds"

lemma read_digits_snoc [simp]: "read_digits (ds @ [c]) = 10 * read_digits ds + (code c - 48)"
  by (simp add: read_digits_def)

lemma show_nat_digits: "list_all is_digit (show_nat n)"
  and show_nat_nonempty: "show_nat n \<noteq> []"
  and show_nat_value: "read_digits (show_nat n) = n"
proof -
  have "list_all is_digit (show_nat n) \<and> show_nat n \<noteq> [] \<and> read_digits (show_nat n) = n"
  proof (induction n rule: show_nat.induct)
    case (1 n)
    show ?case
    proof (cases "n < 10")
      case True
      then show ?thesis by (simp add: show_nat.simps [of n] read_digits_def)
    next
      case False
      with "1.IH" have "list_all is_digit (show_nat (n div 10))" "read_digits (show_nat (n div 10)) = n div 10"
        by simp_all
      with False show ?thesis by (simp add: show_nat.simps [of n])
    qed
  qed
  then show "list_all is_digit (show_nat n)" "show_nat n \<noteq> []" "read_digits (show_nat n) = n" by auto
qed

text \<open>No leading zero, except for zero itself.\<close>

lemma show_nat_head: "0 < n \<Longrightarrow> hd (show_nat n) \<noteq> CHR ''0''"
proof (induction n rule: show_nat.induct)
  case (1 n)
  show ?case
  proof (cases "n < 10")
    case True
    have "digit n \<noteq> CHR ''0''"
    proof
      assume "digit n = CHR ''0''"
      then have "code (digit n) = 48" by (simp add: code_def)
      with True "1.prems" show False by simp
    qed
    with True show ?thesis by (simp add: show_nat.simps [of n])
  next
    case False
    with "1.IH" have "hd (show_nat (n div 10)) \<noteq> CHR ''0''" by simp
    with False show_nat_nonempty [of "n div 10"] show ?thesis by (simp add: show_nat.simps [of n])
  qed
qed

lemma show_nat_zero: "show_nat 0 = ''0''"
proof -
  have "char_of (48 :: nat) = CHR ''0''" by code_simp
  then show ?thesis by (simp add: show_nat.simps digit_def)
qed

text \<open>Go's \<open>int\<close> and \<open>int64\<close>.\<close>

definition int64 :: "int \<Rightarrow> bool" where
  "int64 i \<longleftrightarrow> - (2 ^ 63) \<le> i \<and> i < 2 ^ 63"

text \<open>
  \<open>strconv.ParseInt(s, 10, 64)\<close> on a number literal of JSON: an optional minus and digits, nothing else,
  and in range.
\<close>

definition parse_int64 :: "string \<Rightarrow> int option" where
  "parse_int64 s =
     (let neg = (s \<noteq> [] \<and> hd s = CHR ''-''); ds = (if neg then tl s else s);
          n = (if neg then - int (read_digits ds) else int (read_digits ds))
      in if ds \<noteq> [] \<and> list_all is_digit ds \<and> - (2 ^ 63) \<le> n \<and> n < 2 ^ 63 then Some n else None)"

lemma minus_no_digit: "\<not> is_digit CHR ''-''"
  by (simp add: is_digit_def code_def)

lemma parse_show_int:
  assumes "- (2 ^ 63) \<le> i" and "i < 2 ^ 63"
  shows "parse_int64 (show_int i) = Some i"
proof (cases "i < 0")
  case True
  with assms show ?thesis
    by (simp add: parse_int64_def show_int_def show_nat_digits show_nat_nonempty show_nat_value Let_def)
next
  case False
  have "hd (show_nat (nat i)) \<noteq> CHR ''-''"
    using show_nat_digits [of "nat i"] show_nat_nonempty [of "nat i"] minus_no_digit
    by (cases "show_nat (nat i)") auto
  with False assms show ?thesis
    by (simp add: parse_int64_def show_int_def show_nat_digits show_nat_nonempty show_nat_value Let_def)
qed

end
