(* ===== verification/Scanner.thy ===== *)
theory Scanner
  imports Vulns Guard Clock Decimal
begin

text \<open>
  The scan of pkg/tlsscan/scanner.go: the guard, the protocol probes, the certificate with its
  analysis, the enumeration of ciphers, the vulnerability layer and the rating, composed as \<open>Scan\<close>
  composes them. What the scan gets from outside is the record \<open>environment\<close>: the resolver, with the
  time it takes for a name, what dials to an address meet, crypto/tls, the parts of crypto/x509
  (parsing, \<open>VerifyHostname\<close>, \<open>Verify\<close> at a time), the key exchange functions and the iteration order
  of the catalog. An outcome \<open>None\<close> is a panic.
\<close>

record environment =
  e_lookupIP :: "string \<Rightarrow> string + bytes list"
  e_lookup_time :: "string \<Rightarrow> nat"
  e_net :: "string \<Rightarrow> nat \<Rightarrow> dial_outcome"
  e_tls :: tls_client
  e_x509 :: "bytes \<Rightarrow> rsa_key option"
  e_kex :: kex_lib
  e_VerifyHostname :: "x509_cert \<Rightarrow> string \<Rightarrow> bool"
  e_Verify :: "int \<Rightarrow> x509_cert \<Rightarrow> x509_cert list \<Rightarrow> bool"
  e_order :: "cipher_meta list"

section \<open>Handshakes at a version\<close>

definition version_config :: "options \<Rightarrow> nat \<Rightarrow> nat \<Rightarrow> tls_config" where
  "version_config opts lo hi =
     \<lparr>tc_ServerName = Host opts, tc_MinVersion = lo, tc_MaxVersion = hi, tc_CipherSuites = [], tc_NextProtos = []\<rparr>"

definition handshakeAt :: "tls_client \<Rightarrow> int option \<Rightarrow> options \<Rightarrow> nat \<Rightarrow> nat \<Rightarrow> world \<Rightarrow> bool \<times> world" where
  "handshakeAt tls ctx opts lo hi =
     with_conn ctx (Timeout opts) (\<lambda>_. False)
       (handshake tls ctx (version_config opts lo hi)
          (\<lambda>r. case r of Inl e \<Rightarrow> False | Inr st \<Rightarrow> cs_Version st = hi))"

definition probeProtocols :: "tls_client \<Rightarrow> int option \<Rightarrow> options \<Rightarrow> world \<Rightarrow> protocols \<times> world" where
  "probeProtocols tls ctx opts =
     (let p = no_protocols
      in seq (handshakeAt tls ctx opts VersionTLS10 VersionTLS10) (\<lambda>b.
         let p = p\<lparr>TLS10 := b\<rparr> in
         seq (handshakeAt tls ctx opts VersionTLS11 VersionTLS11) (\<lambda>b.
         let p = p\<lparr>TLS11 := b\<rparr> in
         seq (handshakeAt tls ctx opts VersionTLS12 VersionTLS12) (\<lambda>b.
         let p = p\<lparr>TLS12 := b\<rparr> in
         seq (handshakeAt tls ctx opts VersionTLS13 VersionTLS13) (\<lambda>b.
         let p = p\<lparr>TLS13 := b\<rparr> in
         seq (ProbeSSL3 ctx (Timeout opts)) (\<lambda>b.
         let p = p\<lparr>SSL3 := b\<rparr> in
         seq (ProbeSSL2 ctx (Timeout opts)) (\<lambda>b.
         Pair (p\<lparr>SSL2 := b\<rparr>))))))))"

section \<open>The certificate\<close>

type_synonym fetched = "net_err + x509_cert list \<times> string list"

definition certificate_config :: "options \<Rightarrow> nat \<Rightarrow> tls_config" where
  "certificate_config opts maxVer =
     \<lparr>tc_ServerName = Host opts, tc_MinVersion = VersionTLS10, tc_MaxVersion = maxVer, tc_CipherSuites = [],
      tc_NextProtos = [''h2'', ''http/1.1'']\<rparr>"

definition peer_certificates :: "net_err + conn_state \<Rightarrow> fetched" where
  "peer_certificates r =
     (case r of
        Inl err \<Rightarrow> Inl err
      | Inr state \<Rightarrow>
          if length (cs_PeerCertificates state) = 0
          then Inl \<lparr>ne_timeout = False, ne_msg = ''no peer certificate''\<rparr>
          else let alpn = [];
                   alpn = (if cs_NegotiatedProtocol state \<noteq> [] then alpn @ [cs_NegotiatedProtocol state] else alpn)
               in Inr (cs_PeerCertificates state, alpn))"

definition fetchCertificateAt :: "tls_client \<Rightarrow> int option \<Rightarrow> options \<Rightarrow> nat \<Rightarrow> world \<Rightarrow> fetched \<times> world" where
  "fetchCertificateAt tls ctx opts maxVer =
     with_conn ctx (Timeout opts) Inl
       (handshake tls ctx (certificate_config opts maxVer) peer_certificates)"

definition fetchCertificate :: "tls_client \<Rightarrow> int option \<Rightarrow> options \<Rightarrow> world \<Rightarrow> fetched \<times> world" where
  "fetchCertificate tls ctx opts =
     seq (fetchCertificateAt tls ctx opts VersionTLS13) (\<lambda>r. case r of
         Inl err \<Rightarrow> fetchCertificateAt tls ctx opts VersionTLS12
       | Inr x \<Rightarrow> Pair (Inr x))"

definition verifyChainComplete :: "environment \<Rightarrow> int \<Rightarrow> x509_cert list \<Rightarrow> bool" where
  "verifyChainComplete env now chain =
     (case chain of
        [] \<Rightarrow> False
      | leaf # intermediates \<Rightarrow> e_Verify env now leaf intermediates)"

text \<open>
  The analysis reads the clock twice, for \<open>time.Until\<close> and for \<open>Valid\<close>; no time passes between in
  the model. An empty chain is an index out of range.
\<close>

definition analyseCertificate ::
  "environment \<Rightarrow> int \<Rightarrow> x509_cert list \<Rightarrow> string \<Rightarrow> certificate option" where
  "analyseCertificate env now chain host =
     (case chain of
        [] \<Rightarrow> None
      | cert # _ \<Rightarrow>
          let c = no_certificate\<lparr>
                    Subject := cert_Subject cert, Issuer := cert_Issuer cert, NotBefore := cert_NotBefore cert,
                    NotAfter := cert_NotAfter cert, DaysToExpiry := whole_days (Until now (cert_NotAfter cert)),
                    SignatureAlgo := cert_SignatureAlgorithm cert, SANs := cert_DNSNames cert\<rparr>;
              c = c\<lparr>Valid := cert_NotBefore cert < now \<and> now < cert_NotAfter cert\<rparr>;
              c = c\<lparr>SelfSigned := cert_Issuer cert = cert_Subject cert\<rparr>;
              c = c\<lparr>HostnameMatch := e_VerifyHostname env cert host\<rparr>;
              c = c\<lparr>ChainComplete := verifyChainComplete env now chain\<rparr>;
              c = (case cert_PublicKey cert of
                     RSAKey pub \<Rightarrow> c\<lparr>KeyType := ''RSA'', KeyBits := int (bit_len (pk_n pub))\<rparr>
                   | ECDSAKey bits \<Rightarrow> c\<lparr>KeyType := ''ECDSA'', KeyBits := int bits\<rparr>
                   | OtherKey \<Rightarrow> c\<lparr>KeyType := ''unknown''\<rparr>)
          in Some (if sublist ''sha1'' (ToLower (SignatureAlgo c)) then c\<lparr>Distrusted := True\<rparr> else c))"

fun contains :: "string list \<Rightarrow> string \<Rightarrow> bool" where
  "contains [] v = False"
| "contains (x # xs) v = (if x = v then True else contains xs v)"

section \<open>Scan\<close>

definition RulesetVersion :: string where
  "RulesetVersion = ''ssllabs-rating-2009r''"

definition with_defaults :: "options \<Rightarrow> options" where
  "with_defaults opts =
     (let opts = (if Port opts = 0 then opts\<lparr>Port := 443\<rparr> else opts)
      in if Timeout opts = 0 then opts\<lparr>Timeout := 15 * second\<rparr> else opts)"

definition initial_result :: "options \<Rightarrow> result" where
  "initial_result opts =
     \<lparr>r_Host = Host opts, r_Port = Port opts, r_Grade = None, r_GradeCaps = [],
      r_Protocols = no_protocols, r_Certificate = no_certificate, r_Ciphers = no_ciphers,
      r_ForwardSecrecy = False, r_Vulnerabilities = no_vulnerabilities, r_Rating = no_rating,
      r_ScanDurationMs = 0, r_RulesetVersion = RulesetVersion, r_Errors = []\<rparr>"

definition time_Now :: "world \<Rightarrow> int \<times> world" where
  "time_Now w = (w_now w, w)"

text \<open>Step 2 on the fetched certificate: \<open>None\<close> is a panic of the analysis.\<close>

definition with_certificate :: "environment \<Rightarrow> options \<Rightarrow> int \<Rightarrow> fetched \<Rightarrow> result \<Rightarrow> result option" where
  "with_certificate env opts now fetched res =
     (case fetched of
        Inl err \<Rightarrow> Some (res\<lparr>r_Errors := r_Errors res @ [''certificate: '' @ ne_msg err]\<rparr>)
      | Inr (chain, alpn) \<Rightarrow>
          map_option (\<lambda>c. res\<lparr>r_Certificate := c,
              r_Protocols := (r_Protocols res)\<lparr>ALPN := alpn, HTTP2 := contains alpn ''h2''\<rparr>\<rparr>)
            (analyseCertificate env now chain (Host opts)))"

definition with_rating :: "result \<Rightarrow> result" where
  "with_rating res =
     (case rate res of (b, g, caps) \<Rightarrow> res\<lparr>r_Rating := b, r_Grade := Some g, r_GradeCaps := caps\<rparr>)"

text \<open>Steps 4 and 5, on the result of steps 1 to 3.\<close>

definition finish_scan :: "environment \<Rightarrow> int option \<Rightarrow> options \<Rightarrow> int \<Rightarrow> result \<Rightarrow> world \<Rightarrow> result option \<times> world" where
  "finish_scan env ctx opts start res =
     seqp (if CheckVulns opts then probeVulnerabilities (e_kex env) (e_x509 env) ctx opts res
           else Pair (Some (r_Vulnerabilities res))) (\<lambda>v.
     let res = with_rating (res\<lparr>r_Vulnerabilities := v\<rparr>) in
     seq time_Now (\<lambda>now.
     Pair (Some (res\<lparr>r_ScanDurationMs := (now - start) div millisecond\<rparr>))))"

definition run_scan :: "environment \<Rightarrow> int option \<Rightarrow> options \<Rightarrow> int \<Rightarrow> world \<Rightarrow> result option \<times> world" where
  "run_scan env ctx opts start =
     (let res = initial_result opts
      in seq (probeProtocols (e_tls env) ctx opts) (\<lambda>p.
         let res = res\<lparr>r_Protocols := p\<rparr> in
         seq (fetchCertificate (e_tls env) ctx opts) (\<lambda>fetched.
         seq time_Now (\<lambda>now.
         seqp (Pair (with_certificate env opts now fetched res)) (\<lambda>res.
         seq (probeCiphers (e_order env) (e_tls env) ctx opts) (\<lambda>(ciphers, fs).
         finish_scan env ctx opts start (res\<lparr>r_Ciphers := ciphers, r_ForwardSecrecy := fs\<rparr>)))))))"

text \<open>
  The address that is dialled, by all probes, as the host was given: neither trimmed nor the addresses
  the guard has seen. Dialling it looks the name up again, with an outcome of its own.
\<close>

definition JoinHostPort :: "string \<Rightarrow> string \<Rightarrow> string" where
  "JoinHostPort host port = (if CHR '':'' \<in> set host then ''['' @ host @ '']:'' @ port else host @ '':'' @ port)"

definition address :: "options \<Rightarrow> string" where
  "address opts = JoinHostPort (Host opts) (show_int (Port opts))"

definition dialling :: "environment \<Rightarrow> string \<Rightarrow> world \<Rightarrow> world" where
  "dialling env addr w = w\<lparr>w_net := e_net env addr\<rparr>"

text \<open>The guard's lookup takes its time.\<close>

definition waited :: "nat \<Rightarrow> world \<Rightarrow> world" where
  "waited t w = w\<lparr>w_now := w_now w + int t\<rparr>"

definition lookup_time :: "environment \<Rightarrow> string \<Rightarrow> nat" where
  "lookup_time env host = (case looked_up host of None \<Rightarrow> 0 | Some h \<Rightarrow> e_lookup_time env h)"

definition Scan ::
  "environment \<Rightarrow> int option \<Rightarrow> options \<Rightarrow> world \<Rightarrow> (guard_error + result) option \<times> world" where
  "Scan env ctx opts w =
     (let start = w_now w;
          opts = with_defaults opts;
          w = waited (lookup_time env (Host opts)) w
      in case guardTarget (e_lookupIP env) (Host opts) of
           Some err \<Rightarrow> (Some (Inl err), w)
         | None \<Rightarrow> (case run_scan env ctx opts start (dialling env (address opts) w) of
                      (r, w') \<Rightarrow> (map_option Inr r, w')))"

section \<open>Resources\<close>

lemma handshakeAt_net_op:
  "tls_contract tls \<Longrightarrow> net_op (handshakeAt tls ctx opts lo hi) (0 < Timeout opts) (2 * max 0 (Timeout opts))"
  unfolding handshakeAt_def by (rule net_op_mono [OF handshake_net_op]) auto

lemma fetchCertificateAt_net_op:
  "tls_contract tls \<Longrightarrow> net_op (fetchCertificateAt tls ctx opts v) (0 < Timeout opts) (2 * max 0 (Timeout opts))"
  unfolding fetchCertificateAt_def by (rule net_op_mono [OF handshake_net_op]) auto

lemma probeProtocols_net_op:
  assumes "tls_contract tls"
  shows "net_op (probeProtocols tls ctx opts) (0 < Timeout opts) (8 * max 0 (Timeout opts) + 16 * second)"
proof -
  note h = handshakeAt_net_op [OF assms]
  let ?h = "2 * max 0 (Timeout opts)"
  have "net_op (probeProtocols tls ctx opts) (0 < Timeout opts)
      (?h + (?h + (?h + (?h + (8 * second + (8 * second + 0))))))"
    unfolding probeProtocols_def Let_def
    by (intro net_op_seq h ProbeSSL3_net_op ProbeSSL2_net_op net_op_pure)
  moreover have "2 * m + (2 * m + (2 * m + (2 * m + (8 * s + (8 * s + 0))))) = 8 * m + 16 * s" for m s :: int
    by simp
  ultimately show ?thesis by (simp only:)
qed

lemma fetchCertificate_net_op:
  assumes "tls_contract tls"
  shows "net_op (fetchCertificate tls ctx opts) (0 < Timeout opts) (4 * max 0 (Timeout opts))"
proof -
  note f = fetchCertificateAt_net_op [OF assms, of ctx opts]
  have p: "net_op (Pair x) (0 < Timeout opts) (2 * max 0 (Timeout opts))" for x :: fetched
    by (rule net_op_mono [OF net_op_pure]) simp_all
  have "net_op (fetchCertificate tls ctx opts) (0 < Timeout opts)
      (2 * max 0 (Timeout opts) + 2 * max 0 (Timeout opts))"
    unfolding fetchCertificate_def
    by (rule net_op_seq [OF f]) (simp add: f p split: sum.splits)
  then show ?thesis by simp
qed

lemma time_Now_net_op: "net_op time_Now b 0"
  by unfold_locales (auto simp: time_Now_def)

text \<open>The bound of a whole scan with \<open>n\<close> suites in the catalog.\<close>

definition scan_bound :: "nat \<Rightarrow> int \<Rightarrow> int" where
  "scan_bound n timeout = (2 * int n + 16) * max 0 timeout + 163200 * millisecond"

lemma finish_scan_net_op:
  "net_op (finish_scan env ctx opts start res) (0 < Timeout opts)
     (4 * max 0 (Timeout opts) + 147200 * millisecond)"
proof -
  let ?n = "4 * max 0 (Timeout opts) + 147200 * millisecond"
  have "net_op (finish_scan env ctx opts start res) (0 < Timeout opts) (?n + (0 + 0))"
    unfolding finish_scan_def Let_def
    by (intro net_op_seqp net_op_seq net_op_if probeVulnerabilities_net_op time_Now_net_op net_op_pure)
       (simp_all add: millisecond_def)
  then show ?thesis by simp
qed

lemma run_scan_net_op:
  assumes "tls_contract (e_tls env)"
  shows "net_op (run_scan env ctx opts start) (0 < Timeout opts) (scan_bound (length (e_order env)) (Timeout opts))"
proof -
  let ?T = "max 0 (Timeout opts)" and ?n = "int (length (e_order env))"
  have c: "net_op (probeCiphers (e_order env) (e_tls env) ctx opts) (0 < Timeout opts) (?n * (2 * ?T))"
    unfolding probeCiphers_def by (rule probeCiphers_loop_net_op [OF assms])
  have nn: "0 \<le> ?n * (2 * ?T) + (4 * ?T + 147200 * millisecond)"
    by (simp add: millisecond_def)
  have "net_op (run_scan env ctx opts start) (0 < Timeout opts)
      ((8 * ?T + 16 * second) + (4 * ?T + (0 + (0 + (?n * (2 * ?T) + (4 * ?T + 147200 * millisecond))))))"
    unfolding run_scan_def Let_def prod.case_eq_if
    by (intro net_op_seqp net_op_seq c probeProtocols_net_op fetchCertificate_net_op assms time_Now_net_op
          net_op_pure finish_scan_net_op nn)
  moreover have "(8 * t + 16 * second) + (4 * t + (0 + (0 + (n * (2 * t) + (4 * t + 147200 * millisecond))))) =
      (2 * n + 16) * t + 163200 * millisecond" for n t
    by (simp add: second_def millisecond_def distrib_right)
  ultimately show ?thesis by (simp only: scan_bound_def)
qed

text \<open>Under a context with a deadline the parts stop soon after it, and so does the scan.\<close>

definition overrun :: "int \<Rightarrow> int" where
  "overrun timeout = max (3 * max 0 timeout) (7200 * millisecond)"

lemma overrun_le:
  "d + max 0 timeout \<le> d + overrun timeout" "d + 4 * second \<le> d + overrun timeout"
  by (auto simp: overrun_def second_def millisecond_def)

lemma time_Now_stops: "stops time_Now D"
  by (simp add: stops_def time_Now_def)

lemma probeCiphers_loop_stops:
  assumes "tls_contract tls"
  shows "stops (probeCiphers_loop tls (Some d) opts ms st) (d + max 0 (Timeout opts))"
proof (induction ms arbitrary: st)
  case Nil
  have "probeCiphers_loop tls (Some d) opts [] st = Pair st" by (simp add: fun_eq_iff)
  then show ?case by (simp add: stops_pure)
next
  case (Cons m ms)
  have "probeCiphers_loop tls (Some d) opts (m # ms) st = seq (cipherAccepted tls (Some d) opts (cm_id m))
      (\<lambda>ok. probeCiphers_loop tls (Some d) opts ms (if ok then add_cipher m st else st))"
    by (simp add: fun_eq_iff seq_def)
  moreover have "stops (cipherAccepted tls (Some d) opts suite) (d + max 0 (Timeout opts))" for suite
    unfolding cipherAccepted_def by (rule handshake_stops [OF assms])
  ultimately show ?case by (simp only:) (intro stops_seq Cons.IH)
qed

lemma run_scan_stops:
  assumes "tls_contract (e_tls env)"
  shows "stops (run_scan env (Some d) opts start) (d + overrun (Timeout opts))" (is "stops _ ?D")
proof -
  note le = overrun_le [of d "Timeout opts"]
  have h: "stops (handshakeAt (e_tls env) (Some d) opts lo hi) ?D"
    and f: "stops (fetchCertificateAt (e_tls env) (Some d) opts v) ?D" for lo hi v
    unfolding handshakeAt_def fetchCertificateAt_def
    by (rule stops_mono [OF handshake_stops [OF assms] le(1)])+
  have p: "stops (probeProtocols (e_tls env) (Some d) opts) ?D"
    unfolding probeProtocols_def Let_def
    by (intro stops_seq h stops_pure stops_mono [OF legacy_stops(1) le(2)] stops_mono [OF legacy_stops(2) le(2)])
  have c: "stops (fetchCertificate (e_tls env) (Some d) opts) ?D"
    unfolding fetchCertificate_def
    by (intro stops_seq f) (auto intro: f stops_pure split: sum.splits)
  have k: "stops (probeCiphers order (e_tls env) (Some d) opts) ?D" for order
    unfolding probeCiphers_def by (rule stops_mono [OF probeCiphers_loop_stops [OF assms] le(1)])
  have v: "stops (finish_scan env (Some d) opts start res) ?D" for res
    unfolding finish_scan_def Let_def
    by (intro stops_seqp stops_seq stops_if time_Now_stops stops_pure
          probeVulnerabilities_stops [folded overrun_def])
  show ?thesis
    unfolding run_scan_def Let_def prod.case_eq_if
    by (intro stops_seq stops_seqp p c k v time_Now_stops stops_pure)
qed

section \<open>The shape of a scan\<close>

lemma with_conn_cases:
  assumes "with_conn ctx timeout fail body w = (r, w')"
  shows "(\<exists>e. r = fail e) \<or> (\<exists>c v c' v'. body c v = (r, c', v'))"
  using assms by (auto simp: with_conn_def split: prod.splits sum.splits)

lemma peer_certificates_nonempty: "peer_certificates r = Inr (chain, alpn) \<Longrightarrow> chain \<noteq> []"
  by (auto simp: peer_certificates_def Let_def split: sum.splits if_splits)

lemma fetchCertificateAt_nonempty:
  assumes "fetchCertificateAt tls ctx opts v w = (Inr (chain, alpn), w')"
  shows "chain \<noteq> []"
proof -
  from with_conn_cases [OF assms [unfolded fetchCertificateAt_def]] obtain c u c' u' where
    "handshake tls ctx (certificate_config opts v) peer_certificates c u = (Inr (chain, alpn), c', u')" by auto
  then show ?thesis by (auto simp: handshake_def dest: peer_certificates_nonempty split: prod.splits)
qed

lemma fetchCertificate_nonempty:
  assumes "fetchCertificate tls ctx opts w = (Inr (chain, alpn), w')"
  shows "chain \<noteq> []"
  using assms by (auto simp: fetchCertificate_def seq_def dest: fetchCertificateAt_nonempty
      split: prod.splits sum.splits)

lemma with_certificate_total:
  assumes "fetchCertificate tls ctx opts w = (f, w')"
  shows "with_certificate env opts now f res \<noteq> None"
proof (cases f)
  case (Inr x)
  then obtain chain alpn where x: "f = Inr (chain, alpn)" by (cases x) simp
  then have "chain \<noteq> []" using fetchCertificate_nonempty assms by blast
  then obtain leaf rest where "chain = leaf # rest" by (cases chain) auto
  with x show ?thesis by (simp add: with_certificate_def analyseCertificate_def Let_def)
qed (simp add: with_certificate_def)

lemma seq_SomeD: "seq f g w = (r, w') \<Longrightarrow> \<exists>x w1. f w = (x, w1) \<and> g x w1 = (r, w')"
  by (auto simp: seq_def split: prod.splits)

lemma seqp_SomeD: "seqp f g w = (Some r, w') \<Longrightarrow> \<exists>x w1. f w = (Some x, w1) \<and> g x w1 = (Some r, w')"
  by (auto simp: seqp_def seq_def split: prod.splits option.splits)

text \<open>What step 2 leaves alone.\<close>

definition same_head :: "options \<Rightarrow> result \<Rightarrow> bool" where
  "same_head opts r \<longleftrightarrow> r_Host r = Host opts \<and> r_Port r = Port opts \<and> r_RulesetVersion r = RulesetVersion"

lemma with_certificate_head:
  "with_certificate env opts now f res = Some r \<Longrightarrow> same_head opts res \<Longrightarrow> same_head opts r"
  by (auto simp: with_certificate_def same_head_def split: sum.splits)

text \<open>The result of a scan is rated last, on ciphers that are those of an enumeration.\<close>

lemma run_scan_result:
  assumes "run_scan env ctx opts start w = (Some res, w')"
  shows "\<exists>r ms v. res = (with_rating r)\<lparr>r_ScanDurationMs := ms\<rparr> \<and> same_head opts r \<and>
    (r_Ciphers r, r_ForwardSecrecy r) = fst (probeCiphers (e_order env) (e_tls env) ctx opts v)"
proof -
  from assms obtain p fetched now r1 c fs w1 w2 w3 w4 where
    r1: "with_certificate env opts now fetched ((initial_result opts)\<lparr>r_Protocols := p\<rparr>) = Some r1"
    and c: "probeCiphers (e_order env) (e_tls env) ctx opts w3 = ((c, fs), w4)"
    and f: "finish_scan env ctx opts start (r1\<lparr>r_Ciphers := c, r_ForwardSecrecy := fs\<rparr>) w4 = (Some res, w')"
    unfolding run_scan_def Let_def
    by (auto dest!: seq_SomeD seqp_SomeD)
  from f obtain v ms where
    res: "res = (with_rating (r1\<lparr>r_Ciphers := c, r_ForwardSecrecy := fs, r_Vulnerabilities := v\<rparr>))
      \<lparr>r_ScanDurationMs := ms\<rparr>"
    unfolding finish_scan_def Let_def by (auto dest!: seq_SomeD seqp_SomeD)
  have "same_head opts ((initial_result opts)\<lparr>r_Protocols := p\<rparr>)"
    by (simp add: same_head_def initial_result_def)
  from with_certificate_head [OF r1 this] show ?thesis
    by (intro exI [of _ "r1\<lparr>r_Ciphers := c, r_ForwardSecrecy := fs, r_Vulnerabilities := v\<rparr>"] exI [of _ ms] exI [of _ w3])
       (simp add: res c same_head_def)
qed

lemma with_defaults_sel [simp]:
  "Host (with_defaults opts) = Host opts" "CheckVulns (with_defaults opts) = CheckVulns opts"
  "Port (with_defaults opts) = (if Port opts = 0 then 443 else Port opts)"
  "Timeout (with_defaults opts) = (if Timeout opts = 0 then 15 * second else Timeout opts)"
  by (simp_all add: with_defaults_def Let_def)

text \<open>The world the probes start in.\<close>

definition probing_world :: "environment \<Rightarrow> options \<Rightarrow> world \<Rightarrow> world" where
  "probing_world env opts w =
     dialling env (address (with_defaults opts)) (waited (lookup_time env (Host opts)) w)"

lemma probing_world_sel [simp]:
  "w_now (probing_world env opts w) = w_now w + int (lookup_time env (Host opts))"
  "w_open (probing_world env opts w) = w_open w" "w_dials (probing_world env opts w) = w_dials w"
  "w_net (probing_world env opts w) = e_net env (address (with_defaults opts))"
  by (simp_all add: probing_world_def dialling_def waited_def)

lemma waited_sel [simp]:
  "w_now (waited t w) = w_now w + int t" "w_open (waited t w) = w_open w" "w_dials (waited t w) = w_dials w"
  "waited 0 w = w"
  by (simp_all add: waited_def)

lemma Scan_eq:
  "Scan env ctx opts w =
     (case guardTarget (e_lookupIP env) (Host opts) of
        Some err \<Rightarrow> (Some (Inl err), waited (lookup_time env (Host opts)) w)
      | None \<Rightarrow> (case run_scan env ctx (with_defaults opts) (w_now w) (probing_world env opts w) of
                   (r, w') \<Rightarrow> (map_option Inr r, w')))"
  by (simp add: Scan_def Let_def probing_world_def split: option.splits)

lemma Scan_result:
  assumes "Scan env ctx opts w = (Some (Inr res), w')"
  shows "run_scan env ctx (with_defaults opts) (w_now w) (probing_world env opts w) = (Some res, w')"
  using assms by (auto simp: Scan_eq split: option.splits prod.splits)

text \<open>Rating reads none of the fields it fills in.\<close>

lemma rate_cong:
  "rate (r\<lparr>r_Rating := b, r_Grade := g, r_GradeCaps := caps\<rparr>) = rate r"
  "rate (r\<lparr>r_ScanDurationMs := ms\<rparr>) = rate r"
  by (cases r; simp only: rate_def result.simps)+

lemma rate_with_rating:
  "rate (with_rating r) = (r_Rating (with_rating r), the (r_Grade (with_rating r)), r_GradeCaps (with_rating r))"
  "r_Grade (with_rating r) = Some (rate_grade r)"
  by (auto simp: with_rating_def rate_grade_def rate_cong split: prod.splits)

lemma rate_grade_rated: "rate_grade r \<noteq> GradeR"
proof -
  have "rate_grade r \<le> forced_grade r" by (rule rate_grade_le_forced)
  moreover have "forced_grade r \<le> GradeT"
    by (simp add: forced_grade_def numericToGrade_def less_eq_grade_def)
  ultimately show ?thesis by (auto simp: less_eq_grade_def)
qed

text \<open>
  C1. A published result is consistent: its rating, grade and caps are exactly what \<open>rate\<close> gives for the
  result as published (nothing is changed after rating that rating reads), the grade is always set and
  never R, and host, port (443 if none was given) and ruleset are those of the request.
\<close>

theorem Scan_consistent:
  assumes "Scan env ctx opts w = (Some (Inr res), w')"
  shows "\<exists>g. r_Grade res = Some g \<and> rate res = (r_Rating res, g, r_GradeCaps res) \<and> g \<noteq> GradeR \<and>
    r_Host res = Host opts \<and> r_Port res = (if Port opts = 0 then 443 else Port opts) \<and>
    r_RulesetVersion res = RulesetVersion"
proof -
  from run_scan_result [OF Scan_result [OF assms]] obtain r ms where
    res: "res = (with_rating r)\<lparr>r_ScanDurationMs := ms\<rparr>" and h: "same_head (with_defaults opts) r" by blast
  have "same_head (with_defaults opts) (with_rating r)"
    using h by (simp add: same_head_def with_rating_def split: prod.splits)
  then show ?thesis
    using rate_with_rating [of r] rate_grade_rated [of r]
    by (simp add: res rate_cong same_head_def)
qed

lemma scan_rejects:
  "fst (Scan env ctx opts w) = Some (Inl err) \<longleftrightarrow>
     guardTarget (e_lookupIP env) (Host opts) = Some err \<and>
     Scan env ctx opts w = (Some (Inl err), waited (lookup_time env (Host opts)) w)"
  by (auto simp: Scan_eq split: option.splits prod.splits)

text \<open>
  A scan reaches one address only: on a network that differs everywhere else, it does and finds the
  same.
\<close>

lemma scan_one_address:
  assumes "net (address (with_defaults opts)) = e_net env (address (with_defaults opts))"
  shows "Scan (env\<lparr>e_net := net\<rparr>) ctx opts w = Scan env ctx opts w"
proof -
  let ?env = "env\<lparr>e_net := net\<rparr>"
  have "analyseCertificate ?env = analyseCertificate env"
    by (simp add: fun_eq_iff analyseCertificate_def verifyChainComplete_def cong: list.case_cong)
  then have "with_certificate ?env = with_certificate env"
    by (simp add: fun_eq_iff with_certificate_def cong: sum.case_cong)
  moreover have "finish_scan ?env = finish_scan env" by (simp add: fun_eq_iff finish_scan_def)
  ultimately have "run_scan ?env = run_scan env" by (intro ext) (simp add: run_scan_def prod.case_eq_if)
  moreover have "probing_world ?env opts w = probing_world env opts w"
    using assms by (simp add: probing_world_def dialling_def lookup_time_def split: option.split)
  moreover have "lookup_time ?env (Host opts) = lookup_time env (Host opts)"
    by (simp add: lookup_time_def split: option.split)
  ultimately show ?thesis by (simp add: Scan_eq split: option.split)
qed

lemma dialled_address:
  "address (with_defaults opts) =
     (if CHR '':'' \<in> set (Host opts) then ''['' @ Host opts @ '']:'' else Host opts @ '':'') @
     show_int (if Port opts = 0 then 443 else Port opts)"
  by (simp add: address_def JoinHostPort_def)

text \<open>
  C30. The guard comes first, and what it lets through is dialled at one address only. \<open>Scan\<close> returns an
  error exactly when the guard refuses the host, and then it has done nothing else: no connection was
  attempted and the world is as it was, but for the time the resolver took if the host had to be looked
  up. No other failure is an error of the scan. And a scan dials the host as it was given, in brackets if
  it contains a colon, and the port, 443 if none was given: what any other address would answer has no
  influence on the result or on anything else.
\<close>

theorem Scan_rejects_iff:
  "(fst (Scan env ctx opts w) = Some (Inl err) \<longleftrightarrow>
      guardTarget (e_lookupIP env) (Host opts) = Some err \<and>
      Scan env ctx opts w = (Some (Inl err), waited (lookup_time env (Host opts)) w)) \<and>
   (let addr = (if CHR '':'' \<in> set (Host opts) then ''['' @ Host opts @ '']:'' else Host opts @ '':'') @
          show_int (if Port opts = 0 then 443 else Port opts)
    in Scan (env\<lparr>e_net := others(addr := e_net env addr)\<rparr>) ctx opts w = Scan env ctx opts w)"
  unfolding dialled_address [symmetric] Let_def by (rule conjI [OF scan_rejects]) (rule scan_one_address, simp)

lemma run_scan_total:
  assumes "\<not> CheckVulns opts"
  shows "fst (run_scan env ctx opts start w) \<noteq> None"
  using assms with_certificate_total [OF prod.collapse [symmetric]]
  by (simp add: run_scan_def finish_scan_def Let_def snd_seq seqp_none_iff time_Now_def case_prod_unfold
      del: not_None_eq)

text \<open>
  Without the vulnerability probes a scan never panics: the certificate analysis is never handed an
  empty chain, whatever the TLS stack and the server do.
\<close>

theorem Scan_no_panic:
  assumes "\<not> CheckVulns opts"
  shows "fst (Scan env ctx opts w) \<noteq> None"
  using run_scan_total [of "with_defaults opts" env ctx "w_now w" "probing_world env opts w"] assms
  by (auto simp: Scan_eq split: option.splits prod.splits)

text \<open>A concrete environment, a public literal address and a scan of it.\<close>

definition demo_env :: "tls_client \<Rightarrow> environment" where
  "demo_env tls = \<lparr>e_lookupIP = \<lambda>_. Inr [], e_lookup_time = \<lambda>_. 0, e_net = \<lambda>_. w_net (answering []), e_tls = tls, e_x509 = \<lambda>_. None, e_kex = no_kex,
     e_VerifyHostname = \<lambda>_ _. True, e_Verify = \<lambda>_ _ _. True, e_order = cipherCatalog\<rparr>"

definition demo_scan :: "bool \<Rightarrow> options" where
  "demo_scan vulns = \<lparr>Host = dotted 93 184 216 34, Port = 0, Timeout = 0, CheckVulns = vulns, IPVersion = []\<rparr>"

lemma demo_guard: "guardTarget lookupIP (Host (demo_scan vulns)) = None"
  using guard_literal [of lookupIP 93 184 216 34]
  by (simp add: demo_scan_def blocked_v4_def in_cidr_def be_nat_Cons)

lemma demo_scan_runs:
  "Scan (demo_env tls) ctx (demo_scan vulns) w =
     (case run_scan (demo_env tls) ctx (with_defaults (demo_scan vulns)) (w_now w)
        (probing_world (demo_env tls) (demo_scan vulns) w) of (r, w') \<Rightarrow> (map_option Inr r, w'))"
  by (simp add: Scan_eq demo_guard)

lemma demo_scan_result:
  "\<exists>res w'. Scan (demo_env tls) ctx (demo_scan False) w = (Some (Inr res), w')"
proof -
  let ?v = "probing_world (demo_env tls) (demo_scan False) w"
  have "fst (run_scan (demo_env tls) ctx (with_defaults (demo_scan False)) (w_now w) ?v) \<noteq> None"
    by (rule run_scan_total) (simp add: demo_scan_def)
  then obtain res w' where
    "run_scan (demo_env tls) ctx (with_defaults (demo_scan False)) (w_now w) ?v = (Some res, w')"
    by (metis not_None_eq prod.collapse)
  then show ?thesis by (simp add: demo_scan_runs)
qed

theorem Scan_no_panic_witness:
  "fst (Scan (demo_env (picky_tls 0x000a)) None (demo_scan False) (answering [])) \<noteq> None"
  by (rule Scan_no_panic) (simp add: demo_scan_def)

theorem Scan_consistent_witness:
  "\<exists>res w'. Scan (demo_env (picky_tls 0x000a)) None (demo_scan False) (answering []) = (Some (Inr res), w') \<and>
     r_Port res = 443 \<and> r_Grade res \<noteq> Some GradeR"
proof -
  obtain res w' where
    "Scan (demo_env (picky_tls 0x000a)) None (demo_scan False) (answering []) = (Some (Inr res), w')"
    using demo_scan_result by blast
  with Scan_consistent [OF this] show ?thesis by (auto simp: demo_scan_def)
qed

lemma demo_lookup: "lookup_time env (Host (demo_scan vulns)) = 0"
  using lookup_dotted [of 93 184 216 34] by (simp add: lookup_time_def demo_scan_def)

lemma scan_resources:
  assumes "tls_contract (e_tls env)" and "Scan env ctx opts w = (r, w')"
    and "timeout = Timeout (with_defaults opts)" and "asked = w_now w + int (lookup_time env (Host opts))"
  shows "w_open w' = w_open w \<and> asked \<le> w_now w' \<and>
    (0 < timeout \<longrightarrow> w_now w' \<le> asked + scan_bound (length (e_order env)) timeout) \<and>
    (\<forall>d. ctx = Some d \<longrightarrow> w_now w' \<le> max asked (d + overrun timeout))"
proof (cases "guardTarget (e_lookupIP env) (Host opts)")
  case (Some err)
  then have "w' = waited (lookup_time env (Host opts)) w" using assms(2) by (simp add: Scan_eq)
  then show ?thesis by (simp add: scan_bound_def millisecond_def assms(4))
next
  case None
  let ?v = "probing_world env opts w"
  obtain x w1 where x: "run_scan env ctx (with_defaults opts) (w_now w) ?v = (x, w1)" by (metis surj_pair)
  then have w1: "w1 = w'" using None assms(2) by (simp add: Scan_eq)
  have v: "w_now ?v = asked" "w_open ?v = w_open w" by (simp_all add: assms(4))
  note n = run_scan_net_op [OF assms(1), of ctx "with_defaults opts" "w_now w", folded assms(3)]
  have "w_now w' \<le> max asked (d + overrun timeout)" if "ctx = Some d" for d
    using stops_D [OF run_scan_stops [OF assms(1), of d "with_defaults opts" "w_now w", folded assms(3)]] x that w1 v
    by metis
  with net_op.balanced [OF n x] net_op.forward [OF n x] net_op.within [OF n _ x] w1 v show ?thesis by simp
qed

text \<open>
  C3. Resources of a whole scan. If the TLS stack keeps its contract, a scan closes every connection it
  opens and only lets time pass. First the guard asks the resolver, for as long as that takes: the
  lookup has neither the scan's context nor a timeout. From then on, with a positive timeout the scan is over
  after \<open>scan_bound\<close>, 38 timeouts and 163.2 seconds for the catalog of 11 suites; and under a context
  with deadline \<open>d\<close> it is over three timeouts or 7.2 seconds after \<open>d\<close>, whichever is more, unless the
  resolver itself took longer.
\<close>

theorem Scan_resources:
  assumes "tls_contract (e_tls env)" and "Scan env ctx opts w = (r, w')"
    and "timeout = Timeout (with_defaults opts)" and "asked = w_now w + int (lookup_time env (Host opts))"
  shows "w_open w' = w_open w \<and> asked \<le> w_now w' \<and>
    (0 < timeout \<longrightarrow> w_now w' \<le> asked + scan_bound (length (e_order env)) timeout) \<and>
    (\<forall>d. ctx = Some d \<longrightarrow> w_now w' \<le> max asked (d + overrun timeout))"
  using assms by (rule scan_resources)

text \<open>A resolver that needs a minute for a name with a public address.\<close>

definition slow_env :: "tls_client \<Rightarrow> environment" where
  "slow_env tls = (demo_env tls)\<lparr>e_lookupIP := \<lambda>_. Inr [[8, 8, 8, 8]], e_lookup_time := \<lambda>_. nat (60 * second)\<rparr>"

theorem Scan_resources_witness:
  "w_open (snd (Scan (demo_env refusing_tls) (Some second) (demo_scan True) (answering []))) = 0 \<and>
   w_now (snd (Scan (demo_env refusing_tls) (Some second) (demo_scan True) (answering []))) \<le> 46 * second \<and>
   60 * second \<le> w_now (snd (Scan (slow_env refusing_tls) (Some second)
     ((demo_scan True)\<lparr>Host := ''example.com''\<rparr>) (answering [])))"
proof -
  have "looked_up ''example.com'' = Some ''example.com''" by code_simp
  then have t: "lookup_time (slow_env refusing_tls) ''example.com'' = nat (60 * second)"
    by (simp add: lookup_time_def slow_env_def)
  have c: "tls_contract (e_tls (demo_env refusing_tls))" "tls_contract (e_tls (slow_env refusing_tls))"
    by (simp_all add: slow_env_def demo_env_def example_contracts)
  have w: "w_now (answering []) = 0" "w_open (answering []) = 0" by (simp_all add: answering_def)
  have o: "overrun (Timeout (with_defaults (demo_scan True))) = 45 * second"
    by (simp add: demo_scan_def overrun_def second_def millisecond_def)
  have "w_open w' = 0 \<and> w_now w' \<le> 46 * second"
    if "Scan (demo_env refusing_tls) (Some second) (demo_scan True) (answering []) = (r, w')" for r w'
    using Scan_resources [OF c(1) that refl refl] demo_lookup [of "demo_env refusing_tls" True] o w
    by (simp add: second_def)
  moreover have "60 * second \<le> w_now w'"
    if "Scan (slow_env refusing_tls) (Some second) ((demo_scan True)\<lparr>Host := ''example.com''\<rparr>) (answering []) = (r, w')"
    for r w' using Scan_resources [OF c(2) that refl refl] t w by (simp add: second_def)
  ultimately show ?thesis by (metis prod.collapse)
qed

section \<open>Certificates\<close>

lemma analyse_days:
  assumes "analyseCertificate env now (leaf # rest) host = Some c"
  shows "DaysToExpiry c = whole_days (Until now (cert_NotAfter leaf))" "NotAfter c = cert_NotAfter leaf"
    "Valid c \<longleftrightarrow> cert_NotBefore leaf < now \<and> now < cert_NotAfter leaf"
  using assms by (auto simp: analyseCertificate_def Let_def split: if_splits public_key.splits)

text \<open>
  C34. The days to expiry of a certificate that is valid now: never negative, never more than 106751 (the
  292 years a duration can hold), and, up to the 3 microseconds the three floating-point roundings can
  cost, the whole days until \<open>NotAfter\<close>. So the 31 days that A+ asks for are 31 days of validity.
\<close>

theorem DaysToExpiry_bounds:
  assumes "analyseCertificate env now chain host = Some c" and "Valid c"
  shows "0 \<le> DaysToExpiry c \<and> DaysToExpiry c \<le> 106751 \<and>
    (min max_int64 (NotAfter c - now) - 3000) div day \<le> DaysToExpiry c \<and>
    DaysToExpiry c \<le> (NotAfter c - now + 3000) div day \<and>
    (DaysToExpiry c > 30 \<longrightarrow> 31 * day - 3000 \<le> NotAfter c - now)"
proof -
  obtain leaf rest where chain: "chain = leaf # rest"
    using assms(1) by (auto simp: analyseCertificate_def split: list.splits)
  note c = analyse_days [OF assms(1) [unfolded chain]]
  define left where "left = NotAfter c - now"
  have pos: "0 < left" using assms(2) c by (simp add: left_def)
  define d where "d = Until now (cert_NotAfter leaf)"
  have d: "d = min max_int64 left" "0 \<le> d" "d \<le> max_int64"
    using pos by (simp_all add: d_def Until_def left_def c(2) min_int64_def max_int64_def)
  have H: "day = 86400000000000" by (simp add: day_def hour_def second_def)
  have D: "DaysToExpiry c = whole_days d" by (simp add: c(1) d_def)
  note b = whole_days_bounds [OF d(2,3)]
  have up: "whole_days d \<le> (left + 3000) div day"
    using b zdiv_mono1 [of "d + 3000" "left + 3000" day] d(1) by (simp add: H)
  have "0 \<le> whole_days d" by (rule whole_days_nonneg [OF d(2)])
  moreover have "whole_days d \<le> 106751"
    using b zdiv_mono1 [of "d + 3000" "max_int64 + 3000" day] d(3) by (simp add: H max_int64_def)
  moreover have "31 * day - 3000 \<le> left" if "whole_days d > 30"
    using that up by (simp add: H)
  ultimately show ?thesis using b up unfolding D left_def [symmetric] d(1) [symmetric] by blast
qed

text \<open>A certificate that runs for exactly 30 days more.\<close>

definition demo_cert :: x509_cert where
  "demo_cert = \<lparr>cert_Subject = ''www.example.com'', cert_Issuer = ''Example CA'', cert_NotBefore = - day,
     cert_NotAfter = 30 * day, cert_SignatureAlgorithm = ''SHA256-RSA'', cert_DNSNames = [''www.example.com''],
     cert_PublicKey = RSAKey \<lparr>pk_n = 3233, pk_e = 17\<rparr>, cert_Raw = []\<rparr>"

theorem DaysToExpiry_bounds_witness:
  "\<exists>c. analyseCertificate (demo_env refusing_tls) 0 [demo_cert] ''www.example.com'' = Some c \<and>
     29 \<le> DaysToExpiry c \<and> DaysToExpiry c \<le> 30"
proof -
  have "analyseCertificate (demo_env refusing_tls) 0 [demo_cert] ''www.example.com'' \<noteq> None"
    by (simp add: analyseCertificate_def Let_def)
  then obtain c where
    c: "analyseCertificate (demo_env refusing_tls) 0 [demo_cert] ''www.example.com'' = Some c" by blast
  have H: "day = 86400000000000" by (simp add: day_def hour_def second_def)
  have "Valid c" "NotAfter c = 30 * day" using analyse_days [OF c] by (simp_all add: demo_cert_def H)
  with DaysToExpiry_bounds [OF c] have "29 \<le> DaysToExpiry c" "DaysToExpiry c \<le> 30"
    by (auto simp: H max_int64_def)
  with c show ?thesis by blast
qed

section \<open>Hosts that cannot be reached\<close>

lemma sees_step: "sees ctx run P \<Longrightarrow> offline ctx w \<Longrightarrow> run w = (r, w') \<Longrightarrow> P r \<and> offline ctx w'"
  using sees_D [of ctx run P w] by simp

lemma sees_protocols: "sees ctx (probeProtocols tls ctx opts) (\<lambda>p. p = no_protocols)"
proof -
  have h: "sees ctx (handshakeAt tls ctx opts lo hi) (\<lambda>r. r = False)" for lo hi
    unfolding handshakeAt_def by (rule sees_false)
  have l: "sees ctx (ProbeSSL3 ctx (Timeout opts)) (\<lambda>r. r = False)" "sees ctx (ProbeSSL2 ctx (Timeout opts)) (\<lambda>r. r = False)"
    unfolding ProbeSSL3_def ProbeSSL2_def Let_def by (rule sees_false)+
  show ?thesis
    unfolding probeProtocols_def Let_def
    by (rule sees_seq [OF h] sees_seq [OF l(1)] sees_seq [OF l(2)] sees_pure)+ (simp add: no_protocols_def)
qed

lemma sees_fetch: "sees ctx (fetchCertificate tls ctx opts) (\<lambda>r. \<exists>e. r = Inl e)"
proof -
  have f: "sees ctx (fetchCertificateAt tls ctx opts v) (\<lambda>r. \<exists>e. r = Inl e)" for v
    unfolding fetchCertificateAt_def by (rule sees_with_conn)
  show ?thesis unfolding fetchCertificate_def by (rule sees_seq [OF f]) (auto intro: f)
qed

lemma sees_ciphers: "sees ctx (probeCiphers order tls ctx opts) (\<lambda>r. r = (no_ciphers, False))"
proof -
  have a: "sees ctx (cipherAccepted tls ctx opts suite) (\<lambda>r. r = False)" for suite
    unfolding cipherAccepted_def by (rule sees_false)
  have "sees ctx (probeCiphers_loop tls ctx opts order st) (\<lambda>r. r = st)" for st
  proof (induction order)
    case Nil
    show ?case by (simp add: sees_def)
  next
    case (Cons m ms)
    have "probeCiphers_loop tls ctx opts (m # ms) st = seq (cipherAccepted tls ctx opts (cm_id m))
        (\<lambda>ok. probeCiphers_loop tls ctx opts ms (if ok then add_cipher m st else st))"
      by (simp add: fun_eq_iff seq_def)
    moreover have "sees ctx (seq (cipherAccepted tls ctx opts (cm_id m))
        (\<lambda>ok. probeCiphers_loop tls ctx opts ms (if ok then add_cipher m st else st))) (\<lambda>r. r = st)"
      by (rule sees_seq [OF a]) (simp add: Cons)
    ultimately show ?case by simp
  qed
  then show ?thesis by (simp add: probeCiphers_def)
qed

lemma sees_time: "sees ctx time_Now (\<lambda>_. True)"
  by (simp add: sees_def time_Now_def)

text \<open>The result such a host gets, up to the error message and the duration.\<close>

definition silent_result :: "options \<Rightarrow> string \<Rightarrow> result" where
  "silent_result opts msg = (initial_result opts)\<lparr>r_Grade := Some GradeB,
     r_GradeCaps := [''certificate-trust'', ''no-forward-secrecy''], r_Errors := [''certificate: '' @ msg]\<rparr>"

lemma silent_rating:
  "r_Errors r = [''certificate: '' @ msg] \<Longrightarrow> r = (initial_result opts)\<lparr>r_Errors := [''certificate: '' @ msg]\<rparr> \<Longrightarrow>
     with_rating r = silent_result opts msg"
  by (simp add: with_rating_def silent_result_def rate_def initial_result_def Let_def cap_if_def untrusted_def
      critical_def no_certificate_def no_vulnerabilities_def no_protocols_def no_ciphers_def protocolScore_def
      keyExchangeScore_def cipherScore_def capAt_def no_rating_def numericToGrade_def)

lemma silent_inferred: "inferred (initial_result opts\<lparr>r_Errors := e\<rparr>) = no_vulnerabilities"
  by (simp add: inferred_def Let_def initial_result_def no_vulnerabilities_def no_protocols_def hasCBC_def has3DES_def
      no_ciphers_def)

lemma sees_finish:
  assumes "res = (initial_result opts)\<lparr>r_Errors := [''certificate: '' @ msg]\<rparr>"
  shows "sees ctx (finish_scan env ctx opts start res)
    (\<lambda>r. \<exists>ms. r = Some ((silent_result opts msg)\<lparr>r_ScanDurationMs := ms\<rparr>))"
proof -
  have i: "inferred res = no_vulnerabilities" by (simp add: assms silent_inferred)
  have v: "sees ctx (if CheckVulns opts then probeVulnerabilities (e_kex env) (e_x509 env) ctx opts res
      else Pair (Some (r_Vulnerabilities res))) (\<lambda>v. v = Some no_vulnerabilities)"
    by (rule sees_if [OF sees_vulnerabilities [of ctx "e_kex env" "e_x509 env" opts res, unfolded i]])
       (simp add: assms initial_result_def)
  have "with_rating (res\<lparr>r_Vulnerabilities := no_vulnerabilities\<rparr>) = silent_result opts msg"
    by (rule silent_rating) (simp_all add: assms initial_result_def)
  then show ?thesis
    unfolding finish_scan_def Let_def
    by (intro sees_seqp [OF v] sees_seq [OF sees_time] sees_pure) auto
qed

lemma sees_scan:
  "sees ctx (run_scan env ctx opts start)
     (\<lambda>r. \<exists>msg ms. r = Some ((silent_result opts msg)\<lparr>r_ScanDurationMs := ms\<rparr>))"
proof -
  have c: "sees ctx (Pair (with_certificate env opts now (Inl e) (initial_result opts\<lparr>r_Protocols := no_protocols\<rparr>)))
      (\<lambda>r. r = Some ((initial_result opts)\<lparr>r_Errors := [''certificate: '' @ ne_msg e]\<rparr>))" for now e
    by (rule sees_pure) (simp add: with_certificate_def initial_result_def)
  have k: "sees ctx (seq (probeCiphers (e_order env) (e_tls env) ctx opts)
      (\<lambda>x. finish_scan env ctx opts start ((initial_result opts)\<lparr>r_Errors := [''certificate: '' @ msg],
         r_Ciphers := fst x, r_ForwardSecrecy := snd x\<rparr>)))
      (\<lambda>r. \<exists>msg ms. r = Some ((silent_result opts msg)\<lparr>r_ScanDurationMs := ms\<rparr>))" for msg
    by (rule sees_seq [OF sees_ciphers], rule sees_mono [OF sees_finish [where opts = opts and msg = msg]])
       (auto simp: initial_result_def)
  show ?thesis
    unfolding run_scan_def Let_def prod.case_eq_if
    by (rule sees_seq [OF sees_protocols], hypsubst, rule sees_seq [OF sees_fetch], elim exE, hypsubst,
        rule sees_seq [OF sees_time], rule sees_seqp [OF c], rule k)
qed

text \<open>The world on which the probes dial the target.\<close>

abbreviation unreachable :: "environment \<Rightarrow> int option \<Rightarrow> options \<Rightarrow> world \<Rightarrow> bool" where
  "unreachable env ctx opts w \<equiv> offline ctx (probing_world env opts w)"

lemma scan_offline:
  assumes "guardTarget (e_lookupIP env) (Host opts) = None" and "unreachable env ctx opts w"
  shows "\<exists>res msg. fst (Scan env ctx opts w) = Some (Inr res) \<and> r_Grade res = Some GradeB \<and>
    r_Rating res = no_rating \<and> r_Protocols res = no_protocols \<and> r_Ciphers res = no_ciphers \<and>
    r_Vulnerabilities res = no_vulnerabilities \<and> r_Errors res = [''certificate: '' @ msg]"
proof -
  let ?v = "probing_world env opts w"
  from sees_D [OF sees_scan [of ctx env "with_defaults opts" "w_now w"] assms(2)] obtain msg ms where
    "fst (run_scan env ctx (with_defaults opts) (w_now w) ?v) =
       Some ((silent_result (with_defaults opts) msg)\<lparr>r_ScanDurationMs := ms\<rparr>)" by blast
  then have "fst (Scan env ctx opts w) = Some (Inr ((silent_result (with_defaults opts) msg)\<lparr>r_ScanDurationMs := ms\<rparr>))"
    using assms(1) by (cases "run_scan env ctx (with_defaults opts) (w_now w) ?v") (simp add: Scan_eq)
  then show ?thesis by (simp add: silent_result_def initial_result_def)
qed

text \<open>
  C11. A host that cannot be reached, end to end. When the guard lets the host through but no dial of its
  address can succeed once the guard is done, because every connection is refused or the context has
  expired, the scan does not fail: it publishes a result with no protocol, no cipher, no vulnerability
  and scores of 0, one error about the certificate, and the grade B.
\<close>

theorem Scan_unreachable_is_graded_B:
  assumes "guardTarget (e_lookupIP env) (Host opts) = None" and "unreachable env ctx opts w"
  shows "\<exists>res msg. fst (Scan env ctx opts w) = Some (Inr res) \<and> r_Grade res = Some GradeB \<and>
    r_Rating res = no_rating \<and> r_Protocols res = no_protocols \<and> r_Ciphers res = no_ciphers \<and>
    r_Vulnerabilities res = no_vulnerabilities \<and> r_Errors res = [''certificate: '' @ msg]"
  using assms by (rule scan_offline)

theorem Scan_unreachable_is_graded_B_witness:
  "\<exists>res. fst (Scan ((demo_env refusing_tls)\<lparr>e_net := \<lambda>_. w_net refusing_world\<rparr>) None (demo_scan True) (answering [])) =
     Some (Inr res) \<and> r_Grade res = Some GradeB"
proof -
  have "unreachable ((demo_env refusing_tls)\<lparr>e_net := \<lambda>_. w_net refusing_world\<rparr>) None (demo_scan True) (answering [])"
    by (auto simp: offline_def refusing_def refusing_world_def)
  from Scan_unreachable_is_graded_B [OF demo_guard this] show ?thesis by blast
qed

section \<open>Servers that speak TLS 1.3 only\<close>

text \<open>The TLS stack never completes a handshake that was capped below TLS 1.3.\<close>

definition refuses_below_13 :: "tls_client \<Rightarrow> bool" where
  "refuses_below_13 tls \<longleftrightarrow>
     (\<forall>ctx cfg c w. tc_MaxVersion cfg < VersionTLS13 \<longrightarrow> (\<exists>e. fst (tls ctx cfg c w) = Inl e))"

lemma refused_below_13:
  assumes "refuses_below_13 tls" and "tc_MaxVersion cfg < VersionTLS13" and "\<And>e. judge (Inl e) = False"
  shows "\<not> fst (with_conn ctx timeout (\<lambda>_. False) (handshake tls ctx cfg judge) w)"
proof -
  obtain r w' where r: "with_conn ctx timeout (\<lambda>_. False) (handshake tls ctx cfg judge) w = (r, w')"
    by (metis surj_pair)
  have "\<not> x" if "handshake tls ctx cfg judge c v = (x, c', v')" for x c v c' v'
  proof -
    obtain e where "fst (tls ctx cfg c v) = Inl e" using assms(1,2) unfolding refuses_below_13_def by blast
    with that assms(3) show ?thesis by (auto simp: handshake_def split: prod.splits)
  qed
  with with_conn_cases [OF r] have "\<not> r" by blast
  with r show ?thesis by simp
qed

lemma refused_ciphers:
  assumes "refuses_below_13 tls"
  shows "fst (probeCiphers order tls ctx opts w) = (no_ciphers, False)"
proof -
  have no: "\<not> fst (cipherAccepted tls ctx opts suite v)" for suite v
    unfolding cipherAccepted_def
    by (rule refused_below_13 [OF assms]) (simp_all add: cipher_config_def VersionTLS12_def VersionTLS13_def)
  have "fst (probeCiphers_loop tls ctx opts order st v) = st" for st v
    by (induction order arbitrary: v) (use no in \<open>auto split: prod.splits\<close>, metis fst_conv)
  then show ?thesis by (simp add: probeCiphers_def)
qed

lemma no_cipher_grade:
  assumes "r_Ciphers r = no_ciphers" and "\<not> r_ForwardSecrecy r"
  shows "rate_grade r = GradeB" and "Numeric (fst (rate r)) \<le> 54"
proof -
  have k: "keyExchangeScore (r_Certificate r) False \<le> 80" by (simp add: keyExchangeScore_def Let_def)
  have "cipherScore no_ciphers = 0" by (simp add: cipherScore_def no_ciphers_def)
  then show n: "Numeric (fst (rate r)) \<le> 54"
    using k protocolScore_bounds(2) [of "r_Protocols r"] assms by (simp add: numeric_eq)
  then have "numericToGrade (Numeric (fst (rate r))) \<in> {GradeC, GradeD, GradeE, GradeF}"
    by (simp add: numericToGrade_def)
  then have f: "forced_grade r \<in> {GradeC, GradeD, GradeE, GradeF, GradeT}" by (auto simp: forced_grade_def)
  have "GradeB \<in> ceilings r" using assms(2) by (simp add: ceilings_def)
  with ceilings_sub [of r] have "ceilings r = {GradeB} \<or> ceilings r = {GradeB, GradeC}" by auto
  then show "rate_grade r = GradeB"
    using f by (elim disjE insertE emptyE) (simp_all add: rate_grade_eq Let_def min_def less_eq_grade_def)
qed

text \<open>
  C35. TLS 1.3 is invisible to the cipher enumeration, which caps its handshakes at TLS 1.2. A server that
  speaks TLS 1.3 only, the best configuration there is, is reported with no cipher suite and without
  forward secrecy, scores at most 54 and is graded B, whatever its certificate.
\<close>

theorem Scan_tls13_only:
  assumes "refuses_below_13 (e_tls env)" and "Scan env ctx opts w = (Some (Inr res), w')"
  shows "r_Ciphers res = no_ciphers \<and> \<not> r_ForwardSecrecy res \<and> Numeric (r_Rating res) \<le> 54 \<and>
    r_Grade res = Some GradeB"
proof -
  from run_scan_result [OF Scan_result [OF assms(2)]] obtain r ms v where
    res: "res = (with_rating r)\<lparr>r_ScanDurationMs := ms\<rparr>"
    and c: "(r_Ciphers r, r_ForwardSecrecy r) = fst (probeCiphers (e_order env) (e_tls env) ctx (with_defaults opts) v)"
    by blast
  have r: "r_Ciphers r = no_ciphers" "\<not> r_ForwardSecrecy r" using c refused_ciphers [OF assms(1)] by simp_all
  have "r_Ciphers (with_rating r) = r_Ciphers r" "r_ForwardSecrecy (with_rating r) = r_ForwardSecrecy r"
    "r_Rating (with_rating r) = fst (rate r)"
    by (simp_all add: with_rating_def split: prod.splits)
  then show ?thesis using r no_cipher_grade [OF r] rate_with_rating(2) [of r] by (simp add: res)
qed

text \<open>A stack that agrees on TLS 1.3 whenever it is offered.\<close>

definition modern_tls :: tls_client where
  "modern_tls ctx cfg c w =
     (if tc_MaxVersion cfg < VersionTLS13 then (Inl err_eof, c, w)
      else (Inr \<lparr>cs_Version = VersionTLS13, cs_PeerCertificates = [demo_cert], cs_NegotiatedProtocol = ''h2''\<rparr>, c, w))"

theorem Scan_tls13_only_witness:
  "\<exists>res w'. Scan (demo_env modern_tls) None (demo_scan False) (answering []) = (Some (Inr res), w') \<and>
     r_Grade res = Some GradeB"
proof -
  obtain res w' where
    s: "Scan (demo_env modern_tls) None (demo_scan False) (answering []) = (Some (Inr res), w')"
    using demo_scan_result by blast
  have "refuses_below_13 (e_tls (demo_env modern_tls))"
    by (auto simp: refuses_below_13_def demo_env_def modern_tls_def)
  from Scan_tls13_only [OF this s] s show ?thesis by blast
qed

end
