(* ===== verification/Published.thy ===== *)
theory Published
  imports Scanner
begin

text \<open>
  What every consumer of a published result may rely on: a well-formedness predicate for each part of
  a result, and the preservation of these predicates by the steps of the scan. The predicates say
  which values the fields can take together, as a type system would.
\<close>

section \<open>Well-formed parts\<close>

text \<open>At most one protocol is negotiated, it has a name, and \<open>HTTP2\<close> says whether it is \<open>h2\<close>.\<close>

definition wf_protocols :: "protocols \<Rightarrow> bool" where
  "wf_protocols p \<longleftrightarrow> length (ALPN p) \<le> 1 \<and> [] \<notin> set (ALPN p) \<and> (HTTP2 p \<longleftrightarrow> ''h2'' \<in> set (ALPN p))"

definition class_names :: "string \<Rightarrow> string set" where
  "class_names cls = set (names_of cls cipherCatalog)"

text \<open>
  Each list holds names of the catalog, in its own class; forward secrecy has a suite to show for it,
  and \<open>ServerPreferred\<close> is never set.
\<close>

definition wf_ciphers :: "cipher_summary \<Rightarrow> bool \<Rightarrow> bool" where
  "wf_ciphers c fs \<longleftrightarrow>
     set (Strong c) \<subseteq> class_names ''strong'' \<and> set (Weak c) \<subseteq> class_names ''weak'' \<and>
     set (Insecure c) \<subseteq> class_names ''insecure'' \<and> \<not> ServerPreferred c \<and>
     (fs \<longrightarrow> Strong c @ Weak c @ Insecure c \<noteq> [])"

text \<open>Bits only for a key of a known type; a valid certificate has not expired.\<close>

definition wf_certificate :: "certificate \<Rightarrow> bool" where
  "wf_certificate c \<longleftrightarrow>
     KeyType c \<in> {[], ''RSA'', ''ECDSA'', ''unknown''} \<and> 0 \<le> KeyBits c \<and>
     (KeyType c \<in> {[], ''unknown''} \<longrightarrow> KeyBits c = 0) \<and> (Valid c \<longrightarrow> 0 \<le> DaysToExpiry c) \<and>
     (KeyType c = [] \<longrightarrow> c = no_certificate) \<and> (KeyType c \<noteq> [] \<longrightarrow> (SelfSigned c \<longleftrightarrow> Issuer c = Subject c))"

text \<open>
  Without the probes no flaw is reported. With them four flags are those inferred from the protocols
  and ciphers, a missing fallback signal presupposes a version to fall back to, and Zombie and
  Sleeping POODLE are special cases of GOLDENDOODLE that exclude each other.
\<close>

definition wf_vulnerabilities :: "bool \<Rightarrow> protocols \<Rightarrow> cipher_summary \<Rightarrow> vulnerabilities \<Rightarrow> bool" where
  "wf_vulnerabilities check p c v \<longleftrightarrow>
     (if check
      then (v_Poodle v \<longleftrightarrow> SSL3 p) \<and> (v_Drown v \<longleftrightarrow> SSL2 p) \<and> (v_Beast v \<longleftrightarrow> TLS10 p \<and> hasCBC c) \<and>
           (v_Sweet32 v \<longleftrightarrow> has3DES c) \<and> (v_TLSFallbackSCSV v \<longrightarrow> fallbackProbeVersion p \<noteq> 0) \<and>
           (v_ZombiePoodle v \<or> v_SleepingPoodle v \<longrightarrow> v_GoldenDoodle v) \<and>
           \<not> (v_ZombiePoodle v \<and> v_SleepingPoodle v)
      else v = no_vulnerabilities)"

definition cap_names :: "string list" where
  "cap_names = [''certificate-trust'', ''critical-vulnerability'', ''ssl2-enabled'', ''ssl3-enabled'',
     ''no-forward-secrecy'', ''insecure-cipher'', ''export-cipher'']"

definition wf_rating :: "rating_breakdown \<Rightarrow> grade option \<Rightarrow> string list \<Rightarrow> bool" where
  "wf_rating b g caps \<longleftrightarrow>
     ProtocolScore b \<in> {0, 20, 70, 90, 100} \<and> CipherScore b \<in> {0, 20, 50, 80, 100} \<and>
     KeyExchangeScore b \<in> {0..100} \<and>
     Numeric b = (30 * ProtocolScore b + 30 * KeyExchangeScore b + 40 * CipherScore b) div 100 \<and>
     g \<noteq> None \<and> g \<noteq> Some GradeR \<and> set caps \<subseteq> set cap_names \<and> distinct caps"

text \<open>
  A whole result: its parts, the target, a duration, and at most one error, which stands for a
  certificate that could not be fetched.
\<close>

definition well_formed :: "options \<Rightarrow> result \<Rightarrow> bool" where
  "well_formed opts r \<longleftrightarrow>
     r_Host r = Host opts \<and> r_Port r = (if Port opts = 0 then 443 else Port opts) \<and>
     r_RulesetVersion r = RulesetVersion \<and> 0 \<le> r_ScanDurationMs r \<and>
     wf_protocols (r_Protocols r) \<and> wf_ciphers (r_Ciphers r) (r_ForwardSecrecy r) \<and>
     wf_certificate (r_Certificate r) \<and>
     wf_vulnerabilities (CheckVulns opts) (r_Protocols r) (r_Ciphers r) (r_Vulnerabilities r) \<and>
     wf_rating (r_Rating r) (r_Grade r) (r_GradeCaps r) \<and>
     length (r_Errors r) \<le> 1 \<and> (r_Errors r \<noteq> [] \<longrightarrow> r_Certificate r = no_certificate \<and> ALPN (r_Protocols r) = [])"

section \<open>Preservation\<close>

lemma probeProtocols_alpn:
  assumes "probeProtocols tls ctx opts w = (p, w')"
  shows "ALPN p = [] \<and> \<not> HTTP2 p"
  using assms unfolding probeProtocols_def Let_def
  by (auto dest!: seq_SomeD simp: no_protocols_def)

lemma peer_certificates_alpn:
  "peer_certificates r = Inr (chain, alpn) \<Longrightarrow> length alpn \<le> 1 \<and> [] \<notin> set alpn"
  by (auto simp: peer_certificates_def Let_def split: sum.splits if_splits)

lemma fetchCertificateAt_alpn:
  assumes "fetchCertificateAt tls ctx opts v w = (Inr (chain, alpn), w')"
  shows "length alpn \<le> 1 \<and> [] \<notin> set alpn"
proof -
  from with_conn_cases [OF assms [unfolded fetchCertificateAt_def]] obtain c u c' u' where
    "handshake tls ctx (certificate_config opts v) peer_certificates c u = (Inr (chain, alpn), c', u')" by auto
  then show ?thesis by (auto simp: handshake_def dest: peer_certificates_alpn split: prod.splits)
qed

lemma fetchCertificate_alpn:
  assumes "fetchCertificate tls ctx opts w = (Inr (chain, alpn), w')"
  shows "length alpn \<le> 1 \<and> [] \<notin> set alpn"
  using assms by (auto simp: fetchCertificate_def seq_def dest: fetchCertificateAt_alpn
      split: prod.splits sum.splits)

lemma contains_iff: "contains xs v \<longleftrightarrow> v \<in> set xs"
  by (induction xs) auto

lemma wf_no_certificate: "wf_certificate no_certificate"
  by (simp add: wf_certificate_def no_certificate_def)

lemma analyse_wf:
  assumes "analyseCertificate env now chain host = Some c"
  shows "wf_certificate c \<and> KeyType c \<noteq> []"
proof -
  from assms obtain cert rest where chain: "chain = cert # rest"
    by (cases chain) (auto simp: analyseCertificate_def)
  have "0 \<le> whole_days (Until now (cert_NotAfter cert))" if "now < cert_NotAfter cert"
    by (rule whole_days_nonneg) (use that in \<open>simp add: Until_def max_int64_def min_int64_def\<close>)
  with assms chain show ?thesis
    by (auto simp: analyseCertificate_def wf_certificate_def no_certificate_def Let_def
        split: if_splits public_key.splits)
qed

text \<open>Step 2 fills in the certificate and the negotiated protocol, or the error.\<close>

lemma with_certificate_wf:
  assumes "with_certificate env opts now f ((initial_result opts)\<lparr>r_Protocols := p\<rparr>) = Some r"
    and "fetchCertificate tls ctx opts w = (f, w')" and "ALPN p = [] \<and> \<not> HTTP2 p"
  shows "wf_protocols (r_Protocols r) \<and> wf_certificate (r_Certificate r) \<and> r_Vulnerabilities r = no_vulnerabilities \<and>
    length (r_Errors r) \<le> 1 \<and> (r_Errors r \<noteq> [] \<longrightarrow> r_Certificate r = no_certificate \<and> ALPN (r_Protocols r) = [])"
proof (cases f)
  case (Inl e)
  with assms show ?thesis
    by (auto simp: with_certificate_def initial_result_def wf_protocols_def wf_no_certificate)
next
  case (Inr x)
  then obtain chain alpn where f: "f = Inr (chain, alpn)" by (cases x) simp
  with assms(1) obtain c where c: "analyseCertificate env now chain (Host opts) = Some c"
    and r: "r = (initial_result opts)\<lparr>r_Protocols := p\<lparr>ALPN := alpn, HTTP2 := contains alpn ''h2''\<rparr>, r_Certificate := c\<rparr>"
    by (auto simp: with_certificate_def)
  show ?thesis
    using fetchCertificate_alpn [OF assms(2) [unfolded f]] analyse_wf [OF c]
    by (simp add: r wf_protocols_def contains_iff initial_result_def)
qed

lemma accepted_nonempty: "list_ex cm_forwardS (accepted order oks) \<Longrightarrow> set order \<subseteq> set cipherCatalog \<Longrightarrow>
    names_of ''strong'' (accepted order oks) @ names_of ''weak'' (accepted order oks) @
      names_of ''insecure'' (accepted order oks) \<noteq> []"
proof -
  assume "list_ex cm_forwardS (accepted order oks)" and sub: "set order \<subseteq> set cipherCatalog"
  then obtain m where m: "m \<in> set (accepted order oks)" by (auto simp: list_ex_iff)
  then have "m \<in> set cipherCatalog" using accepted_subset sub by blast
  then have "cm_class m \<in> {''strong'', ''weak'', ''insecure''}"
    using catalog_classes by (simp add: list_all_iff)
  with m show ?thesis by (auto simp: names_of_def filter_empty_conv)
qed

lemma probeCiphers_wf:
  assumes "probeCiphers order tls ctx opts w = ((c, fs), w')" and "set order \<subseteq> set cipherCatalog"
  shows "wf_ciphers c fs"
proof -
  define acc where "acc = accepted order (accepts tls ctx opts order w)"
  have "fst (probeCiphers order tls ctx opts w) = (c, fs)" by (simp add: assms(1))
  then have c: "c = \<lparr>Strong = names_of ''strong'' acc, Weak = names_of ''weak'' acc,
      Insecure = names_of ''insecure'' acc, ServerPreferred = False\<rparr>" and fs: "fs = list_ex cm_forwardS acc"
    by (simp_all add: probeCiphers_def probeCiphers_loop_eq no_ciphers_def acc_def [symmetric] Let_def)
  have "set acc \<subseteq> set cipherCatalog" using accepted_subset assms(2) by (auto simp: acc_def)
  then have "set (names_of cls acc) \<subseteq> class_names cls" for cls
    by (auto simp: names_of_def class_names_def)
  with accepted_nonempty [OF _ assms(2)] show ?thesis
    by (simp add: wf_ciphers_def c fs acc_def)
qed

lemma classify_shape:
  "(zombiePoodle (classifyCBC m p z) \<or> sleepingPoodle (classifyCBC m p z) \<longrightarrow> goldenDoodle (classifyCBC m p z)) \<and>
   \<not> (zombiePoodle (classifyCBC m p z) \<and> sleepingPoodle (classifyCBC m p z))"
  by (auto simp: classifyCBC_def no_oracle_def Let_def)

lemma ProbeCBC_shape:
  assumes "ProbeCBCPaddingOracles lib x509 ctx host timeout w = (Some r, w')"
  shows "(zombiePoodle r \<or> sleepingPoodle r \<longrightarrow> goldenDoodle r) \<and> \<not> (zombiePoodle r \<and> sleepingPoodle r)"
proof -
  have "r = no_oracle \<or> (\<exists>m p z. r = classifyCBC m p z)"
    using assms unfolding ProbeCBCPaddingOracles_def Let_def
    by (auto simp: seq_def split: prod.splits option.splits)
  then show ?thesis
  proof
    assume "r = no_oracle"
    then show ?thesis by (simp add: no_oracle_def)
  next
    assume "\<exists>m p z. r = classifyCBC m p z"
    then show ?thesis using classify_shape by (elim exE) simp
  qed
qed

lemma probeVulnerabilities_wf:
  assumes "probeVulnerabilities lib x509 ctx opts r w = (Some v, w')"
  shows "wf_vulnerabilities True (r_Protocols r) (r_Ciphers r) v"
  using assms unfolding probeVulnerabilities_def inferred_def Let_def
  by (auto dest!: seq_SomeD seqp_SomeD ProbeCBC_shape simp: no_vulnerabilities_def wf_vulnerabilities_def
      split: option.splits if_splits)

lemma finish_scan_parts:
  assumes "finish_scan env ctx opts start r w = (Some res, w')"
  shows "\<exists>v. res = (with_rating (r\<lparr>r_Vulnerabilities := v\<rparr>))\<lparr>r_ScanDurationMs := (w_now w' - start) div millisecond\<rparr> \<and>
    (if CheckVulns opts then wf_vulnerabilities True (r_Protocols r) (r_Ciphers r) v else v = r_Vulnerabilities r)"
proof (cases "CheckVulns opts")
  case True
  from assms True obtain v w1 where
    v: "probeVulnerabilities (e_kex env) (e_x509 env) ctx opts r w = (Some v, w1)"
    and res: "res = (with_rating (r\<lparr>r_Vulnerabilities := v\<rparr>))\<lparr>r_ScanDurationMs := (w_now w' - start) div millisecond\<rparr>"
    unfolding finish_scan_def Let_def time_Now_def by (auto dest!: seq_SomeD seqp_SomeD)
  with probeVulnerabilities_wf [OF v] True show ?thesis by auto
next
  case False
  with assms show ?thesis
    unfolding finish_scan_def Let_def time_Now_def by (auto dest!: seq_SomeD seqp_SomeD)
qed

lemma caps_zip: "\<exists>ps. snd (snd (rate r)) = map fst (filter snd (zip cap_names ps)) \<and> length ps = 7"
  by (rule exI [of _ "[untrusted (r_Certificate r), critical (r_Vulnerabilities r), SSL2 (r_Protocols r),
      SSL3 (r_Protocols r) \<and> \<not> SSL2 (r_Protocols r), \<not> r_ForwardSecrecy r, Insecure (r_Ciphers r) \<noteq> [],
      v_Freak (r_Vulnerabilities r) \<or> v_Logjam (r_Vulnerabilities r)]"])
     (unfold rate_caps, simp add: cap_names_def)

lemma rated_wf: "wf_rating (r_Rating (with_rating r)) (r_Grade (with_rating r)) (r_GradeCaps (with_rating r))"
proof -
  obtain b g caps where rt: "rate r = (b, g, caps)" by (metis prod_cases3)
  have b: "b = \<lparr>ProtocolScore = protocolScore (r_Protocols r),
      KeyExchangeScore = keyExchangeScore (r_Certificate r) (r_ForwardSecrecy r),
      CipherScore = cipherScore (r_Ciphers r), Numeric = (protocolScore (r_Protocols r) * 30 +
        keyExchangeScore (r_Certificate r) (r_ForwardSecrecy r) * 30 + cipherScore (r_Ciphers r) * 40) div 100\<rparr>"
    using rt by (simp add: rate_def Let_def)
  have g: "g \<noteq> GradeR" using rate_grade_rated [of r] rt by (simp add: rate_grade_def)
  obtain ps where ps: "caps = map fst (filter snd (zip cap_names ps))" "length ps = 7"
    using caps_zip [of r] rt by auto
  have "distinct (map fst (filter snd (zip cap_names ps)))"
    by (rule distinct_map_filter) (simp add: ps(2) cap_names_def map_fst_zip)
  moreover have "set caps \<subseteq> set cap_names" by (auto simp: ps(1) dest: set_zip_leftD)
  ultimately show ?thesis
    using protocolScore_cases [of "r_Protocols r"] cipherScore_cases [of "r_Ciphers r"]
      keyExchangeScore_bounds [of "r_Certificate r" "r_ForwardSecrecy r"] g
    by (simp add: wf_rating_def with_rating_def rt b ps(1) algebra_simps)
qed

lemma run_scan_wf:
  assumes "run_scan env ctx opts start w = (Some res, w')" and "set (e_order env) \<subseteq> set cipherCatalog"
    and "start \<le> w_now w'" and "Port opts \<noteq> 0"
  shows "well_formed opts res"
proof -
  let ?tail = "\<lambda>res. seq (probeCiphers (e_order env) (e_tls env) ctx opts)
      (\<lambda>(c, fs). finish_scan env ctx opts start (res\<lparr>r_Ciphers := c, r_ForwardSecrecy := fs\<rparr>))"
  let ?cert = "\<lambda>p f. seq time_Now (\<lambda>now. seqp
      (Pair (with_certificate env opts now f ((initial_result opts)\<lparr>r_Protocols := p\<rparr>))) ?tail)"
  from assms(1) have "seq (probeProtocols (e_tls env) ctx opts)
      (\<lambda>p. seq (fetchCertificate (e_tls env) ctx opts) (?cert p)) w = (Some res, w')"
    by (simp add: run_scan_def Let_def)
  from seq_SomeD [OF this] obtain p w1 where p: "probeProtocols (e_tls env) ctx opts w = (p, w1)"
    and 1: "seq (fetchCertificate (e_tls env) ctx opts) (?cert p) w1 = (Some res, w')" by blast
  from seq_SomeD [OF 1] obtain fetched w2 where
    f: "fetchCertificate (e_tls env) ctx opts w1 = (fetched, w2)" and 2: "?cert p fetched w2 = (Some res, w')" by blast
  from seq_SomeD [OF 2] obtain now w3 where
    3: "seqp (Pair (with_certificate env opts now fetched ((initial_result opts)\<lparr>r_Protocols := p\<rparr>))) ?tail w3 =
      (Some res, w')" by blast
  from seqp_SomeD [OF 3] obtain r w4 where
    r: "with_certificate env opts now fetched ((initial_result opts)\<lparr>r_Protocols := p\<rparr>) = Some r"
    and 4: "?tail r w4 = (Some res, w')" by auto
  from seq_SomeD [OF 4] obtain c fs w5 where
    c: "probeCiphers (e_order env) (e_tls env) ctx opts w4 = ((c, fs), w5)"
    and fin: "finish_scan env ctx opts start (r\<lparr>r_Ciphers := c, r_ForwardSecrecy := fs\<rparr>) w5 = (Some res, w')" by auto
  note wc = with_certificate_wf [OF r f probeProtocols_alpn [OF p]] and cw = probeCiphers_wf [OF c assms(2)]
  have head: "same_head opts r"
    by (rule with_certificate_head [OF r]) (simp add: same_head_def initial_result_def)
  let ?c = "r\<lparr>r_Ciphers := c, r_ForwardSecrecy := fs\<rparr>"
  from finish_scan_parts [OF fin] obtain v where
    res0: "res = (with_rating (?c\<lparr>r_Vulnerabilities := v\<rparr>))\<lparr>r_ScanDurationMs := (w_now w' - start) div millisecond\<rparr>"
    and v0: "if CheckVulns opts then wf_vulnerabilities True (r_Protocols ?c) (r_Ciphers ?c) v
      else v = r_Vulnerabilities ?c" by (elim exE conjE) (rule that)
  have v: "wf_vulnerabilities (CheckVulns opts) (r_Protocols r) c v"
    using v0 wc by (cases "CheckVulns opts") (simp_all add: wf_vulnerabilities_def)
  let ?r = "r\<lparr>r_Ciphers := c, r_ForwardSecrecy := fs, r_Vulnerabilities := v\<rparr>"
  have sel: "r_Host (with_rating ?r) = r_Host r" "r_Port (with_rating ?r) = r_Port r"
    "r_RulesetVersion (with_rating ?r) = r_RulesetVersion r" "r_Protocols (with_rating ?r) = r_Protocols r"
    "r_Certificate (with_rating ?r) = r_Certificate r" "r_Ciphers (with_rating ?r) = c"
    "r_ForwardSecrecy (with_rating ?r) = fs" "r_Vulnerabilities (with_rating ?r) = v"
    "r_Errors (with_rating ?r) = r_Errors r"
    by (simp_all add: with_rating_def split: prod.splits)
  have "0 \<le> (w_now w' - start) div millisecond" using assms(3) by (simp add: millisecond_def)
  with wc cw v head assms(4) rated_wf [of ?r] show ?thesis
    by (simp add: well_formed_def res0 sel same_head_def)
qed

section \<open>Every published result is well formed\<close>

lemma scan_wf:
  assumes "Scan env ctx opts w = (Some (Inr res), w')" and "tls_contract (e_tls env)"
    and "set (e_order env) \<subseteq> set cipherCatalog"
  shows "well_formed opts res"
proof -
  have "w_now w \<le> w_now w'" using scan_resources [OF assms(2,1) refl refl] by simp
  from run_scan_wf [OF Scan_result [OF assms(1)] assms(3) this] have "well_formed (with_defaults opts) res" by simp
  then show ?thesis by (simp add: well_formed_def)
qed

text \<open>
  C2. Every result that is published is well formed, whatever the server and the TLS library did and
  however the scan went: each field is of its kind and the fields fit together (the lists of ciphers
  with the catalog and forward secrecy, the flags with the protocols, the key type with its bits,
  HTTP/2 with the negotiated protocol, the score with its components, the error with an empty
  certificate). It is what the gateway that stores the document may assume.
\<close>

theorem Scan_well_formed:
  assumes "Scan env ctx opts w = (Some (Inr res), w')" and "tls_contract (e_tls env)"
    and "set (e_order env) \<subseteq> set cipherCatalog"
  shows "well_formed opts res"
  using assms by (rule scan_wf)

theorem Scan_well_formed_witness:
  "\<exists>res w'. Scan (demo_env (refusing_tls)) None (demo_scan False) (answering []) = (Some (Inr res), w') \<and>
     well_formed (demo_scan False) res"
proof -
  obtain res w' where
    s: "Scan (demo_env (refusing_tls)) None (demo_scan False) (answering []) = (Some (Inr res), w')"
    using demo_scan_result by blast
  have "well_formed (demo_scan False) res"
    by (rule Scan_well_formed [OF s]) (simp_all add: demo_env_def example_contracts)
  with s show ?thesis by blast
qed

end
