(* ===== verification/Json.thy ===== *)
theory Json
  imports Types
begin

text \<open>
  The JSON form of a result: the field names, their order and the \<open>omitempty\<close> options of the struct tags
  in pkg/tlsscan/types.go, as a document tree. How a tree becomes text is \<open>encoding/json\<close>; the text of
  an instant is a parameter \<open>fmt\<close> (RFC 3339 in Go). A reader for the documents is the reference.
\<close>

section \<open>Documents\<close>

datatype json =
    JStr string
  | JNum int
  | JBool bool
  | JArr "json list"
  | JObj "(string \<times> json) list"

definition strings_json :: "string list \<Rightarrow> json" where
  "strings_json xs = JArr (map JStr xs)"

text \<open>A field with \<open>omitempty\<close> is left out if its slice is empty.\<close>

definition omitempty :: "string \<Rightarrow> string list \<Rightarrow> (string \<times> json) list" where
  "omitempty name xs = (if xs = [] then [] else [(name, strings_json xs)])"

definition grade_json :: "grade option \<Rightarrow> json" where
  "grade_json g = JStr (case g of None \<Rightarrow> [] | Some g \<Rightarrow> grade_string g)"

definition protocols_json :: "protocols \<Rightarrow> json" where
  "protocols_json p = JObj (
     [(''ssl2'', JBool (SSL2 p)), (''ssl3'', JBool (SSL3 p)), (''tls1_0'', JBool (TLS10 p)),
      (''tls1_1'', JBool (TLS11 p)), (''tls1_2'', JBool (TLS12 p)), (''tls1_3'', JBool (TLS13 p))] @
     omitempty ''alpn'' (ALPN p) @ [(''http2'', JBool (HTTP2 p))])"

definition certificate_json :: "(int \<Rightarrow> string) \<Rightarrow> certificate \<Rightarrow> json" where
  "certificate_json fmt c = JObj (
     [(''valid'', JBool (Valid c)), (''subject'', JStr (Subject c)), (''issuer'', JStr (Issuer c)),
      (''not_before'', JStr (fmt (NotBefore c))), (''not_after'', JStr (fmt (NotAfter c))),
      (''days_to_expiry'', JNum (DaysToExpiry c)), (''key_type'', JStr (KeyType c)),
      (''key_bits'', JNum (KeyBits c)), (''signature_algorithm'', JStr (SignatureAlgo c)),
      (''chain_complete'', JBool (ChainComplete c)), (''hostname_match'', JBool (HostnameMatch c)),
      (''self_signed'', JBool (SelfSigned c)), (''distrusted'', JBool (Distrusted c))] @
     omitempty ''sans'' (SANs c))"

definition ciphers_json :: "cipher_summary \<Rightarrow> json" where
  "ciphers_json c = JObj
     [(''strong'', strings_json (Strong c)), (''weak'', strings_json (Weak c)),
      (''insecure'', strings_json (Insecure c)), (''server_preferred_order'', JBool (ServerPreferred c))]"

definition vulnerabilities_json :: "vulnerabilities \<Rightarrow> json" where
  "vulnerabilities_json v = JObj
     [(''heartbleed'', JBool (v_Heartbleed v)), (''poodle'', JBool (v_Poodle v)), (''robot'', JBool (v_Robot v)),
      (''sweet32'', JBool (v_Sweet32 v)), (''drown'', JBool (v_Drown v)), (''freak'', JBool (v_Freak v)),
      (''logjam'', JBool (v_Logjam v)), (''beast'', JBool (v_Beast v)),
      (''goldendoodle'', JBool (v_GoldenDoodle v)), (''zombie_poodle'', JBool (v_ZombiePoodle v)),
      (''sleeping_poodle'', JBool (v_SleepingPoodle v)), (''cve_2019_1559'', JBool (v_ZeroLengthPaddingCVE v)),
      (''insecure_renegotiation'', JBool (v_InsecureRenegotiation v)),
      (''tls_fallback_scsv_missing'', JBool (v_TLSFallbackSCSV v))]"

definition rating_json :: "rating_breakdown \<Rightarrow> json" where
  "rating_json b = JObj
     [(''protocol_score'', JNum (ProtocolScore b)), (''key_exchange_score'', JNum (KeyExchangeScore b)),
      (''cipher_score'', JNum (CipherScore b)), (''numeric'', JNum (Numeric b))]"

definition result_json :: "(int \<Rightarrow> string) \<Rightarrow> result \<Rightarrow> json" where
  "result_json fmt r = JObj (
     [(''host'', JStr (r_Host r)), (''port'', JNum (r_Port r)), (''grade'', grade_json (r_Grade r)),
      (''grade_caps'', strings_json (r_GradeCaps r)), (''protocols'', protocols_json (r_Protocols r)),
      (''certificate'', certificate_json fmt (r_Certificate r)), (''ciphers'', ciphers_json (r_Ciphers r)),
      (''forward_secrecy'', JBool (r_ForwardSecrecy r)),
      (''vulnerabilities'', vulnerabilities_json (r_Vulnerabilities r)), (''rating'', rating_json (r_Rating r)),
      (''scan_duration_ms'', JNum (r_ScanDurationMs r)), (''ruleset_version'', JStr (r_RulesetVersion r))] @
     omitempty ''errors'' (r_Errors r))"

section \<open>A reader\<close>

text \<open>Readers of single values, and the lookup of a field; a missing slice is empty.\<close>

fun as_str :: "json \<Rightarrow> string option" where
  "as_str (JStr s) = Some s"
| "as_str _ = None"

fun as_num :: "json \<Rightarrow> int option" where
  "as_num (JNum n) = Some n"
| "as_num _ = None"

fun as_bool :: "json \<Rightarrow> bool option" where
  "as_bool (JBool b) = Some b"
| "as_bool _ = None"

fun as_strings :: "json \<Rightarrow> string list option" where
  "as_strings (JArr xs) = those (map as_str xs)"
| "as_strings _ = None"

fun fields :: "json \<Rightarrow> (string \<times> json) list" where
  "fields (JObj fs) = fs"
| "fields _ = []"

definition field :: "json \<Rightarrow> string \<Rightarrow> (json \<Rightarrow> 'a option) \<Rightarrow> 'a option" where
  "field j name as = Option.bind (map_of (fields j) name) as"

definition slice_field :: "json \<Rightarrow> string \<Rightarrow> string list option" where
  "slice_field j name = (case map_of (fields j) name of None \<Rightarrow> Some [] | Some v \<Rightarrow> as_strings v)"

definition all_grades :: "grade list" where
  "all_grades = [GradeAPlus, GradeA, GradeB, GradeC, GradeD, GradeE, GradeF, GradeT, GradeR]"

definition as_grade :: "json \<Rightarrow> grade option option" where
  "as_grade j = map_option (\<lambda>s. find (\<lambda>g. grade_string g = s) all_grades) (as_str j)"

lemma those_map_Some [simp]: "those (map Some xs) = Some xs"
  by (induction xs) simp_all

lemma as_strings_json [simp]: "as_strings (strings_json xs) = Some xs"
  by (simp add: strings_json_def comp_def)

lemma as_grade_json [simp]: "as_grade (grade_json g) = Some g"
proof (cases g)
  case None
  have "grade_string h \<noteq> []" for h by (cases h) simp_all
  with None show ?thesis by (simp add: as_grade_def grade_json_def all_grades_def)
next
  case (Some h)
  then show ?thesis by (cases h) (simp_all add: as_grade_def grade_json_def all_grades_def)
qed

definition read_protocols :: "json \<Rightarrow> protocols option" where
  "read_protocols j = do {
     s2 \<leftarrow> field j ''ssl2'' as_bool; s3 \<leftarrow> field j ''ssl3'' as_bool; t0 \<leftarrow> field j ''tls1_0'' as_bool;
     t1 \<leftarrow> field j ''tls1_1'' as_bool; t2 \<leftarrow> field j ''tls1_2'' as_bool; t3 \<leftarrow> field j ''tls1_3'' as_bool;
     al \<leftarrow> slice_field j ''alpn''; h2 \<leftarrow> field j ''http2'' as_bool;
     Some \<lparr>SSL2 = s2, SSL3 = s3, TLS10 = t0, TLS11 = t1, TLS12 = t2, TLS13 = t3, ALPN = al, HTTP2 = h2\<rparr> }"

definition read_certificate :: "(string \<Rightarrow> int option) \<Rightarrow> json \<Rightarrow> certificate option" where
  "read_certificate parse j = do {
     va \<leftarrow> field j ''valid'' as_bool; su \<leftarrow> field j ''subject'' as_str; iss \<leftarrow> field j ''issuer'' as_str;
     nb \<leftarrow> Option.bind (field j ''not_before'' as_str) parse;
     na \<leftarrow> Option.bind (field j ''not_after'' as_str) parse;
     da \<leftarrow> field j ''days_to_expiry'' as_num; kt \<leftarrow> field j ''key_type'' as_str;
     kb \<leftarrow> field j ''key_bits'' as_num; sa \<leftarrow> field j ''signature_algorithm'' as_str;
     cc \<leftarrow> field j ''chain_complete'' as_bool; hm \<leftarrow> field j ''hostname_match'' as_bool;
     ss \<leftarrow> field j ''self_signed'' as_bool; di \<leftarrow> field j ''distrusted'' as_bool; sn \<leftarrow> slice_field j ''sans'';
     Some \<lparr>Valid = va, Subject = su, Issuer = iss, NotBefore = nb, NotAfter = na, DaysToExpiry = da,
       KeyType = kt, KeyBits = kb, SignatureAlgo = sa, ChainComplete = cc, HostnameMatch = hm,
       SelfSigned = ss, Distrusted = di, SANs = sn\<rparr> }"

definition read_ciphers :: "json \<Rightarrow> cipher_summary option" where
  "read_ciphers j = do {
     st \<leftarrow> field j ''strong'' as_strings; we \<leftarrow> field j ''weak'' as_strings;
     ins \<leftarrow> field j ''insecure'' as_strings; sp \<leftarrow> field j ''server_preferred_order'' as_bool;
     Some \<lparr>Strong = st, Weak = we, Insecure = ins, ServerPreferred = sp\<rparr> }"

definition read_vulnerabilities :: "json \<Rightarrow> vulnerabilities option" where
  "read_vulnerabilities j = do {
     hb \<leftarrow> field j ''heartbleed'' as_bool; po \<leftarrow> field j ''poodle'' as_bool; ro \<leftarrow> field j ''robot'' as_bool;
     sw \<leftarrow> field j ''sweet32'' as_bool; dr \<leftarrow> field j ''drown'' as_bool; fr \<leftarrow> field j ''freak'' as_bool;
     lo \<leftarrow> field j ''logjam'' as_bool; be \<leftarrow> field j ''beast'' as_bool; gd \<leftarrow> field j ''goldendoodle'' as_bool;
     zp \<leftarrow> field j ''zombie_poodle'' as_bool; sp \<leftarrow> field j ''sleeping_poodle'' as_bool;
     zl \<leftarrow> field j ''cve_2019_1559'' as_bool; ir \<leftarrow> field j ''insecure_renegotiation'' as_bool;
     fs \<leftarrow> field j ''tls_fallback_scsv_missing'' as_bool;
     Some \<lparr>v_Heartbleed = hb, v_Poodle = po, v_Robot = ro, v_Sweet32 = sw, v_Drown = dr, v_Freak = fr,
       v_Logjam = lo, v_Beast = be, v_GoldenDoodle = gd, v_ZombiePoodle = zp, v_SleepingPoodle = sp,
       v_ZeroLengthPaddingCVE = zl, v_InsecureRenegotiation = ir, v_TLSFallbackSCSV = fs\<rparr> }"

definition read_rating :: "json \<Rightarrow> rating_breakdown option" where
  "read_rating j = do {
     ps \<leftarrow> field j ''protocol_score'' as_num; ks \<leftarrow> field j ''key_exchange_score'' as_num;
     cs \<leftarrow> field j ''cipher_score'' as_num; nu \<leftarrow> field j ''numeric'' as_num;
     Some \<lparr>ProtocolScore = ps, KeyExchangeScore = ks, CipherScore = cs, Numeric = nu\<rparr> }"

definition read_result :: "(string \<Rightarrow> int option) \<Rightarrow> json \<Rightarrow> result option" where
  "read_result parse j = do {
     ho \<leftarrow> field j ''host'' as_str; po \<leftarrow> field j ''port'' as_num; gr \<leftarrow> field j ''grade'' as_grade;
     ca \<leftarrow> field j ''grade_caps'' as_strings; pr \<leftarrow> field j ''protocols'' read_protocols;
     ce \<leftarrow> field j ''certificate'' (read_certificate parse); ci \<leftarrow> field j ''ciphers'' read_ciphers;
     fs \<leftarrow> field j ''forward_secrecy'' as_bool; vu \<leftarrow> field j ''vulnerabilities'' read_vulnerabilities;
     ra \<leftarrow> field j ''rating'' read_rating; du \<leftarrow> field j ''scan_duration_ms'' as_num;
     ru \<leftarrow> field j ''ruleset_version'' as_str; er \<leftarrow> slice_field j ''errors'';
     Some \<lparr>r_Host = ho, r_Port = po, r_Grade = gr, r_GradeCaps = ca, r_Protocols = pr, r_Certificate = ce,
       r_Ciphers = ci, r_ForwardSecrecy = fs, r_Vulnerabilities = vu, r_Rating = ra, r_ScanDurationMs = du,
       r_RulesetVersion = ru, r_Errors = er\<rparr> }"

section \<open>Round trip\<close>

lemma field_JObj:
  "field (JObj ((n, v) # fs)) m as = (if n = m then as v else field (JObj fs) m as)"
  "slice_field (JObj ((n, v) # fs)) m = (if n = m then as_strings v else slice_field (JObj fs) m)"
  "slice_field (JObj []) m = Some []"
  by (simp_all add: field_def slice_field_def)

lemma field_omitempty:
  "field (JObj (omitempty n xs @ fs)) m as = (if n = m \<and> xs \<noteq> [] then as (strings_json xs) else field (JObj fs) m as)"
  "slice_field (JObj (omitempty n xs @ fs)) m = (if n = m \<and> xs \<noteq> [] then Some xs else slice_field (JObj fs) m)"
  "slice_field (JObj (omitempty n xs)) n = Some xs"
  by (simp_all add: field_def slice_field_def omitempty_def)

lemmas field_simps_json = field_JObj field_omitempty append_Cons append_Nil

lemma read_protocols_json: "read_protocols (protocols_json p) = Some p"
  by (cases p) (simp add: read_protocols_def protocols_json_def field_simps_json)

lemma read_certificate_json:
  "(\<And>t. parse (fmt t) = Some t) \<Longrightarrow> read_certificate parse (certificate_json fmt c) = Some c"
  by (cases c) (simp add: read_certificate_def certificate_json_def field_simps_json)

lemma read_ciphers_json: "read_ciphers (ciphers_json c) = Some c"
  by (cases c) (simp add: read_ciphers_def ciphers_json_def field_simps_json)

lemma read_vulnerabilities_json: "read_vulnerabilities (vulnerabilities_json v) = Some v"
  by (cases v) (simp add: read_vulnerabilities_def vulnerabilities_json_def field_simps_json)

lemma read_rating_json: "read_rating (rating_json b) = Some b"
  by (cases b) (simp add: read_rating_def rating_json_def field_simps_json)

lemma result_json_read:
  assumes "\<And>t. parse (fmt t) = Some t"
  shows "read_result parse (result_json fmt r) = Some r"
  using read_certificate_json [of parse fmt, OF assms]
  by (cases r) (simp add: read_result_def result_json_def field_simps_json read_protocols_json
      read_ciphers_json read_vulnerabilities_json read_rating_json)

text \<open>
  The published document is lossless: from the JSON of a result, with its field names and omitted empty
  slices, a reader gets back every field of the result, provided the text of an instant determines it.
\<close>

theorem result_json_round_trip:
  assumes "\<And>t. parse (fmt t) = Some t"
  shows "read_result parse (result_json fmt r) = Some r"
  using assms by (rule result_json_read)

text \<open>Instants written in unary.\<close>

definition unary :: "int \<Rightarrow> string" where
  "unary t = (if t < 0 then ''-'' else ''+'') @ replicate (nat \<bar>t\<bar>) CHR ''1''"

definition read_unary :: "string \<Rightarrow> int option" where
  "read_unary s = (case s of [] \<Rightarrow> None
     | c # ds \<Rightarrow> Some (if c = CHR ''-'' then - int (length ds) else int (length ds)))"

theorem result_json_round_trip_witness:
  "\<forall>r. read_result read_unary (result_json unary r) = Some r"
  using result_json_round_trip [of read_unary unary] by (simp add: unary_def read_unary_def)

end
