(* ===== verification/Quoting.thy ===== *)
theory Quoting
  imports Decimal
begin

text \<open>
  The strings of JSON documents as \<open>encoding/json\<close> writes and reads them: strings are byte strings, the
  encoder escapes for HTML and replaces bytes that are not UTF-8, and the decoder undoes the escapes.
  A valid string is read back as it was written.
\<close>

section \<open>UTF-8\<close>

definition cont :: "nat \<Rightarrow> nat \<Rightarrow> char \<Rightarrow> bool" where
  "cont lo hi c \<longleftrightarrow> lo \<le> code c \<and> code c \<le> hi"

text \<open>The size of the code point at the head of a string, 0 if there is no valid one.\<close>

fun tail_size :: "nat \<Rightarrow> nat \<Rightarrow> nat \<Rightarrow> string \<Rightarrow> nat" where
  "tail_size (Suc 0) lo hi (c # cs) = (if cont lo hi c then 2 else 0)"
| "tail_size (Suc (Suc 0)) lo hi (c # d # cs) = (if cont lo hi c \<and> cont 0x80 0xbf d then 3 else 0)"
| "tail_size (Suc (Suc (Suc 0))) lo hi (c # d # e # cs) =
     (if cont lo hi c \<and> cont 0x80 0xbf d \<and> cont 0x80 0xbf e then 4 else 0)"
| "tail_size _ _ _ _ = 0"

fun utf8_size :: "string \<Rightarrow> nat" where
  "utf8_size [] = 0"
| "utf8_size (c # cs) =
     (let b = code c
      in if b < 0x80 then 1 else if b < 0xc2 then 0
         else if b < 0xe0 then tail_size 1 0x80 0xbf cs
         else if b < 0xf0 then tail_size 2 (if b = 0xe0 then 0xa0 else 0x80) (if b = 0xed then 0x9f else 0xbf) cs
         else if b < 0xf5 then tail_size 3 (if b = 0xf0 then 0x90 else 0x80) (if b = 0xf4 then 0x8f else 0xbf) cs
         else 0)"

lemma tail_size_cases: "tail_size n lo hi cs = 0 \<or> tail_size n lo hi cs = Suc n \<and> n \<le> length cs \<and> n < 4"
  by (cases "(n, lo, hi, cs)" rule: tail_size.cases) auto

lemma tail_size_append: "tail_size n lo hi cs \<noteq> 0 \<Longrightarrow> tail_size n lo hi (cs @ ds) = tail_size n lo hi cs"
  by (cases "(n, lo, hi, cs)" rule: tail_size.cases) auto

lemma utf8_size_bound: "utf8_size s \<le> length s"
proof (cases s)
  case (Cons c cs)
  then show ?thesis
    using tail_size_cases [of 1 "0x80" "0xbf" cs]
      tail_size_cases [of 2 "if code c = 0xe0 then 0xa0 else 0x80" "if code c = 0xed then 0x9f else 0xbf" cs]
      tail_size_cases [of 3 "if code c = 0xf0 then 0x90 else 0x80" "if code c = 0xf4 then 0x8f else 0xbf" cs]
    by (auto simp: Let_def)
qed simp

lemma utf8_size_append: "utf8_size s \<noteq> 0 \<Longrightarrow> utf8_size (s @ t) = utf8_size s"
  by (cases s) (auto simp: Let_def tail_size_append split: if_splits)

function valid_utf8 :: "string \<Rightarrow> bool" where
  "valid_utf8 s =
     (if s = [] then True else if utf8_size s = 0 then False else valid_utf8 (drop (utf8_size s) s))"
  by pat_completeness auto
termination
  by (relation "measure length") auto

declare valid_utf8.simps [simp del]

lemma valid_utf8_Nil [simp]: "valid_utf8 []"
  by (subst valid_utf8.simps) simp

definition replacement :: string where
  "replacement = map char_of [0xef, 0xbf, 0xbd :: nat]"

section \<open>Writing strings\<close>

definition hex_digit :: "nat \<Rightarrow> char" where
  "hex_digit n = (if n < 10 then char_of (48 + n) else char_of (87 + n))"

definition u_escape :: "nat \<Rightarrow> string" where
  "u_escape n = [CHR 0x5C, CHR ''u'', hex_digit (n div 4096 mod 16), hex_digit (n div 256 mod 16),
     hex_digit (n div 16 mod 16), hex_digit (n mod 16)]"

text \<open>A byte below 128: those with a short escape, those that are escaped for HTML, the controls.\<close>

definition quote_ascii :: "char \<Rightarrow> string" where
  "quote_ascii c =
     (let n = code c
      in if n = 0x22 \<or> n = 0x5c then [CHR 0x5C, c]
         else if n = 8 then [CHR 0x5C, CHR ''b''] else if n = 12 then [CHR 0x5C, CHR ''f'']
         else if n = 10 then [CHR 0x5C, CHR ''n''] else if n = 13 then [CHR 0x5C, CHR ''r'']
         else if n = 9 then [CHR 0x5C, CHR ''t'']
         else if n < 0x20 \<or> n = 0x3c \<or> n = 0x3e \<or> n = 0x26 then u_escape n
         else [c])"

text \<open>The separators U+2028 and U+2029 are escaped, an invalid byte is written as U+FFFD.\<close>

function quote_body :: "string \<Rightarrow> string" where
  "quote_body s =
     (if s = [] then []
      else let n = utf8_size s
           in if n = 0 then u_escape 0xfffd @ quote_body (tl s)
              else if n = 1 then quote_ascii (hd s) @ quote_body (tl s)
              else if map code (take n s) = [0xe2, 0x80, 0xa8] then u_escape 0x2028 @ quote_body (drop n s)
              else if map code (take n s) = [0xe2, 0x80, 0xa9] then u_escape 0x2029 @ quote_body (drop n s)
              else take n s @ quote_body (drop n s))"
  by pat_completeness auto
termination
  by (relation "measure length") auto

declare quote_body.simps [simp del]

definition quote :: "string \<Rightarrow> string" where
  "quote s = [CHR 0x22] @ quote_body s @ [CHR 0x22]"

section \<open>Reading strings\<close>

definition hex_value :: "char \<Rightarrow> nat option" where
  "hex_value c =
     (let n = code c
      in if 48 \<le> n \<and> n \<le> 57 then Some (n - 48)
         else if 97 \<le> n \<and> n \<le> 102 then Some (n - 87)
         else if 65 \<le> n \<and> n \<le> 70 then Some (n - 55) else None)"

fun hex4 :: "string \<Rightarrow> nat option" where
  "hex4 (a # b # c # d # s) = do {
     a \<leftarrow> hex_value a; b \<leftarrow> hex_value b; c \<leftarrow> hex_value c; d \<leftarrow> hex_value d;
     Some (((a * 16 + b) * 16 + c) * 16 + d) }"
| "hex4 _ = None"

text \<open>The UTF-8 form of a code point; surrogates and what lies beyond U+10FFFF give U+FFFD.\<close>

definition utf8_encode :: "nat \<Rightarrow> string" where
  "utf8_encode r =
     (if r < 0x80 then [char_of r]
      else if r < 0x800 then [char_of (0xc0 + r div 64), char_of (0x80 + r mod 64)]
      else if 0xd800 \<le> r \<and> r < 0xe000 \<or> 0x10ffff < r then replacement
      else if r < 0x10000
      then [char_of (0xe0 + r div 4096), char_of (0x80 + r div 64 mod 64), char_of (0x80 + r mod 64)]
      else [char_of (0xf0 + r div 262144), char_of (0x80 + r div 4096 mod 64),
            char_of (0x80 + r div 64 mod 64), char_of (0x80 + r mod 64)])"

text \<open>The escape after a backslash: what it stands for and what follows it.\<close>

definition unescape :: "string \<Rightarrow> (string \<times> string) option" where
  "unescape s =
     (case s of
        [] \<Rightarrow> None
      | c # t \<Rightarrow>
          if code c \<in> {0x22, 0x5c, 0x2f} then Some ([c], t)
          else if c = CHR ''b'' then Some ([char_of (8 :: nat)], t)
          else if c = CHR ''f'' then Some ([char_of (12 :: nat)], t)
          else if c = CHR ''n'' then Some ([char_of (10 :: nat)], t)
          else if c = CHR ''r'' then Some ([char_of (13 :: nat)], t)
          else if c = CHR ''t'' then Some ([char_of (9 :: nat)], t)
          else if c = CHR ''u''
          then (case hex4 t of
                  None \<Rightarrow> None
                | Some r \<Rightarrow>
                    if 0xd800 \<le> r \<and> r < 0xdc00 \<and> take 2 (drop 4 t) = [CHR 0x5C, CHR ''u'']
                    then (case hex4 (drop 6 t) of
                            None \<Rightarrow> None
                          | Some r2 \<Rightarrow>
                              if 0xdc00 \<le> r2 \<and> r2 < 0xe000
                              then Some (utf8_encode (0x10000 + (r - 0xd800) * 1024 + (r2 - 0xdc00)), drop 10 t)
                              else Some (replacement, drop 4 t))
                    else Some (utf8_encode r, drop 4 t))
          else None)"

lemma unescape_shorter: "unescape s = Some (x, t) \<Longrightarrow> length t < length s"
  by (auto simp: unescape_def split: list.splits if_splits option.splits)

text \<open>After the opening quote: the string up to the closing one, and what follows.\<close>

function unquote :: "string \<Rightarrow> (string \<times> string) option" where
  "unquote s =
     (case s of
        [] \<Rightarrow> None
      | c # t \<Rightarrow>
          if code c = 0x22 then Some ([], t)
          else if code c = 0x5c
          then (case unescape t of
                  None \<Rightarrow> None
                | Some (x, u) \<Rightarrow> map_option (\<lambda>(y, v). (x @ y, v)) (unquote u))
          else if code c < 0x20 then None
          else let n = utf8_size s
               in if n = 0 then map_option (\<lambda>(y, v). (replacement @ y, v)) (unquote t)
                  else map_option (\<lambda>(y, v). (take n s @ y, v)) (unquote (drop n s)))"
  by pat_completeness auto
termination
  by (relation "measure length") (auto dest: unescape_shorter)

declare unquote.simps [simp del]

section \<open>Reading back a written string\<close>

lemma hex_value_digit: "d < 16 \<Longrightarrow> hex_value (hex_digit d) = Some d"
  by (simp add: hex_value_def hex_digit_def Let_def)

lemma hex_regroup:
  assumes "n < 65536"
  shows "((n div 4096 mod 16 * 16 + n div 256 mod 16) * 16 + n div 16 mod 16) * 16 + n mod 16 = (n :: nat)"
proof -
  have "n div 4096 mod 16 * 16 + n div 256 mod 16 = n div 256"
    using assms div_mult_mod_eq [of "n div 256" 16] by (simp add: div_mult2_eq [symmetric])
  moreover have "n div 256 * 16 + n div 16 mod 16 = n div 16"
    using div_mult_mod_eq [of "n div 16" 16] by (simp add: div_mult2_eq [symmetric])
  ultimately show ?thesis using div_mult_mod_eq [of n 16] by simp
qed

lemma unescape_u:
  assumes "n < 0xd800"
  shows "unquote (u_escape n @ r) = map_option (\<lambda>(y, v). (utf8_encode n @ y, v)) (unquote r)"
proof -
  have h: "hex4 ([hex_digit (n div 4096 mod 16), hex_digit (n div 256 mod 16), hex_digit (n div 16 mod 16),
      hex_digit (n mod 16)] @ r) = Some n"
    using assms hex_regroup [of n] by (simp add: hex_value_digit)
  have "unescape (tl (u_escape n @ r)) = Some (utf8_encode n, r)"
    using h assms by (simp add: unescape_def u_escape_def code_def)
  then show ?thesis
    by (subst unquote.simps) (simp add: u_escape_def code_def)
qed

lemma char_of_code [simp]: "char_of (code c) = c"
  by (simp add: code_def)

lemma code_eqD: "code c = n \<Longrightarrow> c = char_of n"
  by (metis char_of_code)

lemma unquote_short:
  assumes "unescape (x # r) = Some ([c], r)"
  shows "unquote (CHR 0x5C # x # r) = map_option (\<lambda>(y, v). (c # y, v)) (unquote r)"
  using assms by (subst unquote.simps) (simp add: code_def)

lemma unquote_ascii:
  assumes "code c < 0x80"
  shows "unquote (quote_ascii c @ r) = map_option (\<lambda>(y, v). (c # y, v)) (unquote r)"
proof -
  consider "code c \<in> {0x22, 0x5c}" | "code c \<in> {8, 12, 10, 13, 9}"
    | "code c \<notin> {0x22, 0x5c, 8, 12, 10, 13, 9}" "code c < 0x20 \<or> code c \<in> {0x3c, 0x3e, 0x26}"
    | "\<not> code c < 0x20" "code c \<notin> {0x22, 0x5c, 0x3c, 0x3e, 0x26}" by blast
  then show ?thesis
  proof cases
    case 1
    then have "quote_ascii c = [CHR 0x5C, c]" by (simp add: quote_ascii_def Let_def)
    moreover have m: "code c \<in> {0x22, 0x5c, 0x2f}" using 1 by auto
    have "unescape (c # r) = Some ([c], r)" by (simp only: unescape_def list.case m if_True)
    ultimately show ?thesis by (simp add: unquote_short)
  next
    case 2
    then have "c = char_of (8 :: nat) \<or> c = char_of (12 :: nat) \<or> c = char_of (10 :: nat) \<or>
        c = char_of (13 :: nat) \<or> c = char_of (9 :: nat)" by (auto dest: code_eqD)
    then show ?thesis
      by (elim disjE) (simp_all add: quote_ascii_def unquote_short unescape_def code_def Let_def)
  next
    case 3
    then have "quote_ascii c = u_escape (code c)" by (auto simp: quote_ascii_def Let_def)
    moreover have "utf8_encode (code c) = [c]" using assms by (simp add: utf8_encode_def)
    ultimately show ?thesis using unescape_u [of "code c" r] assms by simp
  next
    case 4
    then have "quote_ascii c = [c]" by (simp add: quote_ascii_def Let_def)
    moreover have "utf8_size (c # r) = 1" using assms by simp
    ultimately show ?thesis using 4 by (subst unquote.simps) (simp add: Let_def)
  qed
qed

lemma tail_size_take:
  "tail_size n lo hi cs \<noteq> 0 \<Longrightarrow> tail_size n lo hi (take (tail_size n lo hi cs - 1) cs) = tail_size n lo hi cs"
  by (cases "(n, lo, hi, cs)" rule: tail_size.cases) (auto simp: numeral_eq_Suc)

lemma utf8_branch:
  "code c < 0x80 \<or> (\<forall>xs. utf8_size (c # xs) = 0) \<or> (\<exists>n lo hi. \<forall>xs. utf8_size (c # xs) = tail_size n lo hi xs)"
  by (simp add: Let_def) blast

lemma utf8_size_take: "utf8_size (take (utf8_size s) s) = utf8_size s"
proof (cases "utf8_size s = 0")
  case False
  then obtain c cs where s: "s = c # cs" by (cases s) auto
  from utf8_branch [of c] show ?thesis
  proof (elim disjE exE)
    fix n lo hi
    assume b: "\<forall>xs. utf8_size (c # xs) = tail_size n lo hi xs"
    with False s have "tail_size n lo hi cs \<noteq> 0" by simp
    with tail_size_take [OF this] b show ?thesis by (simp add: s take_Cons' del: utf8_size.simps(2))
  qed (use False s in auto)
qed simp

lemma utf8_head:
  assumes "2 \<le> utf8_size s"
  shows "\<exists>c cs. s = c # cs \<and> 0xc2 \<le> code c"
  using assms by (cases s) (auto simp: Let_def split: if_splits)

lemma tail_size_not_one: "tail_size n lo hi cs \<noteq> 1"
  by (cases "(n, lo, hi, cs)" rule: tail_size.cases) auto

lemma utf8_one:
  assumes "utf8_size s = 1"
  shows "\<exists>c cs. s = c # cs \<and> code c < 0x80"
proof -
  from assms obtain c cs where s: "s = c # cs" by (cases s) auto
  with assms utf8_branch [of c] tail_size_not_one show ?thesis by (auto simp del: utf8_size.simps(2))
qed

lemma unquote_rune:
  assumes "2 \<le> utf8_size s"
  shows "unquote (take (utf8_size s) s @ r) =
    map_option (\<lambda>(y, v). (take (utf8_size s) s @ y, v)) (unquote r)"
proof -
  let ?n = "utf8_size s" and ?x = "take (utf8_size s) s"
  have n: "utf8_size (?x @ r) = ?n" using utf8_size_append [of ?x r] utf8_size_take [of s] assms by simp
  have l: "length ?x = ?n" using utf8_size_bound [of s] by simp
  from utf8_head [OF assms] obtain c cs where s: "s = c # cs" "0xc2 \<le> code c" by blast
  define t where "t = take (?n - 1) cs @ r"
  have ct: "?x @ r = c # t" using assms by (cases ?n) (simp_all add: s t_def)
  have "unquote (c # t) = map_option (\<lambda>(y, v). (take ?n (c # t) @ y, v)) (unquote (drop ?n (c # t)))"
    using n s(2) assms unfolding ct by (subst unquote.simps) (simp add: Let_def del: utf8_size.simps)
  then show ?thesis unfolding ct [symmetric] using l by simp
qed

lemma utf8_encode_separators:
  "map code (utf8_encode 0x2028) = [0xe2, 0x80, 0xa8]" "map code (utf8_encode 0x2029) = [0xe2, 0x80, 0xa9]"
  by (simp_all add: utf8_encode_def)

lemma map_code_inject: "map code xs = map code ys \<Longrightarrow> xs = ys"
  by (rule map_injective) (auto simp: inj_def code_inject)

lemma unquote_quote: "valid_utf8 s \<Longrightarrow> unquote (quote_body s @ CHR 0x22 # r) = Some (s, r)"
proof (induction s rule: valid_utf8.induct)
  case (1 s)
  show ?case
  proof (cases "s = []")
    case True
    then show ?thesis by (simp add: quote_body.simps [of "[]"] unquote.simps [of "CHR 0x22 # r"] code_def)
  next
    case False
    let ?n = "utf8_size s" and ?q = "quote_body (drop (utf8_size s) s) @ CHR 0x22 # r"
    from "1.prems" False have n: "?n \<noteq> 0" and v: "valid_utf8 (drop ?n s)"
      by (simp_all add: valid_utf8.simps [of s] split: if_splits)
    from "1.IH" [OF False n v] have IH: "unquote ?q = Some (drop ?n s, r)" .
    consider "?n = 1" | "2 \<le> ?n" "map code (take ?n s) = [0xe2, 0x80, 0xa8]"
      | "2 \<le> ?n" "map code (take ?n s) = [0xe2, 0x80, 0xa9]"
      | "2 \<le> ?n" "map code (take ?n s) \<notin> {[0xe2, 0x80, 0xa8], [0xe2, 0x80, 0xa9]}" using n by fastforce
    then show ?thesis
    proof cases
      case 1
      from utf8_one [OF this] obtain c cs where s: "s = c # cs" "code c < 0x80" by blast
      then have "quote_body s = quote_ascii c @ quote_body cs" by (subst quote_body.simps) (simp add: Let_def)
      with unquote_ascii [OF s(2)] IH 1 s show ?thesis by simp
    next
      case 2
      then have t: "take ?n s = utf8_encode 0x2028"
        by (intro map_code_inject) (simp only: utf8_encode_separators)
      have "quote_body s = u_escape 0x2028 @ quote_body (drop ?n s)"
        using 2 False n by (subst quote_body.simps) (simp add: Let_def)
      with unescape_u [of "0x2028"] IH t [symmetric] show ?thesis by simp
    next
      case 3
      then have t: "take ?n s = utf8_encode 0x2029"
        by (intro map_code_inject) (simp only: utf8_encode_separators)
      have "quote_body s = u_escape 0x2029 @ quote_body (drop ?n s)"
        using 3 False n by (subst quote_body.simps) (simp add: Let_def)
      with unescape_u [of "0x2029"] IH t [symmetric] show ?thesis by simp
    next
      case 4
      have "quote_body s = take ?n s @ quote_body (drop ?n s)"
        using 4 False n by (subst quote_body.simps) (simp add: Let_def)
      with unquote_rune [OF 4(1)] IH show ?thesis by simp
    qed
  qed
qed

end
