(* ===== verification/JsonText.thy ===== *)
theory JsonText
  imports Json Quoting
begin

text \<open>
  The text of JSON documents as \<open>encoding/json\<close> writes and reads it, because the service reads its
  requests from such text and both programs write their results as such text. The decoder is a stack
  machine over the tokens of the input, as the library's scanner is; it stops after the first
  complete value and refuses nesting beyond 10000. One printer, with the white space as parameters,
  stands for the compact form of the service and the indented one of the console tool.
\<close>

section \<open>Values and tokens\<close>

text \<open>A number stays the literal it is in the text, as for a decoder into a struct.\<close>

datatype jvalue =
    VNull
  | VBool bool
  | VNum string
  | VStr string
  | VArr "jvalue list"
  | VObj "(string \<times> jvalue) list"

datatype token = LBrace | RBrace | LBrack | RBrack | Comma | Colon | Scalar jvalue

definition ws :: "char \<Rightarrow> bool" where
  "ws c \<longleftrightarrow> code c \<in> {32, 9, 10, 13}"

definition lex_int :: "string \<Rightarrow> (string \<times> string) option" where
  "lex_int s =
     (case s of
        [] \<Rightarrow> None
      | c # t \<Rightarrow> if c = CHR ''0'' then Some ([c], t)
                 else if is_digit c then Some (takeWhile is_digit s, dropWhile is_digit s) else None)"

text \<open>A part that starts with one of some characters and needs at least one digit.\<close>

definition lex_frac :: "string \<Rightarrow> (string \<times> string) option" where
  "lex_frac s =
     (if s \<noteq> [] \<and> hd s = CHR ''.''
      then let ds = takeWhile is_digit (tl s)
           in if ds = [] then None else Some (CHR ''.'' # ds, dropWhile is_digit (tl s))
      else Some ([], s))"

definition lex_exp :: "string \<Rightarrow> (string \<times> string) option" where
  "lex_exp s =
     (if s \<noteq> [] \<and> hd s \<in> {CHR ''e'', CHR ''E''}
      then let sgn = (if tl s \<noteq> [] \<and> hd (tl s) \<in> {CHR ''+'', CHR ''-''} then [hd (tl s)] else []);
               t = drop (length sgn) (tl s); ds = takeWhile is_digit t
           in if ds = [] then None else Some (hd s # sgn @ ds, dropWhile is_digit t)
      else Some ([], s))"

definition lex_number :: "string \<Rightarrow> (string \<times> string) option" where
  "lex_number s =
     (let sgn = (if s \<noteq> [] \<and> hd s = CHR ''-'' then ''-'' else []);
          s = drop (length sgn) s
      in do {
        (i, s) \<leftarrow> lex_int s;
        (f, s) \<leftarrow> lex_frac s;
        (e, s) \<leftarrow> lex_exp s;
        Some (sgn @ i @ f @ e, s) })"

definition lex_word :: "string \<Rightarrow> jvalue \<Rightarrow> string \<Rightarrow> (token \<times> string) option" where
  "lex_word word v s = (if take (length word) s = word then Some (Scalar v, drop (length word) s) else None)"

text \<open>The next token of a string that does not start with white space.\<close>

definition next_token :: "string \<Rightarrow> (token \<times> string) option" where
  "next_token s =
     (case s of
        [] \<Rightarrow> None
      | c # t \<Rightarrow>
          if c = CHR ''{'' then Some (LBrace, t) else if c = CHR ''}'' then Some (RBrace, t)
          else if c = CHR ''['' then Some (LBrack, t) else if c = CHR '']'' then Some (RBrack, t)
          else if c = CHR '','' then Some (Comma, t) else if c = CHR '':'' then Some (Colon, t)
          else if c = CHR 0x22 then map_option (\<lambda>(x, u). (Scalar (VStr x), u)) (unquote t)
          else if c = CHR ''n'' then lex_word ''null'' VNull s
          else if c = CHR ''t'' then lex_word ''true'' (VBool True) s
          else if c = CHR ''f'' then lex_word ''false'' (VBool False) s
          else map_option (\<lambda>(x, u). (Scalar (VNum x), u)) (lex_number s))"

lemma unquote_shorter: "unquote s = Some (x, u) \<Longrightarrow> length u < length s"
proof (induction s arbitrary: x rule: unquote.induct)
  case (1 s)
  show ?case
  proof (cases s)
    case Nil
    with "1.prems" show ?thesis by (simp add: unquote.simps [of "[]"])
  next
    case (Cons c t)
    show ?thesis
    proof (cases "code c = 0x22 \<or> code c < 0x20")
      case True
      with "1.prems" Cons show ?thesis by (auto simp: unquote.simps [of "c # t"] split: if_splits)
    next
      case False
      show ?thesis
        using "1.prems" "1.IH" Cons False unescape_shorter [of t]
        by (fastforce simp: unquote.simps [of "c # t"] Let_def split: if_splits option.splits)
    qed
  qed
qed

lemma dropWhile_shorter: "takeWhile P s \<noteq> [] \<Longrightarrow> length (dropWhile P s) < length s"
  by (cases s) (auto simp: le_imp_less_Suc length_dropWhile_le split: if_splits)

lemma lex_int_shorter: "lex_int s = Some (i, r) \<Longrightarrow> length r < length s"
  by (cases s) (auto simp: lex_int_def le_imp_less_Suc length_dropWhile_le split: if_splits)

lemma lex_rest_shorter:
  "lex_frac s = Some (f, r) \<Longrightarrow> length r \<le> length s" "lex_exp s = Some (f, r) \<Longrightarrow> length r \<le> length s"
proof -
  have "length (dropWhile is_digit (drop n (tl s))) \<le> length s" for n
    using length_dropWhile_le [of is_digit "drop n (tl s)"] by simp
  from this [of 0] this show "lex_frac s = Some (f, r) \<Longrightarrow> length r \<le> length s"
    "lex_exp s = Some (f, r) \<Longrightarrow> length r \<le> length s"
    by (auto simp: lex_frac_def lex_exp_def Let_def split: if_splits)
qed

lemma lex_number_shorter: "lex_number s = Some (x, r) \<Longrightarrow> length r < length s"
  by (auto simp: lex_number_def Let_def split: if_splits bind_splits
      dest!: lex_int_shorter lex_rest_shorter) arith

lemma next_token_shorter: "next_token s = Some (t, r) \<Longrightarrow> length r < length s"
  by (auto simp: next_token_def lex_word_def split: list.splits if_splits
      dest: unquote_shorter lex_number_shorter)

section \<open>The machine\<close>

text \<open>
  A frame is an array with its elements so far, an object with its members so far, or such an object
  with the key of the member that is being read. What may come next is a state of its own.
\<close>

datatype frame = Elems "jvalue list" | Members "(string \<times> jvalue) list" | Member "(string \<times> jvalue) list" string

datatype expect = ExpValue | ExpFirst | ExpKey | ExpFirstKey | ExpColon | ExpEnd

datatype outcome = Fail | Finished jvalue | Next expect "frame list"

definition max_depth :: nat where
  "max_depth = 10000"

fun complete :: "jvalue \<Rightarrow> frame list \<Rightarrow> outcome" where
  "complete v [] = Finished v"
| "complete v (Elems vs # st) = Next ExpEnd (Elems (vs @ [v]) # st)"
| "complete v (Member fs k # st) = Next ExpEnd (Members (fs @ [(k, v)]) # st)"
| "complete v (Members fs # st) = Fail"

definition push :: "expect \<Rightarrow> frame \<Rightarrow> frame list \<Rightarrow> outcome" where
  "push e f st = (if length st < max_depth then Next e (f # st) else Fail)"

fun value_step :: "token \<Rightarrow> frame list \<Rightarrow> outcome" where
  "value_step (Scalar v) st = complete v st"
| "value_step LBrack st = push ExpFirst (Elems []) st"
| "value_step LBrace st = push ExpFirstKey (Members []) st"
| "value_step _ st = Fail"

fun key_step :: "token \<Rightarrow> frame list \<Rightarrow> outcome" where
  "key_step (Scalar (VStr k)) (Members fs # st) = Next ExpColon (Member fs k # st)"
| "key_step _ _ = Fail"

fun step :: "expect \<Rightarrow> token \<Rightarrow> frame list \<Rightarrow> outcome" where
  "step ExpValue t st = value_step t st"
| "step ExpFirst RBrack (Elems vs # st) = complete (VArr vs) st"
| "step ExpFirst t st = value_step t st"
| "step ExpKey t st = key_step t st"
| "step ExpFirstKey RBrace (Members fs # st) = complete (VObj fs) st"
| "step ExpFirstKey t st = key_step t st"
| "step ExpColon Colon st = Next ExpValue st"
| "step ExpEnd Comma (Elems vs # st) = Next ExpValue (Elems vs # st)"
| "step ExpEnd RBrack (Elems vs # st) = complete (VArr vs) st"
| "step ExpEnd Comma (Members fs # st) = Next ExpKey (Members fs # st)"
| "step ExpEnd RBrace (Members fs # st) = complete (VObj fs) st"
| "step _ _ _ = Fail"

function run :: "expect \<Rightarrow> frame list \<Rightarrow> string \<Rightarrow> (jvalue \<times> string) option" where
  "run e st s =
     (case next_token (dropWhile ws s) of
        None \<Rightarrow> None
      | Some (t, r) \<Rightarrow>
          (case step e t st of
             Fail \<Rightarrow> None
           | Finished v \<Rightarrow> Some (v, r)
           | Next e' st' \<Rightarrow> run e' st' r))"
  by pat_completeness auto
termination
  by (relation "measure (\<lambda>(e, st, s). length s)")
     (auto dest!: next_token_shorter intro: less_le_trans [OF _ length_dropWhile_le])

declare run.simps [simp del]

text \<open>The first value of a text, and what follows it.\<close>

definition decode_value :: "string \<Rightarrow> (jvalue \<times> string) option" where
  "decode_value s = run ExpValue [] s"

section \<open>Writing documents\<close>

text \<open>\<open>nl d\<close> is what stands before an item at depth \<open>d\<close>, \<open>sp\<close> what stands after a colon.\<close>

fun intercalate :: "string \<Rightarrow> string list \<Rightarrow> string" where
  "intercalate sep [] = []"
| "intercalate sep [x] = x"
| "intercalate sep (x # y # ys) = x @ sep @ intercalate sep (y # ys)"

definition show_bool :: "bool \<Rightarrow> string" where
  "show_bool b = (if b then ''true'' else ''false'')"

fun doc_text :: "(nat \<Rightarrow> string) \<Rightarrow> string \<Rightarrow> nat \<Rightarrow> json \<Rightarrow> string" where
  "doc_text nl sp d (JStr s) = quote s"
| "doc_text nl sp d (JNum n) = show_int n"
| "doc_text nl sp d (JBool b) = show_bool b"
| "doc_text nl sp d (JArr xs) =
     (if xs = [] then ''[]''
      else ''['' @ nl (Suc d) @ intercalate ('','' @ nl (Suc d)) (map (doc_text nl sp (Suc d)) xs) @ nl d @ '']'')"
| "doc_text nl sp d (JObj fs) =
     (if fs = [] then ''{}''
      else ''{'' @ nl (Suc d) @
           intercalate ('','' @ nl (Suc d)) (map (\<lambda>(k, v). quote k @ '':'' @ sp @ doc_text nl sp (Suc d) v) fs) @
           nl d @ ''}'')"

definition newline :: string where
  "newline = [char_of (10 :: nat)]"

text \<open>\<open>json.NewEncoder(w).Encode(v)\<close>, without and with \<open>SetIndent("", "  ")\<close>.\<close>

definition compact :: "json \<Rightarrow> string" where
  "compact j = doc_text (\<lambda>_. []) [] 0 j @ newline"

definition indented :: "json \<Rightarrow> string" where
  "indented j = doc_text (\<lambda>d. newline @ concat (replicate d ''  '')) '' '' 0 j @ newline"

section \<open>Reading back a written document\<close>

text \<open>The value a document stands for, and the documents the machine can hold.\<close>

fun jvalue_of :: "json \<Rightarrow> jvalue" where
  "jvalue_of (JStr s) = VStr s"
| "jvalue_of (JNum n) = VNum (show_int n)"
| "jvalue_of (JBool b) = VBool b"
| "jvalue_of (JArr xs) = VArr (map jvalue_of xs)"
| "jvalue_of (JObj fs) = VObj (map (\<lambda>(k, v). (k, jvalue_of v)) fs)"

fun wf_doc :: "nat \<Rightarrow> json \<Rightarrow> bool" where
  "wf_doc d (JStr s) \<longleftrightarrow> valid_utf8 s"
| "wf_doc d (JNum n) \<longleftrightarrow> True"
| "wf_doc d (JBool b) \<longleftrightarrow> True"
| "wf_doc d (JArr xs) \<longleftrightarrow> d < max_depth \<and> (\<forall>x \<in> set xs. wf_doc (Suc d) x)"
| "wf_doc d (JObj fs) \<longleftrightarrow> d < max_depth \<and> (\<forall>(k, v) \<in> set fs. valid_utf8 k \<and> wf_doc (Suc d) v)"

definition resume :: "outcome \<Rightarrow> string \<Rightarrow> (jvalue \<times> string) option" where
  "resume out r =
     (case out of Fail \<Rightarrow> None | Finished v \<Rightarrow> Some (v, r) | Next e st \<Rightarrow> run e st r)"

lemma resume_simps [simp]:
  "resume Fail r = None" "resume (Finished v) r = Some (v, r)" "resume (Next e st) r = run e st r"
  by (simp_all add: resume_def)

lemma run_token:
  assumes "list_all ws w" and "s \<noteq> []" and "\<not> ws (hd s)" and "next_token s = Some (t, r)"
  shows "run e st (w @ s) = resume (step e t st) r"
proof -
  have "dropWhile ws (w @ s) = s"
    using assms(1-3) by (induction w) (auto simp: neq_Nil_conv)
  with assms(4) show ?thesis by (subst run.simps) (simp add: resume_def)
qed

text \<open>The characters the machine looks at.\<close>

lemma code_chars [simp]:
  "code CHR ''{'' = 0x7b" "code CHR ''}'' = 0x7d" "code CHR ''['' = 0x5b" "code CHR '']'' = 0x5d"
  "code CHR '','' = 0x2c" "code CHR '':'' = 0x3a" "code CHR 0x22 = 0x22" "code CHR ''n'' = 0x6e"
  "code CHR ''t'' = 0x74" "code CHR ''f'' = 0x66" "code CHR ''-'' = 0x2d" "code CHR ''.'' = 0x2e"
  "code CHR ''e'' = 0x65" "code CHR ''E'' = 0x45" "code CHR ''0'' = 0x30" "code CHR 0x5C = 0x5c"
  by (simp_all add: code_def)

definition delim :: "string \<Rightarrow> bool" where
  "delim r \<longleftrightarrow> r = [] \<or> \<not> is_digit (hd r) \<and> hd r \<notin> {CHR ''.'', CHR ''e'', CHR ''E''}"

lemma delim_chars: "delim (CHR '','' # r)" "delim (CHR '']'' # r)" "delim (CHR ''}'' # r)"
  by (simp_all add: delim_def is_digit_def)

lemma delim_ws: "list_all ws w \<Longrightarrow> delim r \<Longrightarrow> delim (w @ r)"
  by (cases w) (auto simp: delim_def ws_def is_digit_def)

lemma delim_newline: "delim newline"
  by (simp add: delim_def newline_def is_digit_def code_inject [symmetric])

lemma takeWhile_delim:
  assumes "list_all is_digit ds" and "delim r"
  shows "takeWhile is_digit (ds @ r) = ds" "dropWhile is_digit (ds @ r) = r"
  using assms by (induction ds) (cases r; simp add: delim_def)+

lemma lex_end: "delim r \<Longrightarrow> lex_frac r = Some ([], r)" "delim r \<Longrightarrow> lex_exp r = Some ([], r)"
  by (auto simp: delim_def lex_frac_def lex_exp_def)

lemma lex_int_show:
  assumes "delim r"
  shows "lex_int (show_nat n @ r) = Some (show_nat n, r)"
proof (cases "n = 0")
  case True
  then show ?thesis by (simp add: show_nat_zero lex_int_def)
next
  case False
  obtain c ds where c: "show_nat n = c # ds" using show_nat_nonempty [of n] by (cases "show_nat n") auto
  have "is_digit c" "c \<noteq> CHR ''0''"
    using show_nat_digits [of n] show_nat_head [of n] False by (simp_all add: c)
  then show ?thesis
    using takeWhile_delim [OF show_nat_digits [of n] assms] by (simp add: lex_int_def c)
qed

lemma lex_show_int:
  assumes "delim r"
  shows "lex_number (show_int n @ r) = Some (show_int n, r)"
proof -
  have "hd (show_nat m @ r) \<noteq> CHR ''-''" for m
    using show_nat_digits [of m] show_nat_nonempty [of m] minus_no_digit by (cases "show_nat m") auto
  then show ?thesis
    using lex_int_show [OF assms] lex_end [OF assms]
    by (auto simp: lex_number_def show_int_def show_nat_nonempty Let_def)
qed

lemma show_int_head: "\<exists>c t. show_int n = c # t \<and> (is_digit c \<or> c = CHR ''-'')"
  using show_nat_digits [of "nat n"] show_nat_nonempty [of "nat n"]
  by (cases "show_nat (nat n)") (auto simp: show_int_def)

text \<open>The first tokens of scalars.\<close>

lemma quote_token: "valid_utf8 s \<Longrightarrow> next_token (quote s @ r) = Some (Scalar (VStr s), r)"
  using unquote_quote [of s r] by (simp add: quote_def next_token_def)

lemma number_start:
  "is_digit c \<or> c = CHR ''-'' \<Longrightarrow>
     c \<notin> {CHR ''{'', CHR ''}'', CHR ''['', CHR '']'', CHR '','', CHR '':'', CHR 0x22, CHR ''n'', CHR ''t'', CHR ''f''} \<and> \<not> ws c"
  by (auto simp: is_digit_def ws_def)

lemma int_token:
  assumes "delim r"
  shows "next_token (show_int n @ r) = Some (Scalar (VNum (show_int n)), r)"
proof -
  obtain c t where c: "show_int n = c # t" "is_digit c \<or> c = CHR ''-''" using show_int_head by blast
  from number_start [OF c(2)] have
    "next_token (c # t @ r) = map_option (\<lambda>(x, u). (Scalar (VNum x), u)) (lex_number (c # t @ r))"
    by (simp add: next_token_def)
  with lex_show_int [OF assms, of n] show ?thesis by (simp add: c(1))
qed

lemma bool_token: "next_token (show_bool b @ r) = Some (Scalar (VBool b), r)"
  by (simp add: show_bool_def next_token_def lex_word_def)

text \<open>What a layout promises: nothing but white space. Both layouts are read back the same way.\<close>

locale layout =
  fixes nl :: "nat \<Rightarrow> string" and sp :: string
  assumes nl_ws: "list_all ws (nl d)" and sp_ws: "list_all ws sp"
begin

lemma text_head: "\<exists>c t. doc_text nl sp d j = c # t \<and> \<not> ws c \<and> c \<noteq> CHR '']''"
proof (cases j)
  case (JNum n)
  obtain c t where c: "show_int n = c # t" "is_digit c \<or> c = CHR ''-''" using show_int_head by blast
  from number_start [OF c(2)] show ?thesis by (simp add: JNum c(1))
next
  case (JBool b)
  then show ?thesis by (cases b) (simp_all add: show_bool_def ws_def)
qed (auto simp: quote_def ws_def)

lemma run_first:
  assumes "list_all ws w"
  shows "run ExpFirst (Elems vs # st) (w @ doc_text nl sp d j @ r) = run ExpValue (Elems vs # st) (w @ doc_text nl sp d j @ r)"
proof -
  obtain c t where c: "doc_text nl sp d j = c # t" "\<not> ws c" "c \<noteq> CHR '']''" using text_head by blast
  have "dropWhile ws (w @ c # t @ r) = c # t @ r" using assms c(2) by (induction w) auto
  moreover have "tk \<noteq> RBrack" if "next_token (c # t @ r) = Some (tk, u)" for tk u
    using that c(3) by (auto simp: next_token_def lex_word_def split: if_splits)
  then have "step ExpFirst tk (Elems vs # st) = step ExpValue tk (Elems vs # st)"
    if "next_token (c # t @ r) = Some (tk, u)" for tk u
    using that by (cases tk) auto
  ultimately show ?thesis
    by (subst (1 2) run.simps) (auto simp: c(1) split: option.splits)
qed

text \<open>What the machine does on a value, to be shown for all documents.\<close>

definition reads :: "nat \<Rightarrow> json \<Rightarrow> bool" where
  "reads d j \<longleftrightarrow> (\<forall>w st r. list_all ws w \<longrightarrow> length st = d \<longrightarrow> delim r \<longrightarrow>
     run ExpValue st (w @ doc_text nl sp d j @ r) = resume (complete (jvalue_of j) st) r)"

lemma readsD:
  "reads d j \<Longrightarrow> list_all ws w \<Longrightarrow> length st = d \<Longrightarrow> delim r \<Longrightarrow>
     run ExpValue st (w @ doc_text nl sp d j @ r) = resume (complete (jvalue_of j) st) r"
  by (simp add: reads_def)

lemma scalar_reads:
  assumes "\<And>r. delim r \<Longrightarrow> next_token (doc_text nl sp d j @ r) = Some (Scalar (jvalue_of j), r)"
  shows "reads d j"
  unfolding reads_def
proof (intro allI impI)
  fix w and st :: "frame list" and r
  assume w: "list_all ws w" and d: "delim r"
  obtain c t where c: "doc_text nl sp d j = c # t" "\<not> ws c" using text_head by blast
  have "run ExpValue st (w @ (doc_text nl sp d j @ r)) = resume (step ExpValue (Scalar (jvalue_of j)) st) r"
    by (rule run_token [OF w _ _ assms [OF d]]) (simp_all add: c)
  then show "run ExpValue st (w @ doc_text nl sp d j @ r) = resume (complete (jvalue_of j) st) r" by simp
qed

text \<open>The items after the first one, each with the comma before it.\<close>

lemma intercalate_Cons: "intercalate sep (x # xs) = x @ concat (map (\<lambda>y. sep @ y) xs)"
proof (induction xs arbitrary: x)
  case (Cons y ys)
  then show ?case by (cases ys) simp_all
qed simp

lemma punctuation:
  "next_token (CHR '','' # r) = Some (Comma, r)" "next_token (CHR '':'' # r) = Some (Colon, r)"
  "next_token (CHR '']'' # r) = Some (RBrack, r)" "next_token (CHR ''}'' # r) = Some (RBrace, r)"
  "next_token (CHR ''['' # r) = Some (LBrack, r)" "next_token (CHR ''{'' # r) = Some (LBrace, r)"
  by (simp_all add: next_token_def)

lemma run_punctuation:
  assumes "list_all ws w"
  shows "run e st (w @ CHR '','' # r) = resume (step e Comma st) r"
    and "run e st (w @ CHR '':'' # r) = resume (step e Colon st) r"
    and "run e st (w @ CHR '']'' # r) = resume (step e RBrack st) r"
    and "run e st (w @ CHR ''}'' # r) = resume (step e RBrace st) r"
    and "run e st (w @ CHR ''['' # r) = resume (step e LBrack st) r"
    and "run e st (w @ CHR ''{'' # r) = resume (step e LBrace st) r"
  by (rule run_token [OF assms]; simp add: ws_def punctuation)+

lemma run_elements:
  assumes "\<forall>x \<in> set xs. reads (Suc d) x" and "length st = d"
  shows "run ExpEnd (Elems vs # st)
      (concat (map (\<lambda>x. CHR '','' # nl (Suc d) @ doc_text nl sp (Suc d) x) xs) @ nl d @ CHR '']'' # r) =
    resume (complete (VArr (vs @ map jvalue_of xs)) st) r"
  using assms(1)
proof (induction xs arbitrary: vs)
  case Nil
  then show ?case by (simp add: run_punctuation [OF nl_ws])
next
  case (Cons x xs)
  let ?rest = "concat (map (\<lambda>x. CHR '','' # nl (Suc d) @ doc_text nl sp (Suc d) x) xs) @ nl d @ CHR '']'' # r"
  have "delim ?rest" by (cases xs) (simp_all add: delim_chars delim_ws [OF nl_ws])
  then have "run ExpValue (Elems vs # st) (nl (Suc d) @ doc_text nl sp (Suc d) x @ ?rest) =
      run ExpEnd (Elems (vs @ [jvalue_of x]) # st) ?rest"
    using readsD [of "Suc d" x "nl (Suc d)" "Elems vs # st" ?rest] Cons.prems assms(2) nl_ws by simp
  with Cons show ?case using run_punctuation(1) [of "[]"] by simp
qed

lemma array_reads:
  assumes "\<forall>x \<in> set xs. reads (Suc d) x" and "d < max_depth"
  shows "reads d (JArr xs)"
  unfolding reads_def
proof (intro allI impI)
  fix w and st :: "frame list" and r
  assume w: "list_all ws w" and l: "length st = d" and dr: "delim r"
  have push: "push ExpFirst (Elems []) st = Next ExpFirst (Elems [] # st)"
    using assms(2) l by (simp add: push_def)
  show "run ExpValue st (w @ doc_text nl sp d (JArr xs) @ r) = resume (complete (jvalue_of (JArr xs)) st) r"
  proof (cases xs)
    case Nil
    then show ?thesis
      using run_punctuation(3) [of "[]" ExpFirst "Elems [] # st" r] by (simp add: run_punctuation [OF w] push)
  next
    case (Cons x xs')
    let ?rest = "concat (map (\<lambda>x. CHR '','' # nl (Suc d) @ doc_text nl sp (Suc d) x) xs') @ nl d @ CHR '']'' # r"
    have "delim ?rest" by (cases xs') (simp_all add: delim_chars delim_ws [OF nl_ws])
    then have "run ExpFirst (Elems [] # st) (nl (Suc d) @ doc_text nl sp (Suc d) x @ ?rest) =
        run ExpEnd (Elems [jvalue_of x] # st) ?rest"
      using readsD [of "Suc d" x "nl (Suc d)" "Elems [] # st" ?rest] assms(1) l nl_ws Cons by (simp add: run_first)
    moreover have "run ExpEnd (Elems [jvalue_of x] # st) ?rest = resume (complete (VArr (map jvalue_of xs)) st) r"
      using run_elements [of xs' d st "[jvalue_of x]" r] assms(1) l Cons by simp
    ultimately show ?thesis
      using Cons by (simp add: run_punctuation [OF w] push intercalate_Cons comp_def)
  qed
qed

text \<open>A member: its key, the colon, its value.\<close>

definition member_text :: "nat \<Rightarrow> string \<times> json \<Rightarrow> string" where
  "member_text d kv = quote (fst kv) @ '':'' @ sp @ doc_text nl sp d (snd kv)"

lemma run_member:
  assumes "e = ExpKey \<or> e = ExpFirstKey" and "valid_utf8 (fst kv)" and "reads (Suc d) (snd kv)" and "list_all ws w"
    and "length st = d" and "delim r"
  shows "run e (Members fs # st) (w @ member_text (Suc d) kv @ r) =
    run ExpEnd (Members (fs @ [(fst kv, jvalue_of (snd kv))]) # st) r"
proof -
  let ?v = "sp @ doc_text nl sp (Suc d) (snd kv) @ r"
  have "run e (Members fs # st) (w @ (quote (fst kv) @ CHR '':'' # ?v)) =
      resume (step e (Scalar (VStr (fst kv))) (Members fs # st)) (CHR '':'' # ?v)"
    by (rule run_token [OF assms(4) _ _ quote_token [OF assms(2)]]) (simp_all add: quote_def ws_def)
  also have "\<dots> = run ExpColon (Member fs (fst kv) # st) (CHR '':'' # ?v)"
    using assms(1) by auto
  also have "\<dots> = run ExpValue (Member fs (fst kv) # st) ?v"
    using run_punctuation(2) [of "[]" ExpColon "Member fs (fst kv) # st" ?v] by simp
  also have "\<dots> = run ExpEnd (Members (fs @ [(fst kv, jvalue_of (snd kv))]) # st) r"
    using readsD [OF assms(3) sp_ws _ assms(6), of "Member fs (fst kv) # st"] assms(5) by simp
  finally show ?thesis by (simp add: member_text_def)
qed

lemma run_members:
  assumes "\<forall>kv \<in> set fs. valid_utf8 (fst kv) \<and> reads (Suc d) (snd kv)" and "length st = d"
  shows "run ExpEnd (Members ms # st)
      (concat (map (\<lambda>kv. CHR '','' # nl (Suc d) @ member_text (Suc d) kv) fs) @ nl d @ CHR ''}'' # r) =
    resume (complete (VObj (ms @ map (\<lambda>kv. (fst kv, jvalue_of (snd kv))) fs)) st) r"
  using assms(1)
proof (induction fs arbitrary: ms)
  case Nil
  then show ?case by (simp add: run_punctuation [OF nl_ws])
next
  case (Cons kv fs)
  let ?rest = "concat (map (\<lambda>kv. CHR '','' # nl (Suc d) @ member_text (Suc d) kv) fs) @ nl d @ CHR ''}'' # r"
  have "delim ?rest" by (cases fs) (simp_all add: delim_chars delim_ws [OF nl_ws])
  then have "run ExpKey (Members ms # st) (nl (Suc d) @ member_text (Suc d) kv @ ?rest) =
      run ExpEnd (Members (ms @ [(fst kv, jvalue_of (snd kv))]) # st) ?rest"
    using Cons.prems assms(2) by (intro run_member nl_ws) simp_all
  with Cons show ?case using run_punctuation(1) [of "[]"] by simp
qed

lemma object_reads:
  assumes "\<forall>kv \<in> set fs. valid_utf8 (fst kv) \<and> reads (Suc d) (snd kv)" and "d < max_depth"
  shows "reads d (JObj fs)"
  unfolding reads_def
proof (intro allI impI)
  fix w and st :: "frame list" and r
  assume w: "list_all ws w" and l: "length st = d" and dr: "delim r"
  have push: "push ExpFirstKey (Members []) st = Next ExpFirstKey (Members [] # st)"
    using assms(2) l by (simp add: push_def)
  have mt: "(\<lambda>(k, v). quote k @ '':'' @ sp @ doc_text nl sp (Suc d) v) = member_text (Suc d)"
    by (auto simp: fun_eq_iff member_text_def)
  have jv: "map (\<lambda>(k, v). (k, jvalue_of v)) fs = map (\<lambda>kv. (fst kv, jvalue_of (snd kv))) fs"
    by (simp add: case_prod_beta)
  show "run ExpValue st (w @ doc_text nl sp d (JObj fs) @ r) = resume (complete (jvalue_of (JObj fs)) st) r"
  proof (cases fs)
    case Nil
    then show ?thesis
      using run_punctuation(4) [of "[]" ExpFirstKey "Members [] # st" r] by (simp add: run_punctuation [OF w] push)
  next
    case (Cons kv fs')
    let ?rest = "concat (map (\<lambda>kv. CHR '','' # nl (Suc d) @ member_text (Suc d) kv) fs') @ nl d @ CHR ''}'' # r"
    have "delim ?rest" by (cases fs') (simp_all add: delim_chars delim_ws [OF nl_ws])
    then have "run ExpFirstKey (Members [] # st) (nl (Suc d) @ member_text (Suc d) kv @ ?rest) =
        run ExpEnd (Members [(fst kv, jvalue_of (snd kv))] # st) ?rest"
      using run_member [of ExpFirstKey kv d "nl (Suc d)" st ?rest "[]"] assms(1) l nl_ws Cons by simp
    moreover have "\<dots> = resume (complete (VObj (map (\<lambda>kv. (fst kv, jvalue_of (snd kv))) fs)) st) r"
      using run_members [of fs' d st "[(fst kv, jvalue_of (snd kv))]" r] assms(1) l Cons by simp
    moreover have "doc_text nl sp d (JObj fs) @ r = CHR ''{'' # nl (Suc d) @ member_text (Suc d) kv @ ?rest"
      using Cons by (simp only: doc_text.simps mt) (simp add: intercalate_Cons comp_def)
    ultimately show ?thesis
      by (simp add: run_punctuation [OF w] push jv del: doc_text.simps)
  qed
qed

lemma all_read: "wf_doc d j \<Longrightarrow> reads d j"
proof (induction d j rule: wf_doc.induct)
  case (1 d s)
  then show ?case by (intro scalar_reads) (simp add: quote_token)
next
  case (2 d n)
  show ?case by (intro scalar_reads) (simp add: int_token)
next
  case (3 d b)
  show ?case by (intro scalar_reads) (simp add: bool_token)
next
  case (4 d xs)
  then show ?case by (intro array_reads) simp_all
next
  case (5 d fs)
  then show ?case by (intro object_reads) fastforce+
qed

lemma decode_text:
  assumes "wf_doc 0 j" and "delim r"
  shows "decode_value (doc_text nl sp 0 j @ r) = Some (jvalue_of j, r)"
  using readsD [OF all_read [OF assms(1)], of "[]" "[]" r] assms(2) by (simp add: decode_value_def)

end

interpretation compact_layout: layout "\<lambda>_. []" "[]"
  by unfold_locales simp_all

interpretation indented_layout: layout "\<lambda>d. newline @ concat (replicate d ''  '')" "'' ''"
proof
  show "list_all ws '' ''" by (simp add: ws_def code_def)
  have "list_all ws (concat (replicate d ''  ''))" for d by (induction d) (simp_all add: ws_def code_def)
  then show "list_all ws (newline @ concat (replicate d ''  ''))" for d
    by (simp add: newline_def ws_def)
qed

text \<open>Both written forms of a document are read back as its value, and all of the text is read.\<close>

lemma decode_compact: "wf_doc 0 j \<Longrightarrow> decode_value (compact j) = Some (jvalue_of j, newline)"
  unfolding compact_def by (rule compact_layout.decode_text [OF _ delim_newline])

lemma decode_indented: "wf_doc 0 j \<Longrightarrow> decode_value (indented j) = Some (jvalue_of j, newline)"
  unfolding indented_def by (rule indented_layout.decode_text [OF _ delim_newline])

end
