(* ===== verification/Wire.thy ===== *)
theory Wire
  imports JsonText
begin

text \<open>
  What the service and the console tool exchange as text: the published result, whose text is shown
  to be lossless, and the request of the service, decoded from its body as \<open>encoding/json\<close> decodes
  into the struct \<open>scanRequest\<close> of cmd/headerforge-tls/main.go.
\<close>

section \<open>The text of a result\<close>

text \<open>Back from values to documents: integer literals only.\<close>

fun json_of :: "jvalue \<Rightarrow> json option" where
  "json_of VNull = None"
| "json_of (VStr s) = Some (JStr s)"
| "json_of (VNum s) = map_option JNum (parse_int64 s)"
| "json_of (VBool b) = Some (JBool b)"
| "json_of (VArr vs) = map_option JArr (those (map json_of vs))"
| "json_of (VObj fs) = map_option JObj (those (map (\<lambda>(k, v). map_option (Pair k) (json_of v)) fs))"

fun ints_ok :: "json \<Rightarrow> bool" where
  "ints_ok (JNum n) \<longleftrightarrow> int64 n"
| "ints_ok (JArr xs) \<longleftrightarrow> (\<forall>x \<in> set xs. ints_ok x)"
| "ints_ok (JObj fs) \<longleftrightarrow> (\<forall>(k, v) \<in> set fs. ints_ok v)"
| "ints_ok _ \<longleftrightarrow> True"

lemma those_map_eq: "(\<And>x. x \<in> set xs \<Longrightarrow> f x = Some (g x)) \<Longrightarrow> those (map f xs) = Some (map g xs)"
  by (induction xs) simp_all

lemma json_of_value: "ints_ok j \<Longrightarrow> json_of (jvalue_of j) = Some j"
proof (induction j rule: ints_ok.induct)
  case (1 n)
  then show ?case by (simp add: parse_show_int int64_def)
next
  case (2 xs)
  then have "those (map (\<lambda>x. json_of (jvalue_of x)) xs) = Some (map id xs)"
    by (intro those_map_eq) simp_all
  then show ?case by (simp add: comp_def)
next
  case (3 fs)
  have "those (map (\<lambda>x. case x of (k, v) \<Rightarrow> map_option (Pair k) (json_of (jvalue_of v))) fs) = Some (map id fs)"
    by (rule those_map_eq) (use 3 in fastforce)
  then show ?case by (simp add: comp_def case_prod_beta)
qed simp_all

text \<open>The reader of a text: its first value, as a result.\<close>

definition read_text :: "(string \<Rightarrow> int option) \<Rightarrow> string \<Rightarrow> result option" where
  "read_text parse s = do { (v, rest) \<leftarrow> decode_value s; j \<leftarrow> json_of v; read_result parse j }"

text \<open>A result whose strings are UTF-8 and whose numbers are Go integers.\<close>

definition text_ok :: "result \<Rightarrow> bool" where
  "text_ok r \<longleftrightarrow>
     (\<forall>s \<in> {r_Host r, r_RulesetVersion r, Subject (r_Certificate r), Issuer (r_Certificate r),
            KeyType (r_Certificate r), SignatureAlgo (r_Certificate r)}
        \<union> set (r_GradeCaps r) \<union> set (r_Errors r) \<union> set (ALPN (r_Protocols r)) \<union> set (SANs (r_Certificate r))
        \<union> set (Strong (r_Ciphers r)) \<union> set (Weak (r_Ciphers r)) \<union> set (Insecure (r_Ciphers r)). valid_utf8 s) \<and>
     (\<forall>i \<in> {r_Port r, r_ScanDurationMs r, DaysToExpiry (r_Certificate r), KeyBits (r_Certificate r),
            ProtocolScore (r_Rating r), KeyExchangeScore (r_Rating r), CipherScore (r_Rating r), Numeric (r_Rating r)}.
        int64 i)"

lemma ascii_valid: "list_all (\<lambda>c. code c < 0x80) s \<Longrightarrow> valid_utf8 s"
proof (induction s)
  case (Cons c s)
  then show ?case by (subst valid_utf8.simps) simp
qed simp

lemma valid_literal: "list_all (\<lambda>c. of_char c < (0x80 :: nat)) s \<Longrightarrow> valid_utf8 s"
  by (rule ascii_valid) (simp add: code_def)

lemma grade_valid: "valid_utf8 (grade_string g)"
  by (cases g) (simp_all add: valid_literal)

lemma strings_wf: "d < max_depth \<Longrightarrow> \<forall>s \<in> set xs. valid_utf8 s \<Longrightarrow> wf_doc d (strings_json xs)"
  by (simp add: strings_json_def)

lemma strings_ints: "ints_ok (strings_json xs)"
  by (simp add: strings_json_def)

lemma omitempty_ok:
  "d < max_depth \<Longrightarrow> valid_utf8 name \<Longrightarrow> \<forall>s \<in> set xs. valid_utf8 s \<Longrightarrow>
     (k, v) \<in> set (omitempty name xs) \<Longrightarrow> valid_utf8 k \<and> wf_doc d v \<and> ints_ok v"
  by (auto simp: omitempty_def strings_wf strings_ints split: if_splits)

lemma object_wf:
  "wf_doc d (JObj fs) \<longleftrightarrow> d < max_depth \<and> list_all (\<lambda>kv. valid_utf8 (fst kv) \<and> wf_doc (Suc d) (snd kv)) fs"
  "ints_ok (JObj fs) \<longleftrightarrow> list_all (\<lambda>kv. ints_ok (snd kv)) fs"
  by (auto simp: list_all_iff)

lemma omitempty_all:
  "list_all (\<lambda>kv. valid_utf8 (fst kv) \<and> wf_doc d (snd kv)) (omitempty name xs) \<longleftrightarrow>
     xs = [] \<or> valid_utf8 name \<and> wf_doc d (strings_json xs)"
  "list_all (\<lambda>kv. ints_ok (snd kv)) (omitempty name xs)"
  by (auto simp: omitempty_def strings_ints)

lemmas doc_rules = object_wf omitempty_all strings_wf strings_ints valid_literal max_depth_def

lemma parts_wf:
  "wf_doc (Suc 0) (vulnerabilities_json v)" "wf_doc (Suc 0) (rating_json b)"
  "\<forall>s \<in> set (ALPN p). valid_utf8 s \<Longrightarrow> wf_doc (Suc 0) (protocols_json p)"
  "\<forall>s \<in> set (Strong c) \<union> set (Weak c) \<union> set (Insecure c). valid_utf8 s \<Longrightarrow> wf_doc (Suc 0) (ciphers_json c)"
  by (simp_all only: vulnerabilities_json_def rating_json_def protocols_json_def ciphers_json_def)
     (simp_all add: doc_rules del: wf_doc.simps(5))

lemma certificate_wf:
  assumes "\<forall>s \<in> {Subject c, Issuer c, KeyType c, SignatureAlgo c} \<union> set (SANs c). valid_utf8 s"
    and "\<And>t. valid_utf8 (fmt t)"
  shows "wf_doc (Suc 0) (certificate_json fmt c)"
  using assms by (simp only: certificate_json_def) (simp add: doc_rules del: wf_doc.simps(5))

lemma parts_ints:
  "ints_ok (vulnerabilities_json v)" "ints_ok (protocols_json p)" "ints_ok (ciphers_json c)"
  "int64 (ProtocolScore b) \<Longrightarrow> int64 (KeyExchangeScore b) \<Longrightarrow> int64 (CipherScore b) \<Longrightarrow> int64 (Numeric b) \<Longrightarrow>
     ints_ok (rating_json b)"
  "int64 (DaysToExpiry ce) \<Longrightarrow> int64 (KeyBits ce) \<Longrightarrow> ints_ok (certificate_json fmt ce)"
  by (simp_all only: vulnerabilities_json_def rating_json_def protocols_json_def ciphers_json_def certificate_json_def)
     (simp_all add: doc_rules del: ints_ok.simps(3))

lemma result_doc:
  assumes "text_ok r" and "\<And>t. valid_utf8 (fmt t)"
  shows "wf_doc 0 (result_json fmt r)" and "ints_ok (result_json fmt r)"
proof -
  note t = assms(1) [unfolded text_ok_def]
  have g: "wf_doc d (grade_json g)" for d g by (cases g) (simp_all add: grade_json_def grade_valid)
  have p: "wf_doc (Suc 0) (protocols_json (r_Protocols r))" "wf_doc (Suc 0) (ciphers_json (r_Ciphers r))"
    "wf_doc (Suc 0) (certificate_json fmt (r_Certificate r))"
    using t by (auto intro!: parts_wf certificate_wf assms(2))
  show "wf_doc 0 (result_json fmt r)"
    using t p by (simp only: result_json_def) (simp add: doc_rules g parts_wf del: wf_doc.simps(5))
  have "ints_ok (grade_json g)" for g by (simp add: grade_json_def)
  then show "ints_ok (result_json fmt r)"
    using t by (simp only: result_json_def) (simp add: doc_rules parts_ints del: ints_ok.simps(3))
qed

lemma result_text_read:
  assumes "text_ok r" and "\<And>t. valid_utf8 (fmt t)" and "\<And>t. parse (fmt t) = Some t"
  shows "read_text parse (compact (result_json fmt r)) = Some r \<and>
    read_text parse (indented (result_json fmt r)) = Some r"
  using result_doc [of r fmt, OF assms(1,2)] result_json_read [of parse fmt r, OF assms(3)]
  by (simp add: read_text_def decode_compact decode_indented json_of_value)

text \<open>
  C40. The published text is lossless, in the compact form of the service and in the indented form of
  the console tool: from its characters, escapes included, a reader gets back every field of the
  result. It is assumed that the strings are UTF-8, the numbers Go integers, and that the text of an
  instant determines it.
\<close>

theorem result_text_round_trip:
  assumes "text_ok r" and "\<And>t. valid_utf8 (fmt t)" and "\<And>t. parse (fmt t) = Some t"
  shows "read_text parse (compact (result_json fmt r)) = Some r \<and>
    read_text parse (indented (result_json fmt r)) = Some r"
  using assms by (rule result_text_read)

text \<open>A result with characters that must be escaped and bytes beyond ASCII.\<close>

definition demo_result :: result where
  "demo_result = \<lparr>r_Host = ''example.com'', r_Port = 443, r_Grade = Some GradeB, r_GradeCaps = [''no-forward-secrecy''],
     r_Protocols = no_protocols\<lparr>TLS12 := True\<rparr>,
     r_Certificate = no_certificate\<lparr>Subject := ''O=a<b&'' @ [CHR 0x5C, CHR 0x22, CHR 0x0A] @ map char_of [0xc3, 0xb1 :: nat],
       NotAfter := 7, DaysToExpiry := - 3\<rparr>,
     r_Ciphers = no_ciphers, r_ForwardSecrecy = False, r_Vulnerabilities = no_vulnerabilities,
     r_Rating = no_rating\<lparr>Numeric := 46\<rparr>, r_ScanDurationMs = 12, r_RulesetVersion = [], r_Errors = []\<rparr>"

lemma demo_subject: "valid_utf8 (''O=a<b&'' @ [CHR 0x5C, CHR 0x22, CHR 0x0A] @ map char_of [0xc3, 0xb1 :: nat])"
  by code_simp

theorem result_text_round_trip_witness:
  "read_text read_unary (compact (result_json unary demo_result)) = Some demo_result \<and>
   read_text read_unary (indented (result_json unary demo_result)) = Some demo_result"
proof -
  have "text_ok demo_result"
    using demo_subject
    by (simp add: text_ok_def demo_result_def valid_literal no_protocols_def no_certificate_def no_ciphers_def
        no_rating_def int64_def)
  moreover have "valid_utf8 (unary t)" for t
    by (rule valid_literal) (simp add: unary_def list_all_iff)
  moreover have "read_unary (unary t) = Some t" for t by (simp add: unary_def read_unary_def)
  ultimately show ?thesis using result_text_round_trip [of demo_result unary read_unary] by blast
qed

section \<open>The request\<close>

text \<open>The struct \<open>scanRequest\<close>.\<close>

record scanRequest =
  rq_host :: string
  rq_port :: int
  rq_timeout_ms :: int
  rq_check_vulns :: bool

definition zero_request :: scanRequest where
  "zero_request = \<lparr>rq_host = [], rq_port = 0, rq_timeout_ms = 0, rq_check_vulns = False\<rparr>"

text \<open>
  Keys are matched without regard to case, as Unicode folds it: besides ASCII letters, U+017F is an s
  and U+212A a k.
\<close>

definition upper :: "char \<Rightarrow> char" where
  "upper c = (if 97 \<le> code c \<and> code c \<le> 122 then char_of (code c - 32) else c)"

fun fold_key :: "string \<Rightarrow> string" where
  "fold_key [] = []"
| "fold_key (c # s) =
     (if code c = 0xc5 \<and> map code (take 1 s) = [0xbf] then CHR ''S'' # fold_key (drop 1 s)
      else if code c = 0xe2 \<and> map code (take 2 s) = [0x84, 0xaa] then CHR ''K'' # fold_key (drop 2 s)
      else upper c # fold_key s)"

text \<open>
  One member of the object: an unknown key is ignored, \<open>null\<close> leaves the field as it is, and a value
  of another type, or a number that is no \<open>int\<close>, is an error.
\<close>

definition set_field :: "string \<times> jvalue \<Rightarrow> scanRequest \<Rightarrow> scanRequest option" where
  "set_field kv req =
     (let k = fold_key (fst kv); v = snd kv
      in if v = VNull then Some req
         else if k = fold_key ''host'' then (case v of VStr s \<Rightarrow> Some (req\<lparr>rq_host := s\<rparr>) | _ \<Rightarrow> None)
         else if k = fold_key ''port''
         then (case v of VNum s \<Rightarrow> map_option (\<lambda>n. req\<lparr>rq_port := n\<rparr>) (parse_int64 s) | _ \<Rightarrow> None)
         else if k = fold_key ''timeout_ms''
         then (case v of VNum s \<Rightarrow> map_option (\<lambda>n. req\<lparr>rq_timeout_ms := n\<rparr>) (parse_int64 s) | _ \<Rightarrow> None)
         else if k = fold_key ''check_vulns''
         then (case v of VBool b \<Rightarrow> Some (req\<lparr>rq_check_vulns := b\<rparr>) | _ \<Rightarrow> None)
         else Some req)"

fun set_fields :: "(string \<times> jvalue) list \<Rightarrow> scanRequest \<Rightarrow> scanRequest option" where
  "set_fields [] req = Some req"
| "set_fields (kv # fs) req = Option.bind (set_field kv req) (set_fields fs)"

text \<open>
  \<open>json.NewDecoder(r.Body).Decode(&req)\<close>; \<open>None\<close> is an error. After a type error the library goes on
  to the end of the object before it reports it, which no one can see.
\<close>

definition decode_request :: "string \<Rightarrow> scanRequest option" where
  "decode_request body =
     (case decode_value body of
        None \<Rightarrow> None
      | Some (VNull, rest) \<Rightarrow> Some zero_request
      | Some (VObj fs, rest) \<Rightarrow> set_fields fs zero_request
      | Some (v, rest) \<Rightarrow> None)"

text \<open>The document a client sends.\<close>

definition request_json :: "scanRequest \<Rightarrow> json" where
  "request_json req = JObj
     [(''host'', JStr (rq_host req)), (''port'', JNum (rq_port req)),
      (''timeout_ms'', JNum (rq_timeout_ms req)), (''check_vulns'', JBool (rq_check_vulns req))]"

lemma folded_keys:
  "fold_key ''host'' = ''HOST''" "fold_key ''port'' = ''PORT''" "fold_key ''timeout_ms'' = ''TIMEOUT_MS''"
  "fold_key ''check_vulns'' = ''CHECK_VULNS''"
  by code_simp+

lemma request_doc: "valid_utf8 (rq_host req) \<Longrightarrow> wf_doc 0 (request_json req)"
  by (simp only: request_json_def) (simp add: doc_rules del: wf_doc.simps(5))

lemma decode_request_json:
  assumes "valid_utf8 (rq_host req)" and "int64 (rq_port req)" and "int64 (rq_timeout_ms req)"
  shows "decode_request (compact (request_json req)) = Some req"
proof -
  have "set_fields [(''host'', VStr (rq_host req)), (''port'', VNum (show_int (rq_port req))),
      (''timeout_ms'', VNum (show_int (rq_timeout_ms req))), (''check_vulns'', VBool (rq_check_vulns req))]
      zero_request = Some req"
    using assms(2,3)
    by (simp add: set_field_def folded_keys parse_show_int int64_def zero_request_def Let_def del: fold_key.simps)
  then show ?thesis
    using decode_compact [OF request_doc [OF assms(1)]] by (simp add: decode_request_def request_json_def)
qed

text \<open>
  What the decoder accepts beyond that. A body without any of the four keys is a request for the
  empty host, whatever else it holds, and so is \<open>null\<close>.
\<close>

lemma unknown_keys:
  assumes "\<forall>(k, v) \<in> set fs. fold_key k \<notin> {''HOST'', ''PORT'', ''TIMEOUT_MS'', ''CHECK_VULNS''}"
  shows "set_fields fs req = Some req"
  using assms by (induction fs) (auto simp: set_field_def folded_keys Let_def simp del: fold_key.simps)

end
