(* ===== verification/Mux.thy ===== *)
theory Mux
  imports Decimal
begin

text \<open>
  Which handler a request reaches: the \<open>ServeMux\<close> of Go 1.22 (go.mod, Dockerfile) with the two patterns
  that cmd/headerforge-tls/main.go registers, \<open>/healthz\<close> and \<open>/v1/scan\<close>. Neither names a method or a host
  or ends in a slash. A path is the escaped path of the request's URL; the request target \<open>*\<close> counts as
  the path \<open>*\<close>.
\<close>

section \<open>Clean paths\<close>

fun split_on :: "char \<Rightarrow> string \<Rightarrow> string list" where
  "split_on c [] = [[]]"
| "split_on c (x # xs) =
     (if x = c then [] # split_on c xs
      else case split_on c xs of [] \<Rightarrow> [[x]] | s # ss \<Rightarrow> (x # s) # ss)"

text \<open>The elements of a rooted path, without empty and dot elements; a double dot drops the one before.\<close>

fun clean_elements :: "string list \<Rightarrow> string list \<Rightarrow> string list" where
  "clean_elements out [] = rev out"
| "clean_elements out (s # ss) =
     (if s = [] \<or> s = ''.'' then clean_elements out ss
      else if s = ''..'' then clean_elements (tl out) ss
      else clean_elements (s # out) ss)"

definition rooted :: "string list \<Rightarrow> string" where
  "rooted ss = (if ss = [] then ''/'' else concat (map ((#) CHR ''/'') ss))"

text \<open>\<open>path.Clean\<close> on a rooted path, and \<open>cleanPath\<close> of net/http, which keeps a trailing slash.\<close>

definition path_Clean :: "string \<Rightarrow> string" where
  "path_Clean p = rooted (clean_elements [] (split_on CHR ''/'' p))"

definition cleanPath :: "string \<Rightarrow> string" where
  "cleanPath p =
     (if p = [] then ''/''
      else let p = (if hd p \<noteq> CHR ''/'' then CHR ''/'' # p else p);
               np = path_Clean p
           in if last p = CHR ''/'' \<and> np \<noteq> ''/'' then np @ ''/'' else np)"

lemma split_on_nonempty [simp]: "split_on c s \<noteq> []"
  by (cases s) (auto split: list.splits)

lemma split_on_none: "c \<notin> set s \<Longrightarrow> split_on c s = [s]"
  by (induction s) auto

lemma split_on_append: "c \<notin> set s \<Longrightarrow> split_on c (s @ c # r) = s # split_on c r"
  by (induction s) auto

lemma split_on_parts: "s \<in> set (split_on c xs) \<Longrightarrow> c \<notin> set s"
proof (induction xs arbitrary: s)
  case (Cons x xs)
  obtain t ts where t: "split_on c xs = t # ts" by (cases "split_on c xs") auto
  with Cons show ?case by (auto split: if_splits)
qed simp

text \<open>Elements that cleaning leaves alone.\<close>

definition clean_element :: "string \<Rightarrow> bool" where
  "clean_element s \<longleftrightarrow> s \<noteq> [] \<and> s \<noteq> ''.'' \<and> s \<noteq> ''..'' \<and> CHR ''/'' \<notin> set s"

lemma clean_elements_clean:
  "list_all clean_element out \<Longrightarrow> list_all (\<lambda>s. CHR ''/'' \<notin> set s) ss \<Longrightarrow>
     list_all clean_element (clean_elements out ss)"
proof (induction ss arbitrary: out)
  case Nil
  then show ?case by (simp add: list_all_rev)
next
  case (Cons s ss)
  have "list_all clean_element (tl out)" using Cons.prems(1) by (cases out) simp_all
  moreover have "clean_element s" if "s \<noteq> []" "s \<noteq> ''.''" "s \<noteq> ''..''"
    using that Cons.prems(2) by (simp add: clean_element_def)
  ultimately show ?case using Cons by simp
qed

lemma clean_elements_id: "\<forall>s \<in> set ss. clean_element s \<Longrightarrow> clean_elements out ss = rev out @ ss"
  by (induction ss arbitrary: out) (auto simp: clean_element_def)

lemma split_rooted:
  assumes "\<forall>s \<in> set ss. clean_element s"
  shows "split_on CHR ''/'' (concat (map ((#) CHR ''/'') ss) @ r) =
    (if ss = [] then split_on CHR ''/'' r
     else [] # butlast ss @ split_on CHR ''/'' (last ss @ r))"
  using assms
proof (induction ss)
  case (Cons s ss)
  then have s: "CHR ''/'' \<notin> set s" by (simp add: clean_element_def)
  show ?case
  proof (cases ss)
    case (Cons t ts)
    have "concat (map ((#) CHR ''/'') (s # ss)) @ r =
        CHR ''/'' # s @ CHR ''/'' # (t @ concat (map ((#) CHR ''/'') ts) @ r)" by (simp add: Cons)
    moreover have "split_on CHR ''/'' (CHR ''/'' # (t @ concat (map ((#) CHR ''/'') ts) @ r)) =
        [] # butlast ss @ split_on CHR ''/'' (last ss @ r)"
      using Cons.IH Cons.prems Cons by simp
    ultimately show ?thesis using split_on_append [OF s] Cons by simp
  qed simp
qed simp

lemma path_Clean_rooted:
  assumes "\<forall>s \<in> set ss. clean_element s"
  shows "path_Clean (rooted ss) = rooted ss" "path_Clean (rooted ss @ ''/'') = rooted ss"
proof -
  have c: "clean_elements [] (butlast ss @ [last ss, []]) = ss" if "ss \<noteq> []"
  proof -
    have "butlast ss @ [last ss, []] = (butlast ss @ [last ss]) @ [[]]" by simp
    also have "\<dots> = ss @ [[]]" by (simp only: append_butlast_last_id [OF that])
    finally have "butlast ss @ [last ss, []] = ss @ [[]]" .
    moreover have "clean_elements out (ss @ [[]]) = rev out @ ss" for out
      using assms by (induction ss arbitrary: out) (auto simp: clean_element_def)
    ultimately show ?thesis by (simp only: append_Nil rev.simps)
  qed
  have l: "CHR ''/'' \<notin> set (last ss)" if "ss \<noteq> []" using assms that by (simp add: clean_element_def)
  show "path_Clean (rooted ss) = rooted ss"
    using split_rooted [OF assms, of "[]"] clean_elements_id [OF assms, of "[]"] split_on_none [OF l]
    by (cases "ss = []") (simp_all add: path_Clean_def rooted_def)
  show "path_Clean (rooted ss @ ''/'') = rooted ss"
    using split_rooted [OF assms, of "''/''"] split_on_append [OF l, of "[]"] c
    by (cases "ss = []") (simp_all add: path_Clean_def rooted_def)
qed

lemma path_Clean_form: "\<exists>ss. (\<forall>s \<in> set ss. clean_element s) \<and> path_Clean p = rooted ss"
proof -
  have "list_all (\<lambda>s. CHR ''/'' \<notin> set s) (split_on CHR ''/'' p)" by (auto simp: list_all_iff dest: split_on_parts)
  with clean_elements_clean [of "[]"] have "list_all clean_element (clean_elements [] (split_on CHR ''/'' p))" by simp
  then show ?thesis unfolding path_Clean_def list_all_iff by blast
qed

lemma rooted_head: "rooted ss \<noteq> []" "hd (rooted ss) = CHR ''/''"
  by (cases ss; simp add: rooted_def)+

lemma rooted_last: "\<forall>s \<in> set ss. clean_element s \<Longrightarrow> rooted ss \<noteq> ''/'' \<Longrightarrow> last (rooted ss) \<noteq> CHR ''/''"
proof (induction ss)
  case (Cons s ss)
  then have s: "s \<noteq> []" "CHR ''/'' \<notin> set s" by (simp_all add: clean_element_def)
  show ?case
  proof (cases ss)
    case Nil
    have "last s \<noteq> CHR ''/''" using s last_in_set [of s] by metis
    with s Nil show ?thesis by (simp add: rooted_def)
  next
    case (Cons t ts)
    then have "rooted ss \<noteq> ''/''" using Cons.prems by (auto simp: rooted_def clean_element_def)
    with Cons.IH Cons.prems Cons s show ?thesis by (simp add: rooted_def)
  qed
qed (simp add: rooted_def)

text \<open>A cleaned path is clean: a redirect leads to a path that is not redirected again.\<close>

lemma cleanPath_idem: "cleanPath (cleanPath p) = cleanPath p"
proof (cases "p = []")
  case True
  then show ?thesis by (simp add: cleanPath_def path_Clean_def rooted_def)
next
  case False
  define q where "q = (if hd p \<noteq> CHR ''/'' then CHR ''/'' # p else p)"
  obtain ss where ss: "\<forall>s \<in> set ss. clean_element s" "path_Clean q = rooted ss" using path_Clean_form by blast
  have "cleanPath p = (if last q = CHR ''/'' \<and> rooted ss \<noteq> ''/'' then rooted ss @ ''/'' else rooted ss)"
    using False by (simp add: cleanPath_def q_def [symmetric] ss(2) Let_def)
  moreover have "cleanPath (rooted ss) = rooted ss"
    using rooted_head [of ss] rooted_last [OF ss(1)] path_Clean_rooted(1) [OF ss(1)] by (auto simp: cleanPath_def Let_def)
  moreover have "cleanPath (rooted ss @ ''/'') = rooted ss @ ''/''" if "rooted ss \<noteq> ''/''"
    using rooted_head [of ss] path_Clean_rooted(2) [OF ss(1)] that by (simp add: cleanPath_def Let_def)
  ultimately show ?thesis by (simp split: if_splits)
qed

section \<open>Matching\<close>

text \<open>\<open>url.PathUnescape\<close>; a segment that cannot be unescaped is taken as it is.\<close>

fun hex_value :: "char \<Rightarrow> nat option" where
  "hex_value c =
     (let n = code c
      in if 48 \<le> n \<and> n \<le> 57 then Some (n - 48)
         else if 97 \<le> n \<and> n \<le> 102 then Some (n - 87)
         else if 65 \<le> n \<and> n \<le> 70 then Some (n - 55) else None)"

fun unescape :: "string \<Rightarrow> string option" where
  "unescape [] = Some []"
| "unescape (c # s) =
     (if c = CHR ''%''
      then (case s of
              a # b # r \<Rightarrow>
                (case (hex_value a, hex_value b) of
                   (Some m, Some n) \<Rightarrow> map_option ((#) (char_of (16 * m + n))) (unescape r)
                 | _ \<Rightarrow> None)
            | _ \<Rightarrow> None)
      else map_option ((#) c) (unescape s))"

definition pathUnescape :: "string \<Rightarrow> string" where
  "pathUnescape s = (case unescape s of None \<Rightarrow> s | Some u \<Rightarrow> u)"

definition firstSegment :: "string \<Rightarrow> string \<times> string" where
  "firstSegment path =
     (if path = ''/'' then (''/'', [])
      else let p = tl path
           in (pathUnescape (takeWhile (\<lambda>c. c \<noteq> CHR ''/'') p), dropWhile (\<lambda>c. c \<noteq> CHR ''/'') p))"

text \<open>A pattern of literal segments matches a path that has these segments and no more.\<close>

fun matchPath :: "string list \<Rightarrow> string \<Rightarrow> bool" where
  "matchPath [] path = (path = [])"
| "matchPath (lit # lits) path =
     (path \<noteq> [] \<and> (case firstSegment path of (seg, rest) \<Rightarrow> seg = lit \<and> matchPath lits rest))"

datatype handler = Healthz | HandleScan | NotFoundHandler | RedirectHandler string | ServerOptions | BadTarget

definition registered :: "(string list \<times> handler) list" where
  "registered = [([''healthz''], Healthz), ([''v1'', ''scan''], HandleScan)]"

text \<open>
  The general options handler of the server and the multiplexer refuse the target \<open>*\<close>; a path that is not
  clean is redirected, except for CONNECT, whether or not there is a handler for the clean one.
\<close>

definition findHandler :: "string \<Rightarrow> string \<Rightarrow> handler" where
  "findHandler meth escapedPath =
     (if escapedPath = ''*'' then if meth = ''OPTIONS'' then ServerOptions else BadTarget
      else let path = (if meth = ''CONNECT'' then escapedPath else cleanPath escapedPath)
           in if path \<noteq> escapedPath then RedirectHandler path
              else case find (\<lambda>(lits, h). matchPath lits path) registered of
                     Some (lits, h) \<Rightarrow> h
                   | None \<Rightarrow> NotFoundHandler)"

lemma findHandler_redirect:
  "findHandler meth p = RedirectHandler q \<longleftrightarrow> p \<noteq> ''*'' \<and> meth \<noteq> ''CONNECT'' \<and> q = cleanPath p \<and> q \<noteq> p"
  by (auto simp: findHandler_def Let_def registered_def split: if_splits)

lemma findHandler_redirected: "findHandler meth p = RedirectHandler q \<Longrightarrow> findHandler meth q \<noteq> RedirectHandler q'"
  by (auto simp: findHandler_redirect cleanPath_idem)

lemma findHandler_paths:
  "findHandler ''POST'' ''/v1/scan'' = HandleScan" "findHandler ''GET'' ''/healthz'' = Healthz"
  "findHandler ''POST'' ''/v1//scan'' = RedirectHandler ''/v1/scan''"
  "findHandler ''GET'' ''//healthz'' = RedirectHandler ''/healthz''"
  "findHandler ''GET'' ''/x/../healthz/.'' = RedirectHandler ''/healthz''"
  "findHandler ''POST'' ''/v1/scan/'' = NotFoundHandler" "findHandler ''GET'' ''/v1/%73can'' = HandleScan"
  "findHandler ''CONNECT'' '''' = NotFoundHandler" "findHandler ''GET'' ''*'' = BadTarget"
  by code_simp+

end
