(* ===== verification/Service.thy ===== *)
theory Service
  imports Published Wire Mux
begin

text \<open>
  The HTTP service of cmd/headerforge-tls/main.go, from the text of a request to the text of the
  response: the multiplexer picks the handler (theory \<open>Mux\<close>), the body is decoded as \<open>encoding/json\<close> does
  (theory \<open>Wire\<close>), and the outcome is a status with a body, a redirect, a panic, or that the handler is
  still waiting for the body. Parsing the head of a request, the bytes of the response's head and the
  drain of a body that was not read are \<open>net/http\<close>'s and not modelled.
\<close>

lemma wrap64_above: "2 ^ 63 \<le> x \<Longrightarrow> x < 2 ^ 64 + 2 ^ 63 \<Longrightarrow> wrap64 x = x - 2 ^ 64"
  using mod_pos_geq [of "2 ^ 64" "x + 2 ^ 63"] by (simp add: wrap64_def)

section \<open>Requests and responses\<close>

text \<open>
  A request: the escaped path of its URL, its method and body, how long after the head the decoder has
  of the body what it needs (\<open>None\<close> if the client neither sends it nor closes the connection), and the
  deadline of its context, if it has one.
\<close>

record http_request =
  hr_path :: string
  hr_method :: string
  hr_body :: string
  hr_body_wait :: "nat option"
  hr_ctx :: "int option"

datatype http_body = PlainText string | ErrorJSON guard_error | ResultJSON result | NoBody

record http_response =
  rs_status :: nat
  rs_body :: http_body

text \<open>
  What becomes of a request: a response; a 301 to a path, whose \<open>Location\<close> and note are net/http's; a
  panic, which net/http recovers from by closing the connection; or no end.
\<close>

datatype outcome = Answered http_response | Redirected string | Panicked | Waiting

fun status_of :: "outcome \<Rightarrow> nat option" where
  "status_of (Answered resp) = Some (rs_status resp)"
| "status_of (Redirected path) = Some 301"
| "status_of Panicked = None"
| "status_of Waiting = None"

definition response :: "nat \<Rightarrow> http_body \<Rightarrow> http_response" where
  "response status body = \<lparr>rs_status = status, rs_body = body\<rparr>"

text \<open>\<open>http.Error\<close> ends its message with a newline.\<close>

definition http_error :: "string \<Rightarrow> nat \<Rightarrow> http_response" where
  "http_error msg status = response status (PlainText (msg @ newline))"

text \<open>
  \<open>time.Duration(req.TimeoutMs) * time.Millisecond\<close> is a product of \<open>int64\<close>s, and so is the sum with
  five seconds: both wrap around.
\<close>

definition request_timeout :: "scanRequest \<Rightarrow> int" where
  "request_timeout req =
     (let timeout = 15 * second
      in if rq_timeout_ms req > 0 then wrap64 (rq_timeout_ms req * millisecond) else timeout)"

definition request_options :: "scanRequest \<Rightarrow> options" where
  "request_options req = \<lparr>Host = rq_host req, Port = rq_port req, Timeout = request_timeout req,
     CheckVulns = rq_check_vulns req, IPVersion = []\<rparr>"

text \<open>
  The server sets no limit to reading the body (\<open>ReadHeaderTimeout\<close> ends with the head), so the handler
  waits for it as long as the client likes.
\<close>

definition handleScan :: "environment \<Rightarrow> http_request \<Rightarrow> world \<Rightarrow> outcome \<times> world" where
  "handleScan env r w =
     (if hr_method r \<noteq> ''POST'' then (Answered (http_error ''method not allowed'' 405), w)
      else case hr_body_wait r of
             None \<Rightarrow> (Waiting, w)
           | Some wait \<Rightarrow>
               let w = waited wait w
               in case decode_request (hr_body r) of
                    None \<Rightarrow> (Answered (http_error ''bad request'' 400), w)
                  | Some req \<Rightarrow>
                      let timeout = request_timeout req;
                          ctx = with_timeout (hr_ctx r) (wrap64 (timeout + 5 * second)) w
                      in case Scan env ctx (request_options req) w of
                           (None, w1) \<Rightarrow> (Panicked, w1)
                         | (Some (Inl err), w1) \<Rightarrow> (Answered (response 422 (ErrorJSON err)), w1)
                         | (Some (Inr res), w1) \<Rightarrow> (Answered (response 200 (ResultJSON res)), w1))"

definition listen_address :: "string \<Rightarrow> string" where
  "listen_address env_addr = (if env_addr = [] then ''127.0.0.1:8081'' else env_addr)"

text \<open>The server \<open>main\<close> starts, for the value of \<open>TLS_SCAN_LISTEN\<close>, and the line it logs before.\<close>

record http_server =
  srv_Addr :: string
  srv_ReadHeaderTimeout :: int

definition configured_server :: "string \<Rightarrow> http_server \<times> string" where
  "configured_server env_addr =
     (let addr = listen_address env_addr
      in (\<lparr>srv_Addr = addr, srv_ReadHeaderTimeout = 5 * second\<rparr>, ''headerforge-tls listening on '' @ addr))"

text \<open>The server with its multiplexer and the two handlers.\<close>

definition route :: "environment \<Rightarrow> http_request \<Rightarrow> world \<Rightarrow> outcome \<times> world" where
  "route env r w =
     (case findHandler (hr_method r) (hr_path r) of
        Healthz \<Rightarrow> (Answered (response 200 (PlainText ''ok'')), w)
      | HandleScan \<Rightarrow> handleScan env r w
      | NotFoundHandler \<Rightarrow> (Answered (http_error ''404 page not found'' 404), w)
      | RedirectHandler path \<Rightarrow> (Redirected path, w)
      | ServerOptions \<Rightarrow> (Answered (response 200 NoBody), w)
      | BadTarget \<Rightarrow> (Answered (response 400 NoBody), w))"

text \<open>The document of a JSON body: the error object, or the result with its struct tags.\<close>

definition body_json :: "(int \<Rightarrow> string) \<Rightarrow> (bytes \<Rightarrow> string) \<Rightarrow> http_body \<Rightarrow> json option" where
  "body_json fmt show_ip body =
     (case body of
        PlainText s \<Rightarrow> None
      | NoBody \<Rightarrow> None
      | ErrorJSON err \<Rightarrow> Some (JObj [(''error'', JStr (guard_message show_ip err))])
      | ResultJSON res \<Rightarrow> Some (result_json fmt res))"

text \<open>The bytes of a body and their \<open>Content-Type\<close>, which is empty if there is none.\<close>

definition body_text :: "(int \<Rightarrow> string) \<Rightarrow> (bytes \<Rightarrow> string) \<Rightarrow> http_body \<Rightarrow> string" where
  "body_text fmt show_ip body =
     (case body_json fmt show_ip body of
        Some j \<Rightarrow> compact j
      | None \<Rightarrow> (case body of PlainText s \<Rightarrow> s | _ \<Rightarrow> []))"

definition content_type :: "http_body \<Rightarrow> string" where
  "content_type body =
     (case body of PlainText s \<Rightarrow> ''text/plain; charset=utf-8'' | NoBody \<Rightarrow> [] | _ \<Rightarrow> ''application/json'')"

section \<open>The statuses of the service\<close>

lemma Scan_cases:
  "(\<exists>err. guardTarget (e_lookupIP env) (Host opts) = Some err \<and>
      Scan env ctx opts w = (Some (Inl err), waited (lookup_time env (Host opts)) w)) \<or>
   (guardTarget (e_lookupIP env) (Host opts) = None \<and>
      (fst (Scan env ctx opts w) = None \<and> CheckVulns opts \<or> (\<exists>res. fst (Scan env ctx opts w) = Some (Inr res))))"
proof (cases "guardTarget (e_lookupIP env) (Host opts)")
  case None
  then show ?thesis
    using run_scan_total [of "with_defaults opts" env ctx "w_now w" "probing_world env opts w"]
    by (cases "run_scan env ctx (with_defaults opts) (w_now w) (probing_world env opts w)") (auto simp: Scan_eq)
qed (simp add: Scan_eq)

text \<open>
  The statuses of the scan handler. A request is answered 405 exactly if it is not a POST; otherwise the
  handler waits for the body, and answers 400 exactly if it does not decode, else 422 exactly if the
  guard refuses the host, else 200; the only other outcome is a panic of the scan, which needs the
  vulnerability probes. Except for 200 and the panic only time passes: nothing was dialled.
\<close>

theorem handleScan_status:
  "(case handleScan env r w of (out, w') \<Rightarrow>
     if hr_method r \<noteq> ''POST'' then status_of out = Some 405 \<and> w' = w
     else case hr_body_wait r of
            None \<Rightarrow> out = Waiting \<and> w' = w
          | Some wait \<Rightarrow>
              (case decode_request (hr_body r) of
                 None \<Rightarrow> status_of out = Some 400 \<and> w' = waited wait w
               | Some req \<Rightarrow>
                   if guardTarget (e_lookupIP env) (rq_host req) \<noteq> None
                   then status_of out = Some 422 \<and> w' = waited (lookup_time env (rq_host req)) (waited wait w)
                   else status_of out = Some 200 \<or> out = Panicked \<and> rq_check_vulns req))"
proof (cases "hr_method r = ''POST'' \<and> hr_body_wait r \<noteq> None")
  case True
  then obtain wait where wait: "hr_body_wait r = Some wait" by auto
  show ?thesis
  proof (cases "decode_request (hr_body r)")
    case None
    with True wait show ?thesis by (simp add: handleScan_def http_error_def response_def Let_def)
  next
    case (Some req)
    let ?ctx = "with_timeout (hr_ctx r) (wrap64 (request_timeout req + 5 * second)) (waited wait w)"
    have host: "Host (request_options req) = rq_host req" "CheckVulns (request_options req) = rq_check_vulns req"
      by (simp_all add: request_options_def)
    from Scan_cases [of env "request_options req" ?ctx "waited wait w"] show ?thesis
      using True wait Some host
      by (cases "Scan env ?ctx (request_options req) (waited wait w)") (auto simp: handleScan_def response_def Let_def)
  qed
qed (auto simp: handleScan_def http_error_def response_def split: option.split)

text \<open>The request a client posts, whose body has arrived after a while.\<close>

definition posted :: "nat \<Rightarrow> scanRequest \<Rightarrow> http_request" where
  "posted wait req = \<lparr>hr_path = ''/v1/scan'', hr_method = ''POST'', hr_body = compact (request_json req),
     hr_body_wait = Some wait, hr_ctx = None\<rparr>"

lemma posted_decodes:
  assumes "valid_utf8 (rq_host req)" and "int64 (rq_port req)" and "int64 (rq_timeout_ms req)"
  shows "hr_method (posted wait req) = ''POST''" "decode_request (hr_body (posted wait req)) = Some req"
  using decode_request_json [OF assms] by (simp_all add: posted_def)

lemma route_posted: "route env (posted wait req) w = handleScan env (posted wait req) w"
  by (simp add: route_def posted_def findHandler_paths)

definition demo_body :: "int \<Rightarrow> scanRequest" where
  "demo_body ms = \<lparr>rq_host = dotted 93 184 216 34, rq_port = 443, rq_timeout_ms = ms, rq_check_vulns = False\<rparr>"

definition demo_request :: "int \<Rightarrow> http_request" where
  "demo_request ms = posted 0 (demo_body ms)"

lemma demo_host_valid: "valid_utf8 (rq_host (demo_body ms))"
  unfolding demo_body_def scanRequest.simps by code_simp

lemma demo_decodes: "int64 ms \<Longrightarrow> decode_request (hr_body (demo_request ms)) = Some (demo_body ms)"
  using posted_decodes(2) [OF demo_host_valid [of ms]] by (simp add: demo_request_def demo_body_def int64_def)

text \<open>
  C14. The service as its client sees it, from text to text. A request that is posted as JSON, and whose
  body arrives, has one of three outcomes. It is answered with 422 and the guard's message, exactly if the guard
  refuses its host. Otherwise it is answered with 200 and the document of a well-formed result for
  exactly the host and the port (443 for 0) asked for, and this document can be read back whenever
  the strings of the result are UTF-8 and its numbers Go integers (\<open>text_ok\<close>). Or, only if the
  vulnerability probes were asked for, the scan panics and there is no answer.
\<close>

theorem service_exchange:
  assumes "tls_contract (e_tls env)" and "set (e_order env) \<subseteq> set cipherCatalog"
    and "valid_utf8 (rq_host req)" and "int64 (rq_port req)" and "int64 (rq_timeout_ms req)"
    and "\<And>t. valid_utf8 (fmt t)" and "\<And>t. parse (fmt t) = Some t"
  shows "case fst (route env (posted wait req) w) of
      Answered resp \<Rightarrow> content_type (rs_body resp) = ''application/json'' \<and>
        (case guardTarget (e_lookupIP env) (rq_host req) of
           Some err \<Rightarrow> rs_status resp = 422 \<and>
             body_text fmt show_ip (rs_body resp) = compact (JObj [(''error'', JStr (guard_message show_ip err))])
         | None \<Rightarrow> rs_status resp = 200 \<and> (\<exists>res. rs_body resp = ResultJSON res \<and> well_formed (request_options req) res \<and>
             r_Host res = rq_host req \<and> r_Port res = (if rq_port req = 0 then 443 else rq_port req) \<and>
             (text_ok res \<longrightarrow> read_text parse (body_text fmt show_ip (rs_body resp)) = Some res)))
    | Panicked \<Rightarrow> rq_check_vulns req \<and> guardTarget (e_lookupIP env) (rq_host req) = None
    | Redirected path \<Rightarrow> False
    | Waiting \<Rightarrow> False"
proof -
  let ?w = "waited wait w" and ?opts = "request_options req"
  let ?ctx = "with_timeout None (wrap64 (request_timeout req + 5 * second)) ?w"
  have opts: "Host ?opts = rq_host req" "CheckVulns ?opts = rq_check_vulns req" by (simp_all add: request_options_def)
  obtain x w1 where x: "Scan env ?ctx ?opts ?w = (x, w1)" by (metis surj_pair)
  have p: "hr_ctx (posted wait req) = None" "hr_body_wait (posted wait req) = Some wait" by (simp_all add: posted_def)
  have run: "fst (route env (posted wait req) w) = (case x of None \<Rightarrow> Panicked
      | Some (Inl err) \<Rightarrow> Answered (response 422 (ErrorJSON err)) | Some (Inr res) \<Rightarrow> Answered (response 200 (ResultJSON res)))"
    using posted_decodes [OF assms(3-5), of wait] x
    by (simp add: route_posted handleScan_def Let_def p split: option.splits sum.splits)
  from Scan_cases [of env ?opts ?ctx ?w] x opts consider
      (refused) err where "guardTarget (e_lookupIP env) (rq_host req) = Some err" "x = Some (Inl err)"
    | (crash) "guardTarget (e_lookupIP env) (rq_host req) = None" "x = None" "rq_check_vulns req"
    | (result) res where "guardTarget (e_lookupIP env) (rq_host req) = None" "x = Some (Inr res)"
    by auto
  then show ?thesis
  proof cases
    case refused
    with run show ?thesis by (simp add: response_def content_type_def body_text_def body_json_def)
  next
    case crash
    with run show ?thesis by simp
  next
    case result
    have "well_formed ?opts res" by (rule scan_wf [OF x [unfolded result(2)] assms(1,2)])
    moreover from this have "r_Host res = rq_host req" "r_Port res = (if rq_port req = 0 then 443 else rq_port req)"
      by (simp_all add: well_formed_def request_options_def)
    ultimately show ?thesis
      using run result result_text_read [of res fmt parse, OF _ assms(6,7)]
      by (simp add: response_def content_type_def body_text_def body_json_def)
  qed
qed

lemma demo_request_method: "hr_method (demo_request ms) = ''POST''"
  by (simp add: demo_request_def posted_def)

lemma demo_request_guard: "guardTarget lookupIP (dotted 93 184 216 34) = None"
  using demo_guard [of lookupIP True] by (simp add: demo_scan_def)

theorem service_exchange_witness:
  "\<exists>resp. fst (route (demo_env refusing_tls) (demo_request 0) (answering [])) = Answered resp \<and> rs_status resp = 200 \<and>
     (\<exists>res. rs_body resp = ResultJSON res \<and> well_formed (request_options (demo_body 0)) res \<and> r_Host res = dotted 93 184 216 34)"
proof -
  have e: "tls_contract (e_tls (demo_env refusing_tls))" "set (e_order (demo_env refusing_tls)) \<subseteq> set cipherCatalog"
    by (simp_all add: demo_env_def example_contracts)
  have u: "valid_utf8 (unary t)" "read_unary (unary t) = Some t" for t
    by (rule valid_literal) (simp_all add: unary_def list_all_iff read_unary_def)
  have b: "int64 (rq_port (demo_body 0))" "int64 (rq_timeout_ms (demo_body 0))" "\<not> rq_check_vulns (demo_body 0)"
    "rq_host (demo_body 0) = dotted 93 184 216 34"
    by (simp_all add: demo_body_def int64_def)
  have g: "guardTarget (e_lookupIP (demo_env refusing_tls)) (rq_host (demo_body 0)) = None"
    by (simp add: demo_body_def demo_request_guard)
  from service_exchange [OF e demo_host_valid b(1,2) u, where show_ip = "\<lambda>_. []" and wait = 0 and w = "answering []"] b(3,4) g
  show ?thesis
    by (cases "fst (route (demo_env refusing_tls) (demo_request 0) (answering []))") (auto simp: demo_request_def)
qed

lemma request_options_sel [simp]:
  "Host (request_options req) = rq_host req" "Timeout (request_options req) = request_timeout req"
  "CheckVulns (request_options req) = rq_check_vulns req" "Port (request_options req) = rq_port req"
  by (simp_all add: request_options_def)

lemma request_timeout_plain:
  assumes "rq_timeout_ms req \<le> 9223372031854"
  shows "0 < request_timeout req" "wrap64 (request_timeout req + 5 * second) = request_timeout req + 5 * second"
  using assms by (auto simp: request_timeout_def Let_def millisecond_def second_def wrap64_def)

lemma with_timeout_some: "\<exists>d. with_timeout ctx t w = Some d \<and> d \<le> w_now w + t"
  by (cases ctx) (simp_all add: with_timeout_def)

text \<open>
  C32. How long a request to scan takes. Two waits have no limit in the code: the one for the body, with
  which the handler does not end if the body does not come, and the guard's lookup. Apart from them,
  with a timeout below 9223372031855 ms (no overflow), it is answered, or panics, within its timeout plus
  5 seconds plus the overrun of the context, three timeouts or 7.2 seconds, whichever is more, unless the
  lookup alone takes longer than that; and every connection it opened is closed. With the default
  timeout that is 65 seconds, not 20.
\<close>

theorem handleScan_bound:
  assumes "tls_contract (e_tls env)" and "hr_method r = ''POST''" and "hr_body_wait r = Some wait"
    and "decode_request (hr_body r) = Some req" and "rq_timeout_ms req \<le> 9223372031854"
    and "handleScan env r w = (out, w')" and "lookup = int (lookup_time env (rq_host req))"
  shows "out \<noteq> Waiting \<and> w_open w' = w_open w \<and> w_now w + int wait + lookup \<le> w_now w' \<and>
    w_now w' \<le> w_now w + int wait + max lookup (request_timeout req + 5 * second + overrun (request_timeout req)) \<and>
    handleScan env (r\<lparr>hr_body_wait := None\<rparr>) w = (Waiting, w)"
proof -
  note t = request_timeout_plain [OF assms(5)]
  let ?w = "waited wait w"
  from with_timeout_some [of "hr_ctx r" "request_timeout req + 5 * second" ?w] obtain d where
    d: "with_timeout (hr_ctx r) (request_timeout req + 5 * second) ?w = Some d"
      "d \<le> w_now ?w + (request_timeout req + 5 * second)" by blast
  obtain x w1 where x: "Scan env (Some d) (request_options req) ?w = (x, w1)" by (metis surj_pair)
  have w1: "w1 = w'" and out: "out \<noteq> Waiting"
    using assms(2-4,6) x t(2) d(1) by (auto simp: handleScan_def Let_def split: option.splits sum.splits)
  have timeout: "Timeout (with_defaults (request_options req)) = request_timeout req" using t(1) by simp
  have "w_open w' = w_open w" "w_now ?w + lookup \<le> w_now w'"
    "w_now w' \<le> max (w_now ?w + lookup) (d + overrun (request_timeout req))"
    using scan_resources [OF assms(1) x refl refl] timeout w1 by (simp_all add: assms(7))
  moreover from this d(2) have "w_now w' \<le> w_now w + int wait +
      max lookup (request_timeout req + 5 * second + overrun (request_timeout req))" by simp
  moreover have "handleScan env (r\<lparr>hr_body_wait := None\<rparr>) w = (Waiting, w)" using assms(2) by (simp add: handleScan_def)
  ultimately show ?thesis using out by simp
qed

theorem handleScan_bound_witness:
  "w_now (snd (handleScan (demo_env refusing_tls) (demo_request 0) (answering []))) \<le> 65 * second"
proof -
  have env: "tls_contract (e_tls (demo_env refusing_tls))" by (simp add: demo_env_def example_contracts)
  have "w_now (answering []) = 0" by (simp add: answering_def)
  moreover have "lookup_time (demo_env refusing_tls) (rq_host (demo_body 0)) = 0"
    by (simp add: demo_body_def lookup_time_def lookup_dotted)
  moreover have "hr_body_wait (demo_request 0) = Some 0" by (simp add: demo_request_def posted_def)
  ultimately show ?thesis
    using handleScan_bound [OF env demo_request_method _ demo_decodes [of 0] _ prod.collapse [symmetric] refl, of 0 "answering []"]
    by (simp add: demo_body_def int64_def request_timeout_def overrun_def second_def millisecond_def)
qed

text \<open>
  C31. Overflow of the requested timeout. \<open>timeout_ms\<close> is multiplied in 64 bits without a check. A value from
  9223372036855 to 18446744068709 wraps to a negative timeout, and the context's deadline lies in the
  past. No dial can succeed then: for any host the guard accepts, the service answers 200
  with grade B, no protocol and no vulnerability.
\<close>

theorem handleScan_timeout_overflow:
  assumes "hr_method r = ''POST''" and "hr_body_wait r = Some wait" and "decode_request (hr_body r) = Some req"
    and "guardTarget (e_lookupIP env) (rq_host req) = None"
    and "9223372036855 \<le> rq_timeout_ms req" and "rq_timeout_ms req \<le> 18446744068709"
  shows "\<exists>res. fst (handleScan env r w) = Answered (response 200 (ResultJSON res)) \<and> r_Grade res = Some GradeB \<and>
    r_Protocols res = no_protocols \<and> r_Vulnerabilities res = no_vulnerabilities"
proof -
  have "wrap64 (rq_timeout_ms req * millisecond) = rq_timeout_ms req * millisecond - 2 ^ 64"
    by (rule wrap64_above) (use assms(5,6) in \<open>simp_all add: millisecond_def\<close>)
  then have t: "request_timeout req = rq_timeout_ms req * millisecond - 2 ^ 64"
    using assms(5) by (simp add: request_timeout_def)
  then have past: "wrap64 (request_timeout req + 5 * second) \<le> 0"
    using assms(5,6) by (subst wrap64_id) (simp_all add: millisecond_def second_def)
  let ?w = "waited wait w"
  let ?ctx = "with_timeout (hr_ctx r) (wrap64 (request_timeout req + 5 * second)) ?w"
  from with_timeout_some [of "hr_ctx r" "wrap64 (request_timeout req + 5 * second)" ?w] past
  have "unreachable env ?ctx (request_options req) ?w" by (auto simp: offline_def)
  from scan_offline [OF _ this] assms(4) obtain res where
    "fst (Scan env ?ctx (request_options req) ?w) = Some (Inr res)" "r_Grade res = Some GradeB"
      "r_Protocols res = no_protocols" "r_Vulnerabilities res = no_vulnerabilities" by auto
  then show ?thesis
    using assms(1-3) by (cases "Scan env ?ctx (request_options req) ?w") (auto simp: handleScan_def Let_def)
qed

theorem handleScan_timeout_overflow_witness:
  "\<exists>res. fst (handleScan (demo_env modern_tls) (demo_request 9223372036855) (answering [])) =
     Answered (response 200 (ResultJSON res)) \<and> r_Grade res = Some GradeB"
proof -
  have "hr_body_wait (demo_request 9223372036855) = Some 0" by (simp add: demo_request_def posted_def)
  from handleScan_timeout_overflow [OF demo_request_method this demo_decodes, of "demo_env modern_tls" "answering []"]
  show ?thesis by (auto simp: demo_body_def int64_def demo_request_guard)
qed

end
