(* ===== verification/Flags.thy ===== *)
theory Flags
  imports Decimal Clock
begin

text \<open>
  The command line of the console tool (cmd/tlsscan/main.go): the four flags it defines with the
  \<open>flag\<close> package, the values of its types (\<open>strconv.ParseInt\<close> with base 0, \<open>strconv.ParseBool\<close>,
  \<open>time.ParseDuration\<close>), and the loop that takes flags from the arguments until the first
  argument that is none.
\<close>

section \<open>Values\<close>

definition parse_bool :: "string \<Rightarrow> bool option" where
  "parse_bool s =
     (if s \<in> {''1'', ''t'', ''T'', ''TRUE'', ''true'', ''True''} then Some True
      else if s \<in> {''0'', ''f'', ''F'', ''FALSE'', ''false'', ''False''} then Some False else None)"

definition lower :: "char \<Rightarrow> char" where
  "lower c = (if 65 \<le> code c \<and> code c \<le> 90 then char_of (code c + 32) else c)"

definition digit_value :: "char \<Rightarrow> nat option" where
  "digit_value c =
     (if is_digit c then Some (code c - 48)
      else if 97 \<le> code (lower c) \<and> code (lower c) \<le> 122 then Some (code (lower c) - 87) else None)"

text \<open>The digits in a base, underscores skipped.\<close>

fun read_base :: "nat \<Rightarrow> nat \<Rightarrow> string \<Rightarrow> nat option" where
  "read_base b n [] = Some n"
| "read_base b n (c # s) =
     (if c = CHR ''_'' then read_base b n s
      else case digit_value c of None \<Rightarrow> None | Some d \<Rightarrow> if b \<le> d then None else read_base b (n * b + d) s)"

text \<open>An underscore stands between two digits or after a base prefix; \<open>ok\<close> says that one may follow.\<close>

fun underscores_ok :: "bool \<Rightarrow> string \<Rightarrow> bool" where
  "underscores_ok ok [] \<longleftrightarrow> True"
| "underscores_ok ok (c # s) \<longleftrightarrow>
     (if c = CHR ''_'' then ok \<and> s \<noteq> [] \<and> hd s \<noteq> CHR ''_'' \<and> underscores_ok False s else underscores_ok True s)"

text \<open>The base and the digits of an unsigned literal, and whether a prefix allows an underscore.\<close>

definition base_prefix :: "string \<Rightarrow> nat \<times> string \<times> bool" where
  "base_prefix s =
     (if 3 \<le> length s \<and> hd s = CHR ''0'' \<and> lower (s ! 1) = CHR ''b'' then (2, drop 2 s, True)
      else if 3 \<le> length s \<and> hd s = CHR ''0'' \<and> lower (s ! 1) = CHR ''o'' then (8, drop 2 s, True)
      else if 3 \<le> length s \<and> hd s = CHR ''0'' \<and> lower (s ! 1) = CHR ''x'' then (16, drop 2 s, True)
      else if s \<noteq> [] \<and> hd s = CHR ''0'' then (8, tl s, True)
      else (10, s, False))"

definition parse_int0 :: "string \<Rightarrow> int option" where
  "parse_int0 s =
     (let neg = (s \<noteq> [] \<and> hd s = CHR ''-'');
          u = (if s \<noteq> [] \<and> hd s \<in> {CHR ''-'', CHR ''+''} then tl s else s)
      in if u = [] then None
         else case base_prefix u of (b, ds, ok) \<Rightarrow>
           (case read_base b 0 ds of
              None \<Rightarrow> None
            | Some n \<Rightarrow>
                let i = (if neg then - int n else int n)
                in if underscores_ok ok ds \<and> - (2 ^ 63) \<le> i \<and> i < 2 ^ 63 then Some i else None))"

section \<open>Durations\<close>

text \<open>The units; the micro sign and the Greek letter mu are two bytes each.\<close>

definition unit_of :: "string \<Rightarrow> nat option" where
  "unit_of u =
     (if u = ''ns'' then Some 1
      else if u = ''us'' \<or> map code u = [0xc2, 0xb5, 0x73] \<or> map code u = [0xce, 0xbc, 0x73] then Some 1000
      else if u = ''ms'' then Some 1000000 else if u = ''s'' then Some 1000000000
      else if u = ''m'' then Some 60000000000 else if u = ''h'' then Some 3600000000000 else None)"

text \<open>
  The digits after the point: their number, the power of ten under it, and whether they have grown
  beyond what a \<open>uint64\<close> of 63 bits holds, from where on they are ignored.
\<close>

fun leading_fraction :: "nat \<Rightarrow> rat \<Rightarrow> bool \<Rightarrow> string \<Rightarrow> nat \<times> rat" where
  "leading_fraction x scale ovf [] = (x, scale)"
| "leading_fraction x scale ovf (c # ds) =
     (if ovf then leading_fraction x scale True ds
      else if x > (2 ^ 63 - 1) div 10 \<or> x * 10 + (code c - 48) > 2 ^ 63 then leading_fraction x scale True ds
      else leading_fraction (x * 10 + (code c - 48)) (fl (scale * 10)) False ds)"

text \<open>One number with its unit, in nanoseconds, and the rest of the string.\<close>

definition duration_part :: "string \<Rightarrow> (nat \<times> string) option" where
  "duration_part s =
     (let ds = takeWhile is_digit s; r = dropWhile is_digit s;
          point = (r \<noteq> [] \<and> hd r = CHR ''.'');
          fs = (if point then takeWhile is_digit (tl r) else []);
          r = (if point then dropWhile is_digit (tl r) else r);
          u = takeWhile (\<lambda>c. \<not> is_digit c \<and> c \<noteq> CHR ''.'') r;
          rest = dropWhile (\<lambda>c. \<not> is_digit c \<and> c \<noteq> CHR ''.'') r;
          v = read_digits ds
      in if ds = [] \<and> fs = [] \<or> 2 ^ 63 < v then None
         else case unit_of u of
                None \<Rightarrow> None
              | Some unit \<Rightarrow>
                  if v > 2 ^ 63 div unit then None
                  else (case leading_fraction 0 1 False fs of (f, scale) \<Rightarrow>
                    let v = v * unit + (if f > 0 then nat \<lfloor>fl (fl (of_nat f) * fl (of_nat unit / scale))\<rfloor> else 0)
                    in if v > 2 ^ 63 then None else Some (v, rest)))"

lemma unit_of_Nil: "unit_of [] = None"
  by (simp add: unit_of_def)

lemma duration_part_shorter:
  assumes "duration_part s = Some (v, rest)"
  shows "length rest < length s"
proof -
  let ?P = "\<lambda>c. \<not> is_digit c \<and> c \<noteq> CHR ''.''"
  define r where "r = dropWhile is_digit s"
  define r' where "r' = (if r \<noteq> [] \<and> hd r = CHR ''.'' then dropWhile is_digit (tl r) else r)"
  from assms have u: "unit_of (takeWhile ?P r') \<noteq> None" and rest: "rest = dropWhile ?P r'"
    by (auto simp: duration_part_def r_def r'_def Let_def split: if_splits option.splits prod.splits)
  from u have "takeWhile ?P r' \<noteq> []" using unit_of_Nil by metis
  then have "length rest < length r'" unfolding rest by (cases r') (auto simp: le_imp_less_Suc length_dropWhile_le split: if_splits)
  moreover have "length r' \<le> length r" using length_dropWhile_le [of is_digit "tl r"] by (auto simp: r'_def)
  moreover have "length r \<le> length s" unfolding r_def by (rule length_dropWhile_le)
  ultimately show ?thesis by simp
qed

text \<open>The sum of the parts is a \<open>uint64\<close>.\<close>

function duration_parts :: "nat \<Rightarrow> string \<Rightarrow> nat option" where
  "duration_parts d s =
     (if s = [] then Some d
      else case duration_part s of
             None \<Rightarrow> None
           | Some (v, rest) \<Rightarrow>
               let d = (d + v) mod 2 ^ 64
               in if d > 2 ^ 63 then None else duration_parts d rest)"
  by pat_completeness auto
termination
  by (relation "measure (\<lambda>(d, s). length s)") (auto dest: duration_part_shorter)

declare duration_parts.simps [simp del]

definition parse_duration :: "string \<Rightarrow> int option" where
  "parse_duration s =
     (let neg = (s \<noteq> [] \<and> hd s = CHR ''-'');
          u = (if s \<noteq> [] \<and> hd s \<in> {CHR ''-'', CHR ''+''} then tl s else s)
      in if u = ''0'' then Some 0 else if u = [] then None
         else case duration_parts 0 u of
                None \<Rightarrow> None
              | Some d \<Rightarrow> if neg then Some (- int d) else if d > 2 ^ 63 - 1 then None else Some (int d))"

section \<open>The flags\<close>

record cli_flags =
  cf_port :: int
  cf_timeout :: int
  cf_vulns :: bool
  cf_json :: bool
  cf_args :: "string list"

text \<open>The defaults of the definitions.\<close>

definition default_flags :: cli_flags where
  "default_flags = \<lparr>cf_port = 443, cf_timeout = 15 * second, cf_vulns = False, cf_json = False, cf_args = []\<rparr>"

datatype flag_outcome = Parsed cli_flags | HelpAsked | BadFlag string

fun is_bool_flag :: "string \<Rightarrow> bool" where
  "is_bool_flag name \<longleftrightarrow> name = ''vulns'' \<or> name = ''json''"

fun is_flag :: "string \<Rightarrow> bool" where
  "is_flag name \<longleftrightarrow> is_bool_flag name \<or> name = ''port'' \<or> name = ''timeout''"

definition set_flag :: "string \<Rightarrow> string \<Rightarrow> cli_flags \<Rightarrow> cli_flags option" where
  "set_flag name v fs =
     (if name = ''port'' then map_option (\<lambda>n. fs\<lparr>cf_port := n\<rparr>) (parse_int0 v)
      else if name = ''timeout'' then map_option (\<lambda>d. fs\<lparr>cf_timeout := d\<rparr>) (parse_duration v)
      else if name = ''vulns'' then map_option (\<lambda>b. fs\<lparr>cf_vulns := b\<rparr>) (parse_bool v)
      else if name = ''json'' then map_option (\<lambda>b. fs\<lparr>cf_json := b\<rparr>) (parse_bool v)
      else None)"

text \<open>\<open>name\<close> or \<open>name=value\<close>; the first character is not an equals sign.\<close>

definition split_flag :: "string \<Rightarrow> string \<times> string option" where
  "split_flag s =
     (let name = takeWhile (\<lambda>c. c \<noteq> CHR ''='') s
      in (name, if length name < length s then Some (drop (Suc (length name)) s) else None))"

text \<open>\<open>flag.Parse\<close>; a value that does not follow an equals sign is the next argument.\<close>

function parse_flags :: "string list \<Rightarrow> cli_flags \<Rightarrow> flag_outcome" where
  "parse_flags [] fs = Parsed (fs\<lparr>cf_args := []\<rparr>)"
| "parse_flags (s # args) fs =
     (if length s < 2 \<or> hd s \<noteq> CHR ''-'' then Parsed (fs\<lparr>cf_args := s # args\<rparr>)
      else if s = ''--'' then Parsed (fs\<lparr>cf_args := args\<rparr>)
      else let body = (if s ! 1 = CHR ''-'' then drop 2 s else drop 1 s)
           in if body = [] \<or> hd body \<in> {CHR ''-'', CHR ''=''} then BadFlag ''bad flag syntax''
              else case split_flag body of (name, value) \<Rightarrow>
                if \<not> is_flag name
                then if name \<in> {''help'', ''h''} then HelpAsked else BadFlag ''flag provided but not defined''
                else if is_bool_flag name
                then (case set_flag name (case value of None \<Rightarrow> ''true'' | Some v \<Rightarrow> v) fs of
                        None \<Rightarrow> BadFlag ''invalid boolean value''
                      | Some fs' \<Rightarrow> parse_flags args fs')
                else (case value of
                        Some v \<Rightarrow>
                          (case set_flag name v fs of
                             None \<Rightarrow> BadFlag ''invalid value''
                           | Some fs' \<Rightarrow> parse_flags args fs')
                      | None \<Rightarrow>
                          (case args of
                             [] \<Rightarrow> BadFlag ''flag needs an argument''
                           | v # args' \<Rightarrow>
                               (case set_flag name v fs of
                                  None \<Rightarrow> BadFlag ''invalid value''
                                | Some fs' \<Rightarrow> parse_flags args' fs'))))"
  by pat_completeness auto
termination
  by (relation "measure (\<lambda>(args, fs). length args)") auto

declare parse_flags.simps [simp del]

end
