(* ===== verification/Console.thy ===== *)
theory Console
  imports Service Flags
begin

text \<open>
  The console tool of cmd/tlsscan/main.go, from the arguments it is given to the text it writes: the
  command line is taken apart as \<open>flag\<close> does (theory \<open>Flags\<close>), and the outcome is an exit code with
  the output.
\<close>

section \<open>Printing a result\<close>

text \<open>The verbs \<open>%d\<close> and \<open>%v\<close> for integers, booleans and string slices.\<close>

fun join_space :: "string list \<Rightarrow> string" where
  "join_space [] = []"
| "join_space [x] = x"
| "join_space (x # y # ys) = x @ '' '' @ join_space (y # ys)"

definition show_slice :: "string list \<Rightarrow> string" where
  "show_slice xs = ''['' @ join_space xs @ '']''"

definition show_grade :: "grade option \<Rightarrow> string" where
  "show_grade g = (case g of None \<Rightarrow> [] | Some g \<Rightarrow> grade_string g)"

definition print_vulns :: "vulnerabilities \<Rightarrow> string" where
  "print_vulns v =
     ''Vulns: heartbleed='' @ show_bool (v_Heartbleed v) @ '' drown='' @ show_bool (v_Drown v) @
     '' freak='' @ show_bool (v_Freak v) @ '' logjam='' @ show_bool (v_Logjam v) @
     '' poodle='' @ show_bool (v_Poodle v) @ '' beast='' @ show_bool (v_Beast v) @
     '' sweet32='' @ show_bool (v_Sweet32 v) @ '' insecure_reneg='' @ show_bool (v_InsecureRenegotiation v) @
     '' fallback_scsv_missing='' @ show_bool (v_TLSFallbackSCSV v) @ newline"

definition printText :: "result \<Rightarrow> string" where
  "printText r =
     ''Host:   '' @ r_Host r @ '':'' @ show_int (r_Port r) @ newline @
     ''Grade:  '' @ show_grade (r_Grade r) @
     (if length (r_GradeCaps r) > 0 then ''  (caps: '' @ show_slice (r_GradeCaps r) @ '')'' else []) @ newline @
     ''Rating: '' @ show_int (Numeric (r_Rating r)) @ ''/100  (proto '' @ show_int (ProtocolScore (r_Rating r)) @
     '', kx '' @ show_int (KeyExchangeScore (r_Rating r)) @ '', cipher '' @ show_int (CipherScore (r_Rating r)) @ '')'' @ newline @
     ''Protocols: TLS1.3='' @ show_bool (TLS13 (r_Protocols r)) @ '' TLS1.2='' @ show_bool (TLS12 (r_Protocols r)) @
     '' TLS1.1='' @ show_bool (TLS11 (r_Protocols r)) @ '' TLS1.0='' @ show_bool (TLS10 (r_Protocols r)) @
     '' SSL3='' @ show_bool (SSL3 (r_Protocols r)) @ '' SSL2='' @ show_bool (SSL2 (r_Protocols r)) @ newline @
     ''Forward Secrecy: '' @ show_bool (r_ForwardSecrecy r) @ newline @
     ''Certificate: valid='' @ show_bool (Valid (r_Certificate r)) @ '' expires in '' @
     show_int (DaysToExpiry (r_Certificate r)) @ '' days, '' @ KeyType (r_Certificate r) @ '' '' @
     show_int (KeyBits (r_Certificate r)) @ ''-bit, host-match='' @ show_bool (HostnameMatch (r_Certificate r)) @ newline @
     ''Ciphers: '' @ show_int (int (length (Strong (r_Ciphers r)))) @ '' strong, '' @
     show_int (int (length (Weak (r_Ciphers r)))) @ '' weak, '' @
     show_int (int (length (Insecure (r_Ciphers r)))) @ '' insecure'' @ newline @
     print_vulns (r_Vulnerabilities r) @
     (if length (r_Errors r) > 0 then ''Errors: '' @ show_slice (r_Errors r) @ newline else []) @
     ''Scanned in '' @ show_int (r_ScanDurationMs r) @ ''ms (ruleset '' @ r_RulesetVersion r @ '')'' @ newline"

section \<open>The console tool\<close>

text \<open>What \<open>flag.Usage\<close> writes: a line of its own and the defaults of the flags.\<close>

definition usage_text :: string where
  "usage_text =
     ''Usage: tlsscan [flags] <host>'' @ newline @ newline @
     concat (map (\<lambda>(flag, usage). ''  -'' @ flag @ newline @ ''    '' @ [char_of (9 :: nat)] @ usage @ newline)
       [(''json'', ''output JSON instead of text''), (''port int'', ''target port (default 443)''),
        (''timeout duration'', ''scan timeout (default 15s)''),
        (''vulns'', ''run vulnerability probes (slower)'')])"

text \<open>
  What is written: for the exit codes 1 and 2 and for help to the error stream, else to the output.
  Before the usage of a bad flag the \<open>flag\<close> package writes a line of its own, which is left out.
\<close>

datatype cli_output =
  Usage | ErrorLine guard_error | JSONText result | PlainOutput string

definition cli_options :: "cli_flags \<Rightarrow> string \<Rightarrow> options" where
  "cli_options flags host = \<lparr>Host = host, Port = cf_port flags, Timeout = cf_timeout flags,
     CheckVulns = cf_vulns flags, IPVersion = []\<rparr>"

text \<open>The exit code and the output for the arguments after the program's name; \<open>None\<close> is a crash.\<close>

definition cli_main :: "environment \<Rightarrow> string list \<Rightarrow> world \<Rightarrow> (nat \<times> cli_output) option \<times> world" where
  "cli_main env args w =
     (case parse_flags args default_flags of
        BadFlag msg \<Rightarrow> (Some (2, Usage), w)
      | HelpAsked \<Rightarrow> (Some (0, Usage), w)
      | Parsed flags \<Rightarrow>
          (case cf_args flags of
             [host] \<Rightarrow>
               (let ctx = with_timeout None (wrap64 (cf_timeout flags + 5 * second)) w
                in case Scan env ctx (cli_options flags host) w of
                     (None, w1) \<Rightarrow> (None, w1)
                   | (Some (Inl err), w1) \<Rightarrow> (Some (1, ErrorLine err), w1)
                   | (Some (Inr res), w1) \<Rightarrow>
                       (Some (0, if cf_json flags then JSONText res else PlainOutput (printText res)), w1))
           | _ \<Rightarrow> (Some (2, Usage), w)))"

definition cli_text :: "(int \<Rightarrow> string) \<Rightarrow> (bytes \<Rightarrow> string) \<Rightarrow> cli_output \<Rightarrow> string" where
  "cli_text fmt show_ip out =
     (case out of
        Usage \<Rightarrow> usage_text
      | ErrorLine err \<Rightarrow> ''error: '' @ guard_message show_ip err @ newline
      | JSONText res \<Rightarrow> indented (result_json fmt res)
      | PlainOutput s \<Rightarrow> s)"

section \<open>What the console tool shows\<close>

text \<open>
  The text output hides verdicts. It is the same whatever the ROBOT probe and the four padding-oracle
  probes found, although each of these is a critical vulnerability for the rating.
\<close>

theorem printText_hides:
  "printText (r\<lparr>r_Vulnerabilities := v\<lparr>v_Robot := b1, v_GoldenDoodle := b2, v_ZombiePoodle := b3,
      v_SleepingPoodle := b4, v_ZeroLengthPaddingCVE := b5\<rparr>\<rparr>) =
     printText (r\<lparr>r_Vulnerabilities := v\<rparr>) \<and>
   (critical (v\<lparr>v_Robot := b1, v_GoldenDoodle := b2, v_ZombiePoodle := b3, v_SleepingPoodle := b4,
      v_ZeroLengthPaddingCVE := b5\<rparr>) \<longleftrightarrow>
    v_Heartbleed v \<or> v_Drown v \<or> v_InsecureRenegotiation v \<or> b1 \<or> b2 \<or> b3 \<or> b4 \<or> b5)"
  by (cases r) (auto simp: printText_def print_vulns_def critical_def)

section \<open>Exit codes\<close>

lemma cli_options_sel [simp]:
  "Host (cli_options fs host) = host" "CheckVulns (cli_options fs host) = cf_vulns fs"
  by (simp_all add: cli_options_def)

text \<open>
  The exit codes of the console tool. It exits with 2 exactly if a flag is malformed or there is not
  exactly one argument that is none, with 1 exactly if the guard refuses the host, and with 0 and a
  report otherwise, or after the help it was asked for; the only other outcome is a crash, which needs
  \<open>-vulns\<close>. Except for the report and the crash nothing was dialled, though a name may have been looked up.
\<close>

theorem cli_status:
  "(case cli_main env args w of (out, w') \<Rightarrow>
     (case parse_flags args default_flags of
        BadFlag msg \<Rightarrow> out = Some (2, Usage) \<and> w' = w
      | HelpAsked \<Rightarrow> out = Some (0, Usage) \<and> w' = w
      | Parsed fs \<Rightarrow>
          if length (cf_args fs) \<noteq> 1 then out = Some (2, Usage) \<and> w' = w
          else (case guardTarget (e_lookupIP env) (hd (cf_args fs)) of
                  Some err \<Rightarrow> out = Some (1, ErrorLine err) \<and> w' = waited (lookup_time env (hd (cf_args fs))) w
                | None \<Rightarrow> map_option fst out = Some 0 \<or> out = None \<and> cf_vulns fs)))"
proof (cases "parse_flags args default_flags")
  case (Parsed fs)
  show ?thesis
  proof (cases "length (cf_args fs) = 1")
    case True
    then obtain host where host: "cf_args fs = [host]" by (cases "cf_args fs") auto
    let ?ctx = "with_timeout None (wrap64 (cf_timeout fs + 5 * second)) w"
    from Scan_cases [of env "cli_options fs host" ?ctx w] show ?thesis
      using Parsed host
      by (cases "Scan env ?ctx (cli_options fs host) w") (auto simp: cli_main_def Let_def)
  next
    case False
    then show ?thesis using Parsed by (auto simp: cli_main_def split: list.splits)
  qed
qed (simp_all add: cli_main_def)

text \<open>
  A timeout in the past. \<open>-timeout\<close> is not checked: with -5 seconds or less, or so much that the sum with
  5 seconds overflows, the deadline has passed when the scan starts. No dial can succeed, and
  whatever the host is, the tool exits with 0 and reports grade B, no protocol and no vulnerability.
\<close>

theorem cli_timeout_past:
  assumes "parse_flags args default_flags = Parsed fs" and "cf_args fs = [host]"
    and "guardTarget (e_lookupIP env) host = None"
    and "int64 (cf_timeout fs)" and "cf_timeout fs \<le> - 5 * second \<or> 2 ^ 63 \<le> cf_timeout fs + 5 * second"
  shows "\<exists>res. fst (cli_main env args w) =
      Some (0, if cf_json fs then JSONText res else PlainOutput (printText res)) \<and>
    r_Grade res = Some GradeB \<and> r_Protocols res = no_protocols \<and> r_Vulnerabilities res = no_vulnerabilities"
proof -
  have past: "wrap64 (cf_timeout fs + 5 * second) \<le> 0"
    using assms(5)
  proof
    assume "cf_timeout fs \<le> - 5 * second"
    show ?thesis
    proof (cases "- (2 ^ 63) \<le> cf_timeout fs + 5 * second")
      case True
      then show ?thesis using \<open>cf_timeout fs \<le> - 5 * second\<close> by (subst wrap64_id) simp_all
    next
      case False
      then show ?thesis using assms(4) by (simp add: int64_def second_def)
    qed
  next
    assume *: "2 ^ 63 \<le> cf_timeout fs + 5 * second"
    have "wrap64 (cf_timeout fs + 5 * second) = cf_timeout fs + 5 * second - 2 ^ 64"
      by (rule wrap64_above) (use * assms(4) in \<open>simp_all add: int64_def second_def\<close>)
    then show ?thesis using assms(4) by (simp add: int64_def second_def)
  qed
  let ?ctx = "with_timeout None (wrap64 (cf_timeout fs + 5 * second)) w"
  from with_timeout_some [of None "wrap64 (cf_timeout fs + 5 * second)" w] past
  have "unreachable env ?ctx (cli_options fs host) w" by (auto simp: offline_def)
  from scan_offline [OF _ this] assms(3) obtain res where
    "fst (Scan env ?ctx (cli_options fs host) w) = Some (Inr res)" "r_Grade res = Some GradeB"
      "r_Protocols res = no_protocols" "r_Vulnerabilities res = no_vulnerabilities" by auto
  then show ?thesis
    using assms(1,2) by (cases "Scan env ?ctx (cli_options fs host) w") (auto simp: cli_main_def Let_def)
qed

lemma five_seconds: "parse_duration ''-5s'' = Some (- 5000000000)"
proof -
  have "duration_part ''5s'' = Some (5000000000, [])"
    by (simp add: duration_part_def is_digit_def code_def unit_of_def read_digits_def)
  then show ?thesis by (simp add: parse_duration_def duration_parts.simps)
qed

lemma demo_args:
  assumes "length host \<noteq> 0" and "hd host \<noteq> CHR ''-''"
  shows "parse_flags [''-timeout'', ''-5s'', host] default_flags =
    Parsed (default_flags\<lparr>cf_timeout := - 5000000000, cf_args := [host]\<rparr>)"
  using assms by (simp add: parse_flags.simps split_flag_def set_flag_def five_seconds Let_def)

lemma demo_host: "length (dotted 93 184 216 34) \<noteq> 0" "hd (dotted 93 184 216 34) \<noteq> CHR ''-''"
  by code_simp+

theorem cli_timeout_past_witness:
  "\<exists>out. fst (cli_main (demo_env modern_tls) [''-timeout'', ''-5s'', dotted 93 184 216 34] (answering [])) =
     Some (0, PlainOutput out)"
  using cli_timeout_past [OF demo_args [OF demo_host], of "dotted 93 184 216 34" "demo_env modern_tls" "answering []"] demo_request_guard
  by (auto simp: default_flags_def int64_def second_def)

section \<open>The command line\<close>

lemma show_int_split:
  "show_int i = (if i < 0 then ''-'' else []) @ show_nat (nat \<bar>i\<bar>)"
  by (simp add: show_int_def)

lemma digits_read_base: "list_all is_digit ds \<Longrightarrow> read_base 10 n ds = Some (foldl (\<lambda>a c. 10 * a + (code c - 48)) n ds)"
proof (induction ds arbitrary: n)
  case (Cons c ds)
  then have "code c - 48 < 10" "is_digit c" "c \<noteq> CHR ''_''" by (auto simp: is_digit_def code_def)
  with Cons show ?case by (simp add: digit_value_def mult.commute)
qed simp

lemma digits_no_underscore: "list_all is_digit ds \<Longrightarrow> underscores_ok ok ds"
proof (induction ds arbitrary: ok)
  case (Cons c ds)
  then have "c \<noteq> CHR ''_''" by (auto simp: is_digit_def code_def)
  with Cons show ?case by simp
qed simp

lemma show_nat_parts:
  "show_nat n \<noteq> []" "hd (show_nat n) \<noteq> CHR ''-''" "hd (show_nat n) \<noteq> CHR ''+''" "hd (show_nat n) \<noteq> CHR ''=''"
  "hd (show_nat n) \<noteq> CHR ''.''"
proof -
  show ne: "show_nat n \<noteq> []" by (rule show_nat_nonempty)
  then have "is_digit (hd (show_nat n))" using show_nat_digits [of n] by (cases "show_nat n") auto
  then show "hd (show_nat n) \<noteq> CHR ''-''" "hd (show_nat n) \<noteq> CHR ''+''" "hd (show_nat n) \<noteq> CHR ''=''"
    "hd (show_nat n) \<noteq> CHR ''.''"
    by (auto simp: is_digit_def code_def)
qed

lemma parse_int0_unsigned:
  "base_prefix (show_nat n) = (if n = 0 then (8, [], True) else (10, show_nat n, False))"
proof (cases "n = 0")
  case False
  then show ?thesis using show_nat_head [of n] by (simp add: base_prefix_def)
qed (simp add: show_nat_zero base_prefix_def)

lemma parse_int0_show: "int64 i \<Longrightarrow> parse_int0 (show_int i) = Some i"
  using show_nat_digits [of "nat \<bar>i\<bar>"] show_nat_value [of "nat \<bar>i\<bar>"] show_nat_parts [of "nat \<bar>i\<bar>"]
  by (auto simp: parse_int0_def show_int_split parse_int0_unsigned Let_def digits_read_base digits_no_underscore
      read_digits_def int64_def)

lemma duration_part_ns: "n \<le> 2 ^ 63 \<Longrightarrow> duration_part (show_nat n @ ''ns'') = Some (n, [])"
proof -
  have d: "list_all is_digit (show_nat n)" by (rule show_nat_digits)
  have c: "\<not> is_digit CHR ''n''" "\<not> is_digit CHR ''s''" by (simp_all add: is_digit_def code_def)
  have "takeWhile is_digit (show_nat n @ ''ns'') = show_nat n" "dropWhile is_digit (show_nat n @ ''ns'') = ''ns''"
    using d c by (simp_all add: takeWhile_append2 dropWhile_append2 list_all_iff)
  then show "n \<le> 2 ^ 63 \<Longrightarrow> duration_part (show_nat n @ ''ns'') = Some (n, [])"
    using c show_nat_nonempty [of n] by (simp add: duration_part_def Let_def show_nat_value unit_of_def)
qed

lemma parse_duration_ns: "int64 i \<Longrightarrow> parse_duration (show_int i @ ''ns'') = Some i"
proof -
  assume i: "int64 i"
  define n where "n = nat \<bar>i\<bar>"
  have n: "n \<le> 2 ^ 63" "i < 0 \<Longrightarrow> i = - int n" "\<not> i < 0 \<Longrightarrow> i = int n" "\<not> i < 0 \<Longrightarrow> \<not> 2 ^ 63 - 1 < n"
    using i by (simp_all add: n_def int64_def) linarith
  have "duration_parts 0 (show_nat n @ ''ns'') = Some n"
    using n(1) duration_part_ns [OF n(1)] by (simp add: duration_parts.simps)
  then show ?thesis
    using n show_nat_parts [of n] by (auto simp: parse_duration_def show_int_split n_def [symmetric] Let_def)
qed

text \<open>A command line that sets every flag.\<close>

definition flag_args :: "cli_flags \<Rightarrow> string list" where
  "flag_args fs =
     [''-port='' @ show_int (cf_port fs), ''-timeout='' @ show_int (cf_timeout fs) @ ''ns'',
      ''-vulns='' @ show_bool (cf_vulns fs), ''--json='' @ show_bool (cf_json fs)] @ cf_args fs"

lemma parse_flags_value:
  assumes "is_flag name" and "list_all (\<lambda>c. c \<noteq> CHR ''='' \<and> c \<noteq> CHR ''-'') name" and "set_flag name v fs = Some fs'"
  shows "parse_flags ((''-'' @ name @ ''='' @ v) # args) fs = parse_flags args fs'"
    and "parse_flags ((''--'' @ name @ ''='' @ v) # args) fs = parse_flags args fs'"
proof -
  have ne: "name \<noteq> []" using assms(1) by auto
  have "takeWhile (\<lambda>c. c \<noteq> CHR ''='') (name @ ''='' @ v) = name"
    using assms(2) by (simp add: takeWhile_append2 list_all_iff)
  then have split: "split_flag (name @ ''='' @ v) = (name, Some v)" by (simp add: split_flag_def)
  have hd: "hd name \<noteq> CHR ''='' \<and> hd name \<noteq> CHR ''-''" using assms(2) ne by (cases name) auto
  have "parse_flags (s # args) fs = parse_flags args fs'" if "s = ''-'' @ name @ ''='' @ v \<or> s = ''--'' @ name @ ''='' @ v" for s
  proof -
    let ?b = "name @ ''='' @ v"
    have "2 \<le> length s" "hd s = CHR ''-''" "s \<noteq> ''--''" and b: "(if s ! 1 = CHR ''-'' then drop 2 s else drop 1 s) = ?b"
      using that ne hd by (cases name; auto)+
    moreover have "?b \<noteq> []" "hd ?b \<notin> {CHR ''-'', CHR ''=''}" using ne hd by auto
    ultimately show ?thesis
      by (simp only: parse_flags.simps(2) b Let_def split if_False if_True not_less prod.case option.case assms(1,3) simp_thms) simp
  qed
  then show "parse_flags ((''-'' @ name @ ''='' @ v) # args) fs = parse_flags args fs'"
    "parse_flags ((''--'' @ name @ ''='' @ v) # args) fs = parse_flags args fs'" by blast+
qed

text \<open>
  C39. Every setting can be given on the command line: for all values of the flags, and arguments that do not
  start with a flag, the command line that spells them out is parsed back to them, numbers in
  decimal and the timeout in nanoseconds.
\<close>

theorem parse_flag_args:
  assumes "int64 (cf_port fs)" and "int64 (cf_timeout fs)"
    and "cf_args fs = [] \<or> length (hd (cf_args fs)) < 2 \<or> hd (hd (cf_args fs)) \<noteq> CHR ''-''"
  shows "parse_flags (flag_args fs) defaults = Parsed fs"
proof -
  have bool: "parse_bool (show_bool b) = Some b" for b by (simp add: parse_bool_def show_bool_def)
  have "parse_flags (cf_args fs) fs' = Parsed (fs'\<lparr>cf_args := cf_args fs\<rparr>)" for fs'
    using assms(3) by (cases "cf_args fs") (auto simp: parse_flags.simps)
  then show ?thesis
    using assms(1,2)
      parse_flags_value(1) [of "''port''" "show_int (cf_port fs)" defaults]
      parse_flags_value(1) [of "''timeout''" "show_int (cf_timeout fs) @ ''ns''"]
      parse_flags_value(1) [of "''vulns''" "show_bool (cf_vulns fs)"]
      parse_flags_value(2) [of "''json''" "show_bool (cf_json fs)"]
    by (simp add: flag_args_def set_flag_def parse_int0_show parse_duration_ns bool)
qed

lemma digit_chars:
  "digit 0 = CHR ''0''" "digit (Suc 0) = CHR ''1''" "digit 5 = CHR ''5''" "digit 7 = CHR ''7''"
  by code_simp+

theorem parse_flag_args_witness:
  "parse_flags [''-port=-7'', ''-timeout=15000000000ns'', ''-vulns=true'', ''--json=false'', ''example.com''] default_flags =
     Parsed \<lparr>cf_port = - 7, cf_timeout = 15000000000, cf_vulns = True, cf_json = False, cf_args = [''example.com'']\<rparr>"
proof -
  define fs where "fs = \<lparr>cf_port = - 7, cf_timeout = 15000000000, cf_vulns = True, cf_json = False, cf_args = [''example.com'']\<rparr>"
  have "flag_args fs = [''-port=-7'', ''-timeout=15000000000ns'', ''-vulns=true'', ''--json=false'', ''example.com'']"
    by (simp add: fs_def flag_args_def show_int_def show_nat.simps digit_chars show_bool_def)
  then show ?thesis using parse_flag_args [of fs default_flags] by (simp add: fs_def int64_def)
qed

end
