(* ===== verification/History.thy ===== *)
theory History
  imports Service
begin

text \<open>
  The HTTP service over its lifetime. Requests overlap: each is served on its own goroutine, and the
  handlers share no state of the program, so a request in flight is a call of the service with its own
  view of the world, and its steps are its arrival and its end. What the service promises for a single
  request is a specification over the request and its outcome alone; the code refines it, and what
  holds of every request is an invariant of every history.
\<close>

section \<open>What a request is promised\<close>








section \<open>Histories\<close>




















end
