(* ===== verification/Quick.thy ===== *)
theory Quick
  imports Steps
begin

text \<open>
  Connections on which everything that was sent has already arrived, and the answers of a server
  that answers at once or not at all: the common part of the two model servers of theories
  \<open>CbcServer\<close> and \<open>RobotServer\<close>.
\<close>

section \<open>Connections on which everything has arrived\<close>

definition quick :: "conn \<Rightarrow> bool" where
  "quick c \<longleftrightarrow> \<not> expired (c_rdl c) (c_now c) \<and> \<not> expired (c_wdl c) (c_now c) \<and>
     list_all (\<lambda>(a, bs, eo). a \<le> c_now c \<and> eo = None \<and> bs \<noteq> []) (c_in c)"

lemma expired_mono: "\<not> expired dl t \<Longrightarrow> a \<le> t \<Longrightarrow> \<not> expired dl a"
  by (auto simp: expired_def split: option.splits)

lemma quick_clean: "quick c \<Longrightarrow> clean c"
  by (auto simp: quick_def clean_def clean_arrivals_def list_all_iff)

lemma avail_all:
  "list_all (\<lambda>(a, bs, eo). a \<le> t \<and> eo = None \<and> bs \<noteq> []) q \<Longrightarrow> \<not> expired dl t \<Longrightarrow>
     avail dl q = concat (map (\<lambda>(a, bs, eo). bs) q)"
proof (induction q)
  case (Cons x q)
  obtain a bs eo where x: "x = (a, bs, eo)" by (metis prod_cases3)
  with Cons expired_mono [of dl t a] show ?case by auto
qed simp

lemma quick_stream: "quick c \<Longrightarrow> stream c = concat (map (\<lambda>(a, bs, eo). bs) (c_in c))"
  using avail_all [of "c_now c" "c_in c" "c_rdl c"] by (simp add: quick_def stream_def)

lemma quick_empty: "quick c \<Longrightarrow> stream c = [] \<Longrightarrow> c_in c = []"
  using quick_stream [of c] by (cases "c_in c") (auto simp: quick_def)

lemma quick_conn_read:
  assumes "quick c" and "0 < n" and "conn_read n c = ((bs, None), c')"
  shows "quick c' \<and> c_now c' = c_now c \<and> c_peer c' = c_peer c \<and> c_sent c' = c_sent c"
  using assms
  by (auto simp: conn_read.simps quick_def max_def split: if_splits list.splits option.splits)

lemma quick_readFull_loop:
  "quick c \<Longrightarrow> readFull_loop n acc c = (Inr bs, c') \<Longrightarrow>
     quick c' \<and> c_now c' = c_now c \<and> c_peer c' = c_peer c \<and> c_sent c' = c_sent c"
proof (induction n acc c rule: readFull_loop.induct)
  case (1 need acc c)
  show ?case
  proof (cases "need = 0")
    case True
    with "1.prems" show ?thesis by (simp add: readFull_loop.simps)
  next
    case False
    obtain xs eo c1 where r: "conn_read need c = ((xs, eo), c1)" by (metis surj_pair)
    with False "1.prems" have eo: "eo = None"
      and rest: "readFull_loop (need - length xs) (acc @ xs) c1 = (Inr bs, c')"
      by (auto simp: readFull_loop.simps [of need] split: option.splits)
    have q: "quick c1 \<and> c_now c1 = c_now c \<and> c_peer c1 = c_peer c \<and> c_sent c1 = c_sent c"
      by (rule quick_conn_read [OF "1.prems"(1) _ r [unfolded eo]]) (use False in simp)
    from "1.IH" [OF False r [symmetric] refl eo _ rest] q show ?thesis by simp
  qed
qed

text \<open>\<open>same c c'\<close>: nothing but the bytes left to read has changed.\<close>

definition same :: "conn \<Rightarrow> conn \<Rightarrow> bool" where
  "same c c' \<longleftrightarrow> quick c' \<and> c_now c' = c_now c \<and> c_peer c' = c_peer c \<and> c_sent c' = c_sent c"

lemma same_trans [trans]: "same a b \<Longrightarrow> same b c \<Longrightarrow> same a c"
  by (simp add: same_def)

lemma same_quick: "same c c' \<Longrightarrow> quick c'"
  by (simp add: same_def)

lemma quick_readFull: "quick c \<Longrightarrow> readFull n c = (Inr bs, c') \<Longrightarrow> same c c'"
  using quick_readFull_loop by (simp add: readFull_def same_def)

lemma quick_header: "quick c \<Longrightarrow> readRecordHeader c = (Inr h, c') \<Longrightarrow> same c c'"
  by (auto simp: readRecordHeader_def split: prod.splits sum.splits dest: quick_readFull)

lemma quick_payload:
  assumes "quick c" and "next_payload c = (Payload p, c')"
  shows "same c c'"
proof -
  from assms(2) obtain h l c1 where h: "readRecordHeader c = (Inr h, c1)" and r: "readFull l c1 = (Inr p, c')"
    by (auto simp: next_payload_def split: prod.splits sum.splits if_splits)
  note s = quick_header [OF assms(1) h]
  then show ?thesis using quick_readFull [OF same_quick [OF s] r] by (rule same_trans)
qed

lemma quick_hs_next: "quick c \<Longrightarrow> hs_next buf c = (Inr m, buf', c') \<Longrightarrow> same c c'"
proof (induction buf c rule: hs_next.induct)
  case (1 buf c)
  show ?case
  proof (cases "complete_msg buf")
    case True
    with "1.prems" show ?thesis by (simp add: hs_next_complete same_def)
  next
    case False
    from "1.prems" False obtain p c1 where
      f: "next_payload c = (Payload p, c1)" and n: "\<not> length (buf @ p) > 2 ^ 18"
      and rest: "hs_next (buf @ p) c1 = (Inr m, buf', c')"
      by (auto simp: hs_next.simps [of buf] split: if_splits fill.splits prod.splits)
    note s = quick_payload [OF "1.prems"(1) f]
    from "1.IH" [OF False f [symmetric] refl n same_quick [OF s] rest] s show ?thesis by (rule same_trans [rotated])
  qed
qed

text \<open>Segments without delay or error, and a write that makes the peer send them.\<close>

definition at_once :: "bytes \<Rightarrow> seg list" where
  "at_once bs = [\<lparr>sg_delay = 0, sg_data = bs, sg_err = None\<rparr>]"

lemma quick_write:
  assumes "quick c" and "p_werr (c_peer c) (c_sent c @ [bs]) = None"
    and "p_react (c_peer c) (c_sent c @ [bs]) = (if out = [] then [] else at_once out)"
  shows "\<exists>c'. conn_write bs c = (None, c') \<and> quick c' \<and> c_now c' = c_now c \<and> c_peer c' = c_peer c \<and>
    c_sent c' = c_sent c @ [bs] \<and> stream c' = stream c @ out"
proof -
  define c' where "c' = c\<lparr>c_sent := c_sent c @ [bs], c_in := c_in c @ enqueue (c_now c) (p_react (c_peer c) (c_sent c @ [bs]))\<rparr>"
  have w: "conn_write bs c = (None, c')"
    using assms(1,2) by (simp add: conn_write_def quick_def c'_def Let_def)
  have q: "quick c'" using assms(1,3) by (simp add: quick_def c'_def enqueue_def at_once_def)
  have "stream c' = stream c @ out"
    unfolding quick_stream [OF q] quick_stream [OF assms(1)]
    by (simp add: c'_def assms(3) enqueue_def at_once_def)
  with w q show ?thesis by (intro exI [of _ c']) (simp add: c'_def)
qed

lemma quick_read_deadline:
  "quick c \<Longrightarrow> 0 < d \<Longrightarrow> quick (set_read_deadline d c) \<and> stream (set_read_deadline d c) = stream c"
  using quick_stream [of c] quick_stream [of "set_read_deadline d c"]
  by (simp add: quick_def set_read_deadline_def expired_def)

section \<open>Answers\<close>

text \<open>
  What a server does with a record that ends an exchange: answer with data, send an alert whose
  fragment is two bytes, close or reset the connection, or say nothing.
\<close>

datatype answer = Answers | Alerts byte byte | Closes | Resets | Silent

definition err_reset :: net_err where
  "err_reset = \<lparr>ne_timeout = False, ne_msg = ''read: connection reset by peer''\<rparr>"

definition failing :: "net_err \<Rightarrow> seg list" where
  "failing e = [\<lparr>sg_delay = 0, sg_data = [], sg_err = Some e\<rparr>]"

text \<open>The fragment of an encrypted record, which no probe looks into.\<close>

definition server_secret :: bytes where
  "server_secret = replicate 64 0"

fun answer_segs :: "answer \<Rightarrow> seg list" where
  "answer_segs Answers = at_once (wrapTLS12Record recordApplicationData server_secret)"
| "answer_segs (Alerts l d) = at_once (wrapTLS12Record recordAlert [l, d])"
| "answer_segs Closes = failing err_eof"
| "answer_segs Resets = failing err_reset"
| "answer_segs Silent = []"

text \<open>The write that ends an exchange, and the state it leaves behind.\<close>

definition answered :: "bytes \<Rightarrow> answer \<Rightarrow> conn \<Rightarrow> conn" where
  "answered bs a c = c\<lparr>c_sent := c_sent c @ [bs], c_in := enqueue (c_now c) (answer_segs a)\<rparr>"

lemma answered_write:
  assumes "quick c" and "stream c = []" and "p_werr (c_peer c) (c_sent c @ [bs]) = None"
    and "p_react (c_peer c) (c_sent c @ [bs]) = answer_segs a"
  shows "conn_write bs c = (None, answered bs a c)"
  using assms quick_empty [OF assms(1,2)]
  by (simp add: conn_write_def quick_def answered_def Let_def)

lemma answered_now [simp]: "c_now (answered bs a c) = c_now c"
  by (simp add: answered_def)

text \<open>What the header of the answer reads as, with the deadline that is set before it is read.\<close>

lemma failing_header:
  assumes "c_in c = enqueue (c_now c) (failing e)" and "0 < t"
  shows "\<exists>c'. readRecordHeader (set_read_deadline t c) = (Inl e, c') \<and> c_now c' = c_now c"
  using assms
  by (simp add: readRecordHeader_def readFull_def readFull_loop.simps conn_read.simps
      set_read_deadline_def expired_def enqueue_def failing_def)

lemma silent_header:
  assumes "c_in c = []" and "0 < t"
  shows "\<exists>c'. readRecordHeader (set_read_deadline t c) = (Inl err_timeout, c') \<and> c_now c' = c_now c + t"
  using assms
  by (simp add: readRecordHeader_def readFull_def readFull_loop.simps conn_read.simps
      set_read_deadline_def expired_def)

lemma record_header:
  assumes "quick c" and "c_in c = enqueue (c_now c) (at_once (wrapTLS12Record ct frag))" and "0 < t"
    and "length frag < 65536"
  shows "\<exists>c1 c2. readRecordHeader (set_read_deadline t c) = (Inr (ct, versionTLS12, length frag), c1) \<and>
    readFull (length frag) c1 = (Inr frag, c2) \<and> c_now c1 = c_now c \<and> c_now c2 = c_now c"
proof -
  let ?c = "set_read_deadline t c"
  have "stream c = wrapTLS12Record ct frag"
    unfolding quick_stream [OF assms(1)] assms(2) by (simp add: enqueue_def at_once_def)
  then have q: "quick ?c" and st: "stream ?c = wrapTLS12Record ct frag @ []"
    using quick_read_deadline [OF assms(1,3)] by simp_all
  from tls12_record.read_wrapped [OF quick_clean [OF q] st assms(4)] obtain c1 c2 where
    1: "readRecordHeader ?c = (Inr (ct, versionTLS12, length frag), c1)" and
    2: "readFull (length frag) c1 = (Inr frag, c2)" by blast
  note s1 = quick_header [OF q 1]
  with 1 2 quick_readFull [OF same_quick [OF s1] 2] show ?thesis
    by (intro exI [of _ c1] exI [of _ c2]) (simp add: same_def)
qed

lemma answered_in: "c_in (answered bs a c) = enqueue (c_now (answered bs a c)) (answer_segs a)"
  by (simp add: answered_def)

lemma answered_quick:
  "quick c \<Longrightarrow> a = Answers \<or> (\<exists>l d. a = Alerts l d) \<Longrightarrow> quick (answered bs a c)"
  by (auto simp: answered_def quick_def enqueue_def at_once_def wrapTLS12Record_def)

text \<open>
  A reader that maps the header of the answer to what it makes of it sees exactly the answer: one
  reaction for each, and a silent server costs the time-out.
\<close>

lemma answered_read:
  assumes "quick c" and "0 < t"
  shows "case a of
      Answers \<Rightarrow> \<exists>c1. readRecordHeader (set_read_deadline t (answered bs a c)) =
        (Inr (recordApplicationData, versionTLS12, 64), c1) \<and> c_now c1 = c_now c
    | Alerts l d \<Rightarrow> \<exists>c1 c2. readRecordHeader (set_read_deadline t (answered bs a c)) =
        (Inr (recordAlert, versionTLS12, 2), c1) \<and> readFull 2 c1 = (Inr [l, d], c2) \<and> c_now c2 = c_now c
    | Closes \<Rightarrow> \<exists>c1. readRecordHeader (set_read_deadline t (answered bs a c)) = (Inl err_eof, c1) \<and> c_now c1 = c_now c
    | Resets \<Rightarrow> \<exists>c1. readRecordHeader (set_read_deadline t (answered bs a c)) = (Inl err_reset, c1) \<and> c_now c1 = c_now c
    | Silent \<Rightarrow> \<exists>c1. readRecordHeader (set_read_deadline t (answered bs a c)) =
        (Inl err_timeout, c1) \<and> c_now c1 = c_now c + t"
proof (cases a)
  case Answers
  have l: "length server_secret = 64" by (simp add: server_secret_def)
  show ?thesis
    using record_header [of "answered bs a c" recordApplicationData server_secret t] answered_in [of bs a c]
      answered_quick [OF assms(1), of a bs] assms(2) Answers l by auto
next
  case (Alerts x y)
  show ?thesis
    using record_header [of "answered bs a c" recordAlert "[x, y]" t] answered_in [of bs a c]
      answered_quick [OF assms(1), of a bs] assms(2) Alerts by (auto simp: numeral_2_eq_2)
next
  case Closes
  then show ?thesis using failing_header [of "answered bs a c" err_eof t] answered_in [of bs a c] assms(2) by auto
next
  case Resets
  then show ?thesis using failing_header [of "answered bs a c" err_reset t] answered_in [of bs a c] assms(2) by auto
next
  case Silent
  then show ?thesis
    using silent_header [of "answered bs a c" t] answered_in [of bs a c] assms(2) by (auto simp: enqueue_def)
qed

end
