(* ===== verification/CbcServer.thy ===== *)
theory CbcServer
  imports CbcOracle Quick
begin

text \<open>
  A TLS 1.2 server as an environment of the padding-oracle probe, and what the probe reports about
  it. The server negotiates any of the probe's suites, agrees on the premaster secret by RSA or by
  ECDHE, verifies the client's Finished, decrypts the crafted record and answers it as its policy says
  for what it found: a record that is valid, has a wrong MAC or has invalid padding.

  Assumed are only that crypto/rsa or crypto/ecdh does what it documents, so that both sides compute the
  same premaster secret, that crypto/rand does not fail, and that the server answers at once. The random
  bytes, the server's random, certificate and messages, and how its flight is cut into records are
  arbitrary; PRF, keys, transcript hash, MAC and encryption are computed.
\<close>

section \<open>The server\<close>

text \<open>
  What a server is: the suite it selects, the rest of its ServerHello, its certificate, its half of an
  ECDHE exchange, what it computes from the body of a ClientKeyExchange, the records of its flight and
  the fragment of its encrypted Finished.
\<close>

record cbc_host =
  ch_suite :: nat
  ch_random :: bytes
  ch_session_id :: bytes
  ch_extensions :: bytes
  ch_cert :: bytes
  ch_curve :: nat
  ch_point :: bytes
  ch_signature :: bytes
  ch_premaster :: "bytes \<Rightarrow> bytes"
  ch_records :: "(nat \<times> bytes) list"
  ch_finished :: bytes

definition host_params :: "cbc_host \<Rightarrow> cbcCipherParams" where
  "host_params srv = the (paramsForSuite (ch_suite srv))"

definition host_hello :: "cbc_host \<Rightarrow> bytes" where
  "host_hello srv =
     server_hello_body 0x0303 (ch_random srv) (ch_session_id srv) (ch_suite srv) (ch_extensions srv)"

definition host_ske :: "cbc_host \<Rightarrow> (byte \<times> bytes) list" where
  "host_ske srv =
     (if cp_ecdhe (host_params srv)
      then [(handshakeServerKeyExchange, ecdhe_ske_body (ch_curve srv) (ch_point srv) (ch_signature srv))] else [])"

definition host_messages :: "cbc_host \<Rightarrow> (byte \<times> bytes) list" where
  "host_messages srv =
     [(handshakeServerHello, host_hello srv), (handshakeCertificate, cert_body [ch_cert srv])] @ host_ske srv @
     [(handshakeServerHelloDone, [])]"

text \<open>The fields have the sizes of TLS, and the records carry the messages, cut anyhow.\<close>

definition proper_host :: "cbc_host \<Rightarrow> bool" where
  "proper_host srv \<longleftrightarrow> paramsForSuite (ch_suite srv) \<noteq> None \<and> length (ch_random srv) = 32 \<and>
     length (ch_session_id srv) < 256 \<and> ch_cert srv \<noteq> [] \<and> ch_curve srv < 65536 \<and> length (ch_point srv) < 256 \<and>
     wf_flight (ch_records srv) \<and> payloads (ch_records srv) = hs_bytes (host_messages srv) \<and>
     length (hs_bytes (host_messages srv)) \<le> 2 ^ 18 \<and> ch_finished srv \<noteq> [] \<and> length (ch_finished srv) < 65536"

text \<open>
  The contract of the key exchange: encryption under the certificate's RSA key succeeds for a premaster
  secret of 48 bytes and the server decrypts it; a key pair can be generated, the server's point is on
  the curve, and both sides of ECDH share the same secret.
\<close>

definition key_agreement :: "kex_lib \<Rightarrow> (bytes \<Rightarrow> rsa_key option) \<Rightarrow> cbc_host \<Rightarrow> bool" where
  "key_agreement lib x509 srv \<longleftrightarrow>
     (if cp_ecdhe (host_params srv)
      then \<exists>curve. ecdhCurve (ch_curve srv) = Some curve \<and> ec_valid lib curve (ch_point srv) \<and>
             (\<forall>r. \<exists>priv. ec_generate lib curve r = Some priv \<and>
                ec_shared lib curve priv (ch_point srv) =
                  Some (ch_premaster srv (of_nat (length (ec_point lib curve priv)) # ec_point lib curve priv)))
      else \<exists>pub. x509 (ch_cert srv) = Some pub \<and>
             (\<forall>r pms. length pms = 48 \<longrightarrow>
                (\<exists>ct. rsa_encrypt lib pub r pms = Some ct \<and> ch_premaster srv (put16 (length ct) @ ct) = pms)))"

text \<open>What the server derives from the client's hello and its ClientKeyExchange.\<close>

definition client_random_in :: "bytes list \<Rightarrow> bytes" where
  "client_random_in sent = take 32 (drop 11 (sent ! 0))"

definition server_master :: "cbc_host \<Rightarrow> bytes list \<Rightarrow> bytes" where
  "server_master srv sent =
     master_secret (ch_premaster srv (drop 9 (sent ! 1))) (client_random_in sent) (ch_random srv)"

definition server_session :: "cbc_host \<Rightarrow> bytes list \<Rightarrow> cbcSession" where
  "server_session srv sent =
     derive_session (host_params srv) (server_master srv sent) (client_random_in sent) (ch_random srv)"

definition expected_finished :: "cbc_host \<Rightarrow> bytes list \<Rightarrow> bytes" where
  "expected_finished srv sent =
     finished_message (server_master srv sent)
       (drop 5 (sent ! 0) @ hs_bytes (host_messages srv) @ drop 5 (sent ! 1))"

text \<open>The policy says what the server does with a record, by its own verdict about it.\<close>

type_synonym policy = "verdict \<Rightarrow> answer"

definition host_accepts :: "cbc_host \<Rightarrow> bytes" where
  "host_accepts srv = wrapTLS12Record recordChangeCipherSpec [0x01] @ wrapTLS12Record recordHandshake (ch_finished srv)"

definition server_peer :: "policy \<Rightarrow> cbc_host \<Rightarrow> peer" where
  "server_peer policy srv =
     \<lparr>p_werr = (\<lambda>_. None),
      p_react = (\<lambda>sent.
        if length sent = 1 then at_once (flight (ch_records srv))
        else if length sent = 4
        then if received (server_session srv sent) recordHandshake (sent ! 3) = Genuine (expected_finished srv sent)
             then at_once (host_accepts srv)
             else failing err_eof
        else if length sent = 5
        then answer_segs (policy (received ((server_session srv sent)\<lparr>clientSeq := 1\<rparr>) recordApplicationData (sent ! 4)))
        else [])\<rparr>"

text \<open>A network on which every dial meets this server; the policy may differ from one connection to the next.\<close>

type_synonym policies = "nat \<Rightarrow> policy"

definition facing :: "policies \<Rightarrow> cbc_host \<Rightarrow> world \<Rightarrow> world" where
  "facing pols srv w = w\<lparr>w_net := \<lambda>k. Accepted 0 (server_peer (pols k) srv)\<rparr>"

text \<open>The world with its random source \<open>f\<close>, of which \<open>n\<close> draws are used, after \<open>m\<close> dials.\<close>

definition serves :: "policies \<Rightarrow> cbc_host \<Rightarrow> (nat \<Rightarrow> (nat \<Rightarrow> byte) option) \<Rightarrow> nat \<Rightarrow> nat \<Rightarrow> world \<Rightarrow> bool" where
  "serves pols srv f n m w \<longleftrightarrow> w_net w = (\<lambda>k. Accepted 0 (server_peer (pols k) srv)) \<and>
     w_rand w = f \<and> w_rands w = n \<and> w_dials w = m"

lemma serves_facing: "serves pols srv (w_rand w) (w_rands w) (w_dials w) (facing pols srv w)"
  by (simp add: serves_def facing_def)

lemma facing_now [simp]: "w_now (facing pols srv w) = w_now w"
  by (simp add: facing_def)

section \<open>The client's side\<close>

text \<open>The bytes of a draw, and the premaster secret with the body of ClientKeyExchange.\<close>

definition drawn :: "(nat \<Rightarrow> (nat \<Rightarrow> byte) option) \<Rightarrow> nat \<Rightarrow> nat \<Rightarrow> bytes" where
  "drawn f n k = map (the (f n)) [0..<k]"

lemma length_drawn [simp]: "length (drawn f n k) = k"
  by (simp add: drawn_def)

definition agreed :: "kex_lib \<Rightarrow> (bytes \<Rightarrow> rsa_key option) \<Rightarrow> cbc_host \<Rightarrow> (nat \<Rightarrow> (nat \<Rightarrow> byte) option) \<Rightarrow> nat \<Rightarrow>
    bytes \<times> bytes" where
  "agreed lib x509 srv f n =
     (if cp_ecdhe (host_params srv)
      then let curve = the (ecdhCurve (ch_curve srv));
               priv = the (ec_generate lib curve (the (f n)));
               point = ec_point lib curve priv
           in (the (ec_shared lib curve priv (ch_point srv)), of_nat (length point) # point)
      else let pms = [0x03, 0x03] @ drawn f n 46;
               ct = the (rsa_encrypt lib (the (x509 (ch_cert srv))) (the (f (n + 1))) pms)
           in (pms, put16 (length ct) @ ct))"

definition kex_cost :: "cbc_host \<Rightarrow> nat" where
  "kex_cost srv = (if cp_ecdhe (host_params srv) then 1 else 2)"

definition client_session ::
  "kex_lib \<Rightarrow> (bytes \<Rightarrow> rsa_key option) \<Rightarrow> cbc_host \<Rightarrow> (nat \<Rightarrow> (nat \<Rightarrow> byte) option) \<Rightarrow> nat \<Rightarrow> cbcSession" where
  "client_session lib x509 srv f n =
     (derive_session (host_params srv)
        (master_secret (fst (agreed lib x509 srv f (n + 1))) (drawn f n 32) (ch_random srv)) (drawn f n 32) (ch_random srv))
     \<lparr>clientSeq := 1, serverSeq := 1\<rparr>"

lemma host_params_wf: "proper_host srv \<Longrightarrow> wf_params (host_params srv)"
  by (auto simp: proper_host_def host_params_def intro: paramsForSuite_wf)

lemma client_session_wf: "proper_host srv \<Longrightarrow> wf_session (client_session lib x509 srv f n)"
  using derive_session_wf [OF host_params_wf [of srv]] by (simp add: client_session_def wf_session_def)

section \<open>Running the handshake\<close>

lemma serves_rand:
  assumes "serves pols srv f n m w" and "\<forall>i. f i \<noteq> None"
  shows "\<exists>w1. random k c w = (Some (Some (drawn f n k)), c, w1) \<and> serves pols srv f (Suc n) m w1 \<and> w_now w1 = w_now w"
    and "\<exists>w1. rand_stream c w = (Some (Some (the (f n))), c, w1) \<and> serves pols srv f (Suc n) m w1 \<and> w_now w1 = w_now w"
proof -
  obtain r where "f n = Some r" using assms(2) by blast
  then show "\<exists>w1. random k c w = (Some (Some (drawn f n k)), c, w1) \<and> serves pols srv f (Suc n) m w1 \<and> w_now w1 = w_now w"
    and "\<exists>w1. rand_stream c w = (Some (Some (the (f n))), c, w1) \<and> serves pols srv f (Suc n) m w1 \<and> w_now w1 = w_now w"
    using assms(1) by (auto simp: serves_def random_def rand_read_def rand_stream_def drawn_def)
qed

lemma hello_random: "length rnd = 32 \<Longrightarrow> take 32 (drop 11 (cbcClientHello host rnd)) = rnd"
  by (simp add: cbcClientHello_def wrapTLS12Record_def wrapHandshake_def put16_def put24_def Let_def)

lemma cke_body: "drop 9 (wrapTLS12Record recordHandshake (wrapHandshake handshakeClientKeyExchange body)) = body"
  by (simp add: wrapTLS12Record_def wrapHandshake_def put16_def put24_def)

lemma drop5_record: "drop 5 (wrapTLS12Record t body) = body"
  by (rule tls12_record.header_of_wrap(4))

text \<open>Reading the server's flight, message by message.\<close>

lemma messages_small: "(t, body) \<in> set ms \<Longrightarrow> length body \<le> length (hs_bytes ms)"
  by (induction ms) (auto simp: hs_bytes_def)

lemma flight_in_order:
  assumes "quick c" and "stream c = flight (ch_records srv)" and "proper_host srv"
  shows "\<exists>b1 c1 b2 c2 b3 c3 c4.
    hs_next [] c = (Inr (handshakeServerHello, wrapHandshake handshakeServerHello (host_hello srv)), b1, c1) \<and>
    hs_next b1 c1 = (Inr (handshakeCertificate, wrapHandshake handshakeCertificate (cert_body [ch_cert srv])), b2, c2) \<and>
    hs_nexts (length (host_ske srv)) b2 c2 = Some (map (\<lambda>(t, body). (t, wrapHandshake t body)) (host_ske srv), b3, c3) \<and>
    (\<forall>tr. skip_flight b3 tr c3 = (Some (tr @ wrapHandshake handshakeServerHelloDone []), c4)) \<and>
    same c c4 \<and> stream c4 = []"
proof -
  let ?ms = "host_messages srv" and ?rs = "ch_records srv"
  have wf: "wf_flight ?rs" and p: "[] @ payloads ?rs = hs_bytes ?ms @ []" and sz: "length ([] @ payloads ?rs) \<le> 2 ^ 18"
    using assms(3) by (simp_all add: proper_host_def)
  have small: "list_all (\<lambda>m. length (snd m) < 16777216) ?ms"
  proof (unfold list_all_iff, rule ballI)
    fix m assume "m \<in> set ?ms"
    then have "length (snd m) \<le> 2 ^ 18" using messages_small [of "fst m" "snd m" ?ms] p sz by simp
    then show "length (snd m) < 16777216" by simp
  qed
  have s: "stream c = flight ?rs @ []" using assms(2) by simp
  from hs_nexts_flight [OF quick_clean [OF assms(1)] s wf p small sz] obtain buf' rs' c4 where
    n: "hs_nexts (length ?ms) [] c = Some (map (\<lambda>(t, body). (t, wrapHandshake t body)) ?ms, buf', c4)"
    and c4: "stream c4 = flight rs' @ []" "wf_flight rs'" "buf' @ payloads rs' = []"
    by (elim exE conjE) (rule that)
  have rs': "rs' = []" using c4(2,3) by (cases rs') auto
  have len: "length ?ms = Suc (Suc (length (host_ske srv) + 1))" by (simp add: host_messages_def)
  from n obtain b1 c1 b2 c2 where
    h: "hs_next [] c = (Inr (handshakeServerHello, wrapHandshake handshakeServerHello (host_hello srv)), b1, c1)"
       "hs_next b1 c1 = (Inr (handshakeCertificate, wrapHandshake handshakeCertificate (cert_body [ch_cert srv])), b2, c2)"
       "hs_nexts (length (host_ske srv) + 1) b2 c2 =
         Some (map (\<lambda>(t, body). (t, wrapHandshake t body)) (host_ske srv) @
           [(handshakeServerHelloDone, wrapHandshake handshakeServerHelloDone [])], buf', c4)"
    unfolding len by (auto simp: host_messages_def split: prod.splits sum.splits)
  obtain b3 c3 where
    k: "hs_nexts (length (host_ske srv)) b2 c2 = Some (map (\<lambda>(t, body). (t, wrapHandshake t body)) (host_ske srv), b3, c3)"
       "hs_next b3 c3 = (Inr (handshakeServerHelloDone, wrapHandshake handshakeServerHelloDone []), buf', c4)"
    using h(3) by (auto simp: host_ske_def split: prod.splits sum.splits if_splits)
  have "skip_flight b3 tr c3 = (Some (tr @ wrapHandshake handshakeServerHelloDone []), c4)" for tr
    by (subst skip_flight.simps) (simp add: k(2) [simplified])
  moreover have "same c c4"
  proof -
    have "same c c1" by (rule quick_hs_next [OF assms(1) h(1)])
    then have "same c c2" using quick_hs_next [OF same_quick h(2)] same_trans by blast
    moreover have "same c2 c3" if "same c c2"
      using k(1) that quick_hs_next [of c2] same_quick [OF that]
      by (auto simp: host_ske_def same_def split: prod.splits sum.splits if_splits)
    ultimately show ?thesis using quick_hs_next [OF same_quick k(2)] same_trans by blast
  qed
  ultimately show ?thesis using h(1,2) k(1) c4(1) rs' by auto
qed

text \<open>The key exchange, from either side.\<close>

lemma kex_run:
  assumes "serves pols srv f n m w" and "\<forall>i. f i \<noteq> None" and "proper_host srv" and "key_agreement lib x509 srv"
    and "hs_nexts (length (host_ske srv)) b2 c2 = Some (map (\<lambda>(t, body). (t, wrapHandshake t body)) (host_ske srv), b3, c3)"
  shows "\<exists>w1. cbc_key_exchange lib (host_params srv) (x509 (ch_cert srv)) b2 tr c2 w =
      (Some (Some (fst (agreed lib x509 srv f n), snd (agreed lib x509 srv f n), tr @ hs_bytes (host_ske srv), b3)), c3, w1) \<and>
      ch_premaster srv (snd (agreed lib x509 srv f n)) = fst (agreed lib x509 srv f n) \<and>
      serves pols srv f (n + kex_cost srv) m w1 \<and> w_now w1 = w_now w"
proof (cases "cp_ecdhe (host_params srv)")
  case True
  let ?ske = "wrapHandshake handshakeServerKeyExchange (ecdhe_ske_body (ch_curve srv) (ch_point srv) (ch_signature srv))"
  have p: "parseECDHEServerKeyExchange ?ske = Some (Some (ch_curve srv, ch_point srv))"
    using parse_built [of "replicate 32 0" "[]" 0 "ch_point srv" "ch_curve srv" 0 "[]" "ch_signature srv"] assms(3)
    by (simp add: proper_host_def)
  have msg: "message b2 c2 w = (Some (Some (handshakeServerKeyExchange, ?ske, b3)), c3, w)"
    using assms(5) True by (auto simp: host_ske_def message_def split: prod.splits sum.splits)
  obtain w1 where r: "rand_stream c3 w = (Some (Some (the (f n))), c3, w1)" "serves pols srv f (Suc n) m w1" "w_now w1 = w_now w"
    using serves_rand(2) [OF assms(1,2)] by blast
  from assms(4) True obtain curve priv where
    k: "ecdhCurve (ch_curve srv) = Some curve" "ec_valid lib curve (ch_point srv)"
      "ec_generate lib curve (the (f n)) = Some priv"
      "ec_shared lib curve priv (ch_point srv) =
        Some (ch_premaster srv (of_nat (length (ec_point lib curve priv)) # ec_point lib curve priv))"
    unfolding key_agreement_def if_P [OF True] by blast
  have "cbc_key_exchange lib (host_params srv) (x509 (ch_cert srv)) b2 tr c2 w =
      (Some (Some (fst (agreed lib x509 srv f n), snd (agreed lib x509 srv f n), tr @ hs_bytes (host_ske srv), b3)), c3, w1)"
    unfolding cbc_key_exchange_def agreed_def host_ske_def if_P [OF True]
    by (simp add: andThen_def msg [simplified] require_def needed_def parsed_def p [simplified] k r(1) result_def Let_def hs_bytes_def)
  then show ?thesis using r(2,3) k True by (simp add: agreed_def kex_cost_def Let_def)
next
  case False
  define pms where "pms = [0x03, 0x03] @ drawn f n 46"
  have lp: "length pms = 48" by (simp add: pms_def)
  obtain w1 where r: "random 46 c2 w = (Some (Some (drawn f n 46)), c2, w1)" "serves pols srv f (Suc n) m w1" "w_now w1 = w_now w"
    using serves_rand(1) [OF assms(1,2)] by blast
  obtain w2 where rs: "rand_stream c2 w1 = (Some (Some (the (f (Suc n)))), c2, w2)" "serves pols srv f (Suc (Suc n)) m w2"
    "w_now w2 = w_now w1" using serves_rand(2) [OF r(2) assms(2)] by blast
  from assms(4) False obtain pub where pub: "x509 (ch_cert srv) = Some pub"
    and all: "\<And>r pms. length pms = 48 \<Longrightarrow>
      \<exists>ct. rsa_encrypt lib pub r pms = Some ct \<and> ch_premaster srv (put16 (length ct) @ ct) = pms"
    unfolding key_agreement_def by auto
  from all [OF lp, of "the (f (Suc n))"] obtain ct where
    ct: "rsa_encrypt lib pub (the (f (Suc n))) pms = Some ct" "ch_premaster srv (put16 (length ct) @ ct) = pms" by blast
  have a: "agreed lib x509 srv f n = (pms, put16 (length ct) @ ct)"
    using ct(1) by (simp add: agreed_def False pub Let_def pms_def [symmetric] del: append_Cons)
  have b: "b3 = b2" "c3 = c2" "host_ske srv = []" using assms(5) False by (simp_all add: host_ske_def)
  have "cbc_key_exchange lib (host_params srv) (x509 (ch_cert srv)) b2 tr c2 w =
      (Some (Some (pms, put16 (length ct) @ ct, tr, b2)), c2, w2)"
    using ct(1) unfolding cbc_key_exchange_def pms_def
    by (simp add: False pub andThen_def needed_def parsed_def r(1) rs(1) result_def Let_def)
  then show ?thesis using ct(2) rs(2,3) r(3) a b False by (simp add: kex_cost_def hs_bytes_def)
qed

text \<open>Reading the server's ChangeCipherSpec and Finished.\<close>

lemma expect_run:
  assumes "quick c" and "0 < per" and "proper_host srv" and "stream c = host_accepts srv"
  shows "\<exists>c'. expectServerFinished per s c = (Some (s\<lparr>serverSeq := serverSeq s + 1\<rparr>), c') \<and> same c c' \<and> stream c' = []"
proof -
  let ?c = "set_read_deadline per c"
  have len: "length (ch_finished srv) < 65536" using assms(3) by (simp add: proper_host_def)
  have q: "quick ?c" using quick_read_deadline [OF assms(1,2)] by simp
  have st: "stream ?c = wrapTLS12Record recordChangeCipherSpec [0x01] @ (wrapTLS12Record recordHandshake (ch_finished srv) @ [])"
    using quick_read_deadline [OF assms(1,2)] assms(4) by (simp add: host_accepts_def)
  from tls12_record.read_wrapped [OF quick_clean [OF q] st] obtain c1 c2 where
    1: "readRecordHeader ?c = (Inr (recordChangeCipherSpec, versionTLS12, 1), c1)" "readFull 1 c1 = (Inr [0x01], c2)"
       "stream c2 = wrapTLS12Record recordHandshake (ch_finished srv) @ []"
    by auto
  note s1 = quick_header [OF q 1(1)]
  note s2 = quick_readFull [OF same_quick [OF s1] 1(2)]
  from tls12_record.read_wrapped [OF quick_clean [OF same_quick [OF s2]] 1(3) len] obtain c3 c4 where
    2: "readRecordHeader c2 = (Inr (recordHandshake, versionTLS12, length (ch_finished srv)), c3)"
       "readFull (length (ch_finished srv)) c3 = (Inr (ch_finished srv), c4)" "stream c4 = []" by auto
  note s3 = quick_header [OF same_quick [OF s2] 2(1)]
  note s4 = quick_readFull [OF same_quick [OF s3] 2(2)]
  have "expectServerFinished_loop (Suc (Suc n)) False s ?c = (Some (s\<lparr>serverSeq := serverSeq s + 1\<rparr>), c4)" for n
    using 1(1,2) 2(1,2) len by simp
  from this [of 4] have "expectServerFinished per s c = (Some (s\<lparr>serverSeq := serverSeq s + 1\<rparr>), c4)"
    by (simp add: expectServerFinished_def)
  moreover have "same ?c c4" using s1 s2 s3 s4 by (meson same_trans)
  then have "same c c4" by (simp add: same_def)
  ultimately show ?thesis using 2(3) by blast
qed

lemma send_run:
  assumes "quick c" and "c_peer c = server_peer pol srv"
    and "p_react (server_peer pol srv) (c_sent c @ [bs]) = (if out = [] then [] else at_once out)"
  shows "\<exists>c'. send bs c w = (Some (Some ()), c', w) \<and> quick c' \<and> c_now c' = c_now c \<and>
    c_peer c' = server_peer pol srv \<and> c_sent c' = c_sent c @ [bs] \<and> stream c' = stream c @ out"
proof -
  have "p_werr (c_peer c) (c_sent c @ [bs]) = None" by (simp add: assms(2) server_peer_def)
  from quick_write [OF assms(1) this, of out] assms(2,3) obtain c' where
    "conn_write bs c = (None, c') \<and> quick c' \<and> c_now c' = c_now c \<and> c_peer c' = c_peer c \<and>
     c_sent c' = c_sent c @ [bs] \<and> stream c' = stream c @ out" by auto
  then show ?thesis using assms(2) by (intro exI [of _ c']) (simp add: send_def)
qed

lemma encrypted_run:
  assumes "wf_session s" and "serves pols srv f n m w" and "\<forall>i. f i \<noteq> None"
  shows "\<exists>r w1. encrypted s t pt c w = (Some (Some r), c, w1) \<and> encryptRecord s t pt w = (Some r, w1) \<and>
    serves pols srv f (Suc n) m w1 \<and> w_now w1 = w_now w"
proof -
  obtain g where "w_rand w (w_rands w) = Some g" using assms(2,3) unfolding serves_def by blast
  with assms(2) wf_session_aes [OF assms(1)] show ?thesis
    by (simp add: encrypted_def encryptRecord_def rand_read_def serves_def Let_def)
qed

text \<open>The client's Finished passes the server's check, and the server completes the handshake.\<close>

lemma finish_run:
  assumes "quick c" and "0 < per" and "c_peer c = server_peer pol srv" and "stream c = []"
    and "c_sent c = [cbcClientHello host rnd]" and "length rnd = 32"
    and "ch_premaster srv body = pms" and "serves pols srv f n m w" and "\<forall>i. f i \<noteq> None" and "proper_host srv"
    and "tr = drop 5 (cbcClientHello host rnd) @ hs_bytes (host_messages srv)"
    and "sess = derive_session (host_params srv) (master_secret pms rnd (ch_random srv)) rnd (ch_random srv)"
  shows "\<exists>c' w'. cbc_finish (host_params srv) pms body tr rnd (ch_random srv) per c w =
      (Some (Some (sess\<lparr>clientSeq := 1, serverSeq := 1\<rparr>)), c', w') \<and> quick c' \<and> c_now c' = c_now c \<and>
      c_peer c' = server_peer pol srv \<and> stream c' = [] \<and>
      length (c_sent c') = 4 \<and> server_session srv (c_sent c') = sess \<and>
      serves pols srv f (Suc n) m w' \<and> w_now w' = w_now w"
proof -
  define cke where "cke = wrapHandshake handshakeClientKeyExchange body"
  define ms where "ms = master_secret pms rnd (ch_random srv)"
  define fm where "fm = finished_message ms (tr @ cke)"
  have sess: "sess = derive_session (host_params srv) ms rnd (ch_random srv)" by (simp add: assms(12) ms_def)
  have wf: "wf_session sess" unfolding sess by (rule derive_session_wf [OF host_params_wf [OF assms(10)]])
  have sq: "clientSeq sess = 0" "serverSeq sess = 0" by (simp_all add: sess derive_session_def Let_def)
  let ?r1 = "wrapTLS12Record recordHandshake cke" and ?r2 = "wrapTLS12Record recordChangeCipherSpec [0x01]"
  obtain c1 where c1: "send ?r1 c w = (Some (Some ()), c1, w)" "quick c1" "c_now c1 = c_now c"
    "c_peer c1 = server_peer pol srv" "c_sent c1 = c_sent c @ [?r1]" "stream c1 = []"
    using send_run [OF assms(1,3), of ?r1 "[]" w] assms(4,5) by (auto simp: server_peer_def)
  obtain c2 where c2: "send ?r2 c1 w = (Some (Some ()), c2, w)" "quick c2" "c_now c2 = c_now c"
    "c_peer c2 = server_peer pol srv" "c_sent c2 = c_sent c @ [?r1, ?r2]" "stream c2 = []"
    using send_run [OF c1(2,4), of ?r2 "[]" w] c1(3,5,6) assms(5) by (auto simp: server_peer_def)
  obtain fin w1 where fin: "encrypted sess recordHandshake (macThenPad sess recordHandshake fm False (- 1)) c2 w =
      (Some (Some fin), c2, w1)"
    "encryptRecord sess recordHandshake (macThenPad sess recordHandshake fm False (- 1)) w = (Some fin, w1)"
    "serves pols srv f (Suc n) m w1" "w_now w1 = w_now w" using encrypted_run [OF wf assms(8,9)] by blast
  define sent where "sent = c_sent c @ [?r1, ?r2, fin]"
  have sent: "sent ! 0 = cbcClientHello host rnd" "sent ! 1 = ?r1" "sent ! 3 = fin" "length sent = 4"
    by (simp_all add: sent_def assms(5))
  have sm: "server_master srv sent = ms" "client_random_in sent = rnd"
    unfolding server_master_def client_random_in_def sent hello_random [OF assms(6)] cke_def cke_body assms(7) ms_def
    by (rule refl)+
  have ss: "server_session srv sent = sess" unfolding server_session_def sm sess by (rule refl)
  have ef: "expected_finished srv sent = fm"
    unfolding expected_finished_def sm sent drop5_record fm_def assms(11) by simp
  have "received sess recordHandshake fin = Genuine fm"
    unfolding received_encrypted [OF wf fin(2)] using judge_valid_pad [OF wf, of recordHandshake fm False] by simp
  then have react: "p_react (server_peer pol srv) sent = at_once (host_accepts srv)"
    using sent ss ef by (simp add: server_peer_def)
  have nonempty: "host_accepts srv \<noteq> []" by (simp add: host_accepts_def wrapTLS12Record_def)
  obtain c3 where c3: "send fin c2 w1 = (Some (Some ()), c3, w1)" "quick c3" "c_now c3 = c_now c"
    "c_peer c3 = server_peer pol srv" "c_sent c3 = sent" "stream c3 = host_accepts srv"
    using send_run [OF c2(2,4), of fin "host_accepts srv" w1] react nonempty c2(3,5,6) by (auto simp: sent_def)
  obtain c4 where c4: "expectServerFinished per (sess\<lparr>clientSeq := clientSeq sess + 1\<rparr>) c3 =
      (Some (sess\<lparr>clientSeq := clientSeq sess + 1, serverSeq := serverSeq sess + 1\<rparr>), c4)" "same c3 c4" "stream c4 = []"
    using expect_run [OF c3(2) assms(2,10) c3(6), of "sess\<lparr>clientSeq := clientSeq sess + 1\<rparr>"] by auto
  have "on_conn (expectServerFinished per (sess\<lparr>clientSeq := clientSeq sess + 1\<rparr>)) c3 w1 =
      (Some (Some (sess\<lparr>clientSeq := 1, serverSeq := 1\<rparr>)), c4, w1)"
    using c4(1) sq by (simp add: on_conn_def)
  then have "cbc_finish (host_params srv) pms body tr rnd (ch_random srv) per c w =
      (Some (Some (sess\<lparr>clientSeq := 1, serverSeq := 1\<rparr>)), c4, w1)"
    unfolding cbc_finish_def Let_def cke_def [symmetric] master_secret_def [symmetric]
      finished_message_def [symmetric] ms_def [symmetric] sess [symmetric] fm_def [symmetric]
    by (simp only: andThen_def c1(1) c2(1) fin(1) c3(1) prod.case option.case)
  then show ?thesis
    using c4(2,3) c3 fin(3,4) sent ss by (auto simp: same_def)
qed

lemma server_hello_parses:
  assumes "proper_host srv"
  shows "parseServerHelloSuite (wrapHandshake handshakeServerHello (host_hello srv)) = Some (Some (ch_suite srv, ch_random srv))"
    and "paramsForSuite (ch_suite srv) = Some (host_params srv)"
proof -
  have "ch_suite srv < 65536" using assms by (auto simp: proper_host_def paramsForSuite_def split: if_splits)
  then show "parseServerHelloSuite (wrapHandshake handshakeServerHello (host_hello srv)) =
      Some (Some (ch_suite srv, ch_random srv))"
    using parse_built [of "ch_random srv" "ch_session_id srv" "ch_suite srv" "[]" 0 "0x0303" "ch_extensions srv"] assms
    by (simp add: host_hello_def proper_host_def)
  show "paramsForSuite (ch_suite srv) = Some (host_params srv)"
    using assms by (auto simp: proper_host_def host_params_def)
qed

lemma cert_parses:
  assumes "proper_host srv"
  shows "parseLeafRSAKey x509 (wrapHandshake handshakeCertificate (cert_body [ch_cert srv])) = Some (x509 (ch_cert srv))"
proof -
  have "length (cert_body [ch_cert srv]) \<le> 2 ^ 18"
    using messages_small [of handshakeCertificate "cert_body [ch_cert srv]" "host_messages srv"] assms
    by (simp add: host_messages_def proper_host_def)
  then show ?thesis using parseLeafRSAKey_cert [of "ch_cert srv" "[]" x509] assms by (simp add: proper_host_def)
qed

lemma handshake_run:
  assumes "quick c" and "0 < per" and "c_peer c = server_peer pol srv" and "c_sent c = []" and "stream c = []"
    and "serves pols srv f n m w" and "\<forall>i. f i \<noteq> None" and "proper_host srv" and "key_agreement lib x509 srv"
  shows "\<exists>c' w'. establish_body lib x509 host per c w = (Some (Some (client_session lib x509 srv f n)), c', w') \<and>
      quick c' \<and> c_now c' = c_now c \<and> c_peer c' = server_peer pol srv \<and> stream c' = [] \<and> length (c_sent c') = 4 \<and>
      server_session srv (c_sent c') = (client_session lib x509 srv f n)\<lparr>clientSeq := 0, serverSeq := 0\<rparr> \<and>
      serves pols srv f (n + kex_cost srv + 2) m w' \<and> w_now w' = w_now w"
proof -
  define rnd where "rnd = drawn f n 32"
  obtain w1 where r: "random 32 c w = (Some (Some rnd), c, w1)" "serves pols srv f (Suc n) m w1" "w_now w1 = w_now w"
    using serves_rand(1) [OF assms(6,7)] unfolding rnd_def by blast
  have lr: "length rnd = 32" by (simp add: rnd_def)
  let ?fl = "flight (ch_records srv)"
  have fl: "?fl \<noteq> []"
  proof -
    have "payloads (ch_records srv) \<noteq> []"
      using assms(8) by (simp add: proper_host_def host_messages_def hs_bytes_def wrapHandshake_def)
    then show ?thesis by (cases "ch_records srv") (auto simp: hs_record_def)
  qed
  obtain c1 where c1: "send (cbcClientHello host rnd) c w1 = (Some (Some ()), c1, w1)" "quick c1" "c_now c1 = c_now c"
    "c_peer c1 = server_peer pol srv" "c_sent c1 = [cbcClientHello host rnd]" "stream c1 = ?fl"
    using send_run [OF assms(1,3), of "cbcClientHello host rnd" ?fl w1] assms(4,5) fl by (auto simp: server_peer_def)
  let ?sh = "wrapHandshake handshakeServerHello (host_hello srv)"
  let ?ct = "wrapHandshake handshakeCertificate (cert_body [ch_cert srv])"
  from flight_in_order [OF c1(2,6) assms(8)] obtain b1 c2 b2 c3 b3 c4 c5 where
    h1: "hs_next [] c1 = (Inr (handshakeServerHello, ?sh), b1, c2)"
    and h2: "hs_next b1 c2 = (Inr (handshakeCertificate, ?ct), b2, c3)"
    and h3: "hs_nexts (length (host_ske srv)) b2 c3 = Some (map (\<lambda>(t, body). (t, wrapHandshake t body)) (host_ske srv), b3, c4)"
    and sk: "\<And>tr. skip_flight b3 tr c4 = (Some (tr @ wrapHandshake handshakeServerHelloDone []), c5)"
    and c5: "same c1 c5" "stream c5 = []" by blast
  have m1: "message [] c1 w1 = (Some (Some (handshakeServerHello, ?sh, b1)), c2, w1)"
    and m2: "message b1 c2 w1 = (Some (Some (handshakeCertificate, ?ct, b2)), c3, w1)"
    using h1 h2 by (simp_all add: message_def)
  have key: "map_option Some (parseLeafRSAKey x509 ?ct) = Some (Some (x509 (ch_cert srv)))"
    using cert_parses [OF assms(8)] by simp
  define kx where "kx = agreed lib x509 srv f (Suc n)"
  define tr where "tr = drop 5 (cbcClientHello host rnd) @ ?sh @ ?ct"
  from kex_run [OF r(2) assms(7,8,9) h3, of tr] obtain w2 where
    kr: "cbc_key_exchange lib (host_params srv) (x509 (ch_cert srv)) b2 tr c3 w1 =
        (Some (Some (fst kx, snd kx, tr @ hs_bytes (host_ske srv), b3)), c4, w2)"
    and ka: "ch_premaster srv (snd kx) = fst kx" and w2: "serves pols srv f (Suc n + kex_cost srv) m w2" "w_now w2 = w_now w1"
    unfolding kx_def by blast
  define tr2 where "tr2 = (tr @ hs_bytes (host_ske srv)) @ wrapHandshake handshakeServerHelloDone []"
  have skip: "on_conn (skip_flight b3 (tr @ hs_bytes (host_ske srv))) c4 w2 = (Some (Some tr2), c5, w2)"
    unfolding on_conn_def sk tr2_def by simp
  have q5: "quick c5" "c_peer c5 = server_peer pol srv" "c_sent c5 = [cbcClientHello host rnd]" "c_now c5 = c_now c"
    using c5(1) c1 by (simp_all add: same_def)
  have tr': "tr2 = drop 5 (cbcClientHello host rnd) @ hs_bytes (host_messages srv)"
    by (simp add: tr2_def tr_def host_messages_def hs_bytes_def)
  from finish_run [OF q5(1) assms(2) q5(2) c5(2) q5(3) lr ka w2(1) assms(7,8) tr' refl] obtain c' w' where
    fin: "cbc_finish (host_params srv) (fst kx) (snd kx) tr2 rnd (ch_random srv) per c5 w2 =
        (Some (Some ((derive_session (host_params srv) (master_secret (fst kx) rnd (ch_random srv)) rnd (ch_random srv))
          \<lparr>clientSeq := 1, serverSeq := 1\<rparr>)), c', w')"
    and rest: "quick c'" "c_now c' = c_now c5" "c_peer c' = server_peer pol srv" "stream c' = []" "length (c_sent c') = 4"
      "server_session srv (c_sent c') =
        derive_session (host_params srv) (master_secret (fst kx) rnd (ch_random srv)) rnd (ch_random srv)"
      "serves pols srv f (Suc (Suc n + kex_cost srv)) m w'" "w_now w' = w_now w2" by blast
  have cs: "(derive_session (host_params srv) (master_secret (fst kx) rnd (ch_random srv)) rnd (ch_random srv))
      \<lparr>clientSeq := 1, serverSeq := 1\<rparr> = client_session lib x509 srv f n"
    by (simp add: client_session_def rnd_def kx_def)
  have "establish_body lib x509 host per c w = (Some (Some (client_session lib x509 srv f n)), c', w')"
    unfolding establish_body_def Let_def
    by (simp only: andThen_def r(1) c1(1) m1 m2 server_hello_parses [OF assms(8)] key require_def needed_def parsed_def
        kr [unfolded tr_def] skip [unfolded tr_def append_assoc] fin [unfolded cs] prod.case option.case append_assoc refl if_True)
  moreover have "server_session srv (c_sent c') = (client_session lib x509 srv f n)\<lparr>clientSeq := 0, serverSeq := 0\<rparr>"
    unfolding rest(6) cs [symmetric] by (simp add: derive_session_def Let_def)
  ultimately show ?thesis
    using rest(1-5,7,8) q5(4) r(3) w2(2)
    by (intro exI [of _ c'] exI [of _ w']) simp
qed

lemma dial_run:
  assumes "serves pols srv f n m w" and "0 < per" and "w_now w < d"
  shows "\<exists>w1. dial (Some d) per w = (Inr (open_conn (w_now w) (server_peer (pols m) srv)), w1) \<and>
    serves pols srv f n (Suc m) w1 \<and> w_now w1 = w_now w"
  using assms by (auto simp: dial_def dial_limit_def expired_def serves_def Let_def)

lemma session_run:
  assumes "serves pols srv f n m w" and "0 < per" and "w_now w < d"
    and "\<forall>i. f i \<noteq> None" and "proper_host srv" and "key_agreement lib x509 srv"
  shows "\<exists>c w'. establishCBCSession lib x509 (Some d) host per w = (Some (Some (client_session lib x509 srv f n, c)), w') \<and>
      quick c \<and> c_now c = w_now w \<and> c_peer c = server_peer (pols m) srv \<and> stream c = [] \<and> length (c_sent c) = 4 \<and>
      server_session srv (c_sent c) = (client_session lib x509 srv f n)\<lparr>clientSeq := 0, serverSeq := 0\<rparr> \<and>
      serves pols srv f (n + kex_cost srv + 2) (Suc m) w' \<and> w_now w' = w_now w"
proof -
  obtain w1 where d: "dial (Some d) per w = (Inr (open_conn (w_now w) (server_peer (pols m) srv)), w1)"
    "serves pols srv f n (Suc m) w1" "w_now w1 = w_now w" using dial_run [OF assms(1-3)] by blast
  define c0 where "c0 = set_deadline per (open_conn (w_now w) (server_peer (pols m) srv))"
  have c0: "quick c0" "c_peer c0 = server_peer (pols m) srv" "c_sent c0 = []" "c_now c0 = w_now w" "c_in c0 = []"
    using assms(2)
    by (simp_all add: c0_def open_conn_def set_deadline_def quick_def expired_def enqueue_def server_peer_def)
  have "stream c0 = []" using quick_stream [OF c0(1)] c0(5) by simp
  from handshake_run [OF c0(1) assms(2) c0(2,3) this d(2) assms(4-6), of host] obtain c' w' where
    "establish_body lib x509 host per c0 w1 = (Some (Some (client_session lib x509 srv f n)), c', w')"
    "quick c'" "c_now c' = c_now c0" "c_peer c' = server_peer (pols m) srv" "stream c' = []" "length (c_sent c') = 4"
    "server_session srv (c_sent c') = (client_session lib x509 srv f n)\<lparr>clientSeq := 0, serverSeq := 0\<rparr>"
    "serves pols srv f (n + kex_cost srv + 2) (Suc m) w'" "w_now w' = w_now w1" by blast
  with c0(4) d show ?thesis
    by (intro exI [of _ c'] exI [of _ w']) (simp add: establishCBCSession_def c0_def)
qed

section \<open>One exchange\<close>

text \<open>The receiver's verdict on a vector in a session, and what the server answers.\<close>

definition vector_verdict :: "cbcSession \<Rightarrow> string \<Rightarrow> cbcVector \<Rightarrow> verdict" where
  "vector_verdict s host vec =
     (case stimulus vec of (bad, p) \<Rightarrow>
        judge_plain (clientWriteMAC s) (clientSeq s) recordApplicationData
          (zero_fill 16 (macThenPad s recordApplicationData (cbc_request host) bad p)))"

text \<open>How the probe names the answers.\<close>

fun cbc_seen :: "answer \<Rightarrow> cbcReaction" where
  "cbc_seen Answers = reaction_of ''data''"
| "cbc_seen (Alerts l d) = \<lparr>cr_kind = ''alert'', cr_level = l, cr_desc = d\<rparr>"
| "cbc_seen Closes = reaction_of ''closed''"
| "cbc_seen Resets = reaction_of ''reset''"
| "cbc_seen Silent = reaction_of ''timeout''"

lemma cbc_seen_same: "cbc_equal (cbc_seen a) (cbc_seen b) \<longleftrightarrow> a = b"
  by (cases a; cases b) (auto simp: cbc_equal_def reaction_of_def)

lemma cbc_errors:
  "classifyCBCTransportError err_eof = reaction_of ''closed''" "classifyCBCTransportError err_reset = reaction_of ''reset''"
  "classifyCBCTransportError err_timeout = reaction_of ''timeout''"
proof -
  have s: "containsSubstr ''EOF'' ''reset'' = False" "containsSubstr ''EOF'' ''EOF'' = True"
    "containsSubstr ''read: connection reset by peer'' ''reset'' = True" by code_simp+
  show "classifyCBCTransportError err_eof = reaction_of ''closed''"
    "classifyCBCTransportError err_reset = reaction_of ''reset''"
    "classifyCBCTransportError err_timeout = reaction_of ''timeout''"
    using s by (simp_all add: classifyCBCTransportError_def err_eof_def err_reset_def err_timeout_def)
qed

lemma cbc_response:
  assumes "quick c" and "0 < t"
  shows "\<exists>c'. readReaction t (answered bs a c) = (cbc_seen a, c') \<and> c_now c \<le> c_now c' \<and> c_now c' \<le> c_now c + t"
  using answered_read [OF assms, of bs a] assms(2)
  by (cases a) (auto simp: readReaction_def cbc_errors reaction_of_def)

lemma exchange_run:
  assumes "serves pols srv f n m w" and "0 < per" and "w_now w < d"
    and "\<forall>i. f i \<noteq> None" and "proper_host srv" and "key_agreement lib x509 srv"
  shows "\<exists>w'. cbcExchange lib x509 (Some d) host vec per w =
      (Some (Some (cbc_seen (pols m (vector_verdict (client_session lib x509 srv f n) host vec)))), w') \<and>
      serves pols srv f (n + kex_cost srv + 3) (Suc m) w' \<and> w_now w' \<le> w_now w + 1200 * millisecond"
proof -
  define s where "s = client_session lib x509 srv f n"
  have wf: "wf_session s" unfolding s_def by (rule client_session_wf [OF assms(5)])
  from session_run [OF assms, of host, folded s_def] obtain c w1 where
    e: "establishCBCSession lib x509 (Some d) host per w = (Some (Some (s, c)), w1)"
    and c: "quick c" "c_now c = w_now w" "c_peer c = server_peer (pols m) srv" "stream c = []" "length (c_sent c) = 4"
    and ss: "server_session srv (c_sent c) = s\<lparr>clientSeq := 0, serverSeq := 0\<rparr>"
    and w1: "serves pols srv f (n + kex_cost srv + 2) (Suc m) w1" "w_now w1 = w_now w" by blast
  obtain bad p where st: "stimulus vec = (bad, p)" by (metis surj_pair)
  obtain r w2 where r: "encrypted s recordApplicationData
        (macThenPad s recordApplicationData (cbc_request host) bad p) c w1 = (Some (Some r), c, w2)"
      "encryptRecord s recordApplicationData
        (macThenPad s recordApplicationData (cbc_request host) bad p) w1 = (Some r, w2)"
      "serves pols srv f (Suc (n + kex_cost srv + 2)) (Suc m) w2" "w_now w2 = w_now w1"
    using encrypted_run [OF wf w1(1) assms(4)] by blast
  define a where "a = pols m (vector_verdict s host vec)"
  have sess: "(server_session srv (c_sent c @ [r]))\<lparr>clientSeq := 1\<rparr> = s\<lparr>serverSeq := 0\<rparr>"
  proof -
    have "server_session srv (c_sent c @ [r]) = server_session srv (c_sent c)"
      using c(5) by (simp add: server_session_def server_master_def client_random_in_def nth_append)
    then show ?thesis using ss by (simp add: s_def client_session_def)
  qed
  have "received (s\<lparr>serverSeq := 0\<rparr>) recordApplicationData r = vector_verdict s host vec"
    using received_encrypted [OF wf r(2), of recordApplicationData]
    by (simp add: received_def vector_verdict_def st)
  then have react: "p_react (c_peer c) (c_sent c @ [r]) = answer_segs a"
    using c(3,5) sess by (simp add: server_peer_def nth_append a_def)
  have "p_werr (c_peer c) (c_sent c @ [r]) = None" by (simp add: c(3) server_peer_def)
  from answered_write [OF c(1,4) this react] have sent: "send r c w2 = (Some (Some ()), answered r a c, w2)"
    by (simp add: send_def)
  have t: "0 < cbc_response_timeout per" "cbc_response_timeout per \<le> 1200 * millisecond"
    using assms(2) by (auto simp: cbc_response_timeout_def millisecond_def)
  from cbc_response [OF c(1) t(1), of r a] obtain c3 where
    c3: "readReaction (cbc_response_timeout per) (answered r a c) = (cbc_seen a, c3)"
      "c_now c3 \<le> c_now c + cbc_response_timeout per" by blast
  have "cbcExchange_body host vec per s c w1 = (Some (Some (cbc_seen a)), c3, w2)"
    unfolding cbcExchange_body_def st prod.case sendCrafted_def
    by (simp add: andThen_def r(1) [simplified] sent c3(1) result_def on_conn_def)
  with e have "cbcExchange lib x509 (Some d) host vec per w = (Some (Some (cbc_seen a)), conn_close c3 w2)"
    by (simp add: cbcExchange_def)
  then show ?thesis
    using r(3,4) w1(2) c(2) c3(2) t(2) by (simp add: a_def s_def serves_def conn_close_def)
qed

section \<open>The probe\<close>

text \<open>Two exchanges agree if the server's answers do.\<close>

definition twice_seen :: "answer \<Rightarrow> answer \<Rightarrow> cbcReaction option" where
  "twice_seen a b = (if a = b then Some (cbc_seen a) else None)"

lemma stable_run:
  assumes "serves pols srv f n m w" and "0 < per" and "w_now w + 1200 * millisecond < d"
    and "\<forall>i. f i \<noteq> None" and "proper_host srv" and "key_agreement lib x509 srv"
  shows "\<exists>w'. stableCBCReaction lib x509 (Some d) host vec repetitions per w =
      (Some (twice_seen (pols m (vector_verdict (client_session lib x509 srv f n) host vec))
         (pols (Suc m) (vector_verdict (client_session lib x509 srv f (n + kex_cost srv + 3)) host vec))), w') \<and>
      serves pols srv f (n + 2 * (kex_cost srv + 3)) (m + 2) w' \<and> w_now w' \<le> w_now w + 2400 * millisecond"
proof -
  let ?n = "n + kex_cost srv + 3"
  let ?a = "pols m (vector_verdict (client_session lib x509 srv f n) host vec)"
  let ?b = "pols (Suc m) (vector_verdict (client_session lib x509 srv f ?n) host vec)"
  have "w_now w < d" using assms(3) by (simp add: millisecond_def)
  from exchange_run [OF assms(1,2) this assms(4-6)] obtain w1 where
    1: "cbcExchange lib x509 (Some d) host vec per w = (Some (Some (cbc_seen ?a)), w1)"
      "serves pols srv f ?n (Suc m) w1" "w_now w1 \<le> w_now w + 1200 * millisecond" by blast
  then have "w_now w1 < d" using assms(3) by simp
  from exchange_run [OF 1(2) assms(2) this assms(4-6)] obtain w2 where
    2: "cbcExchange lib x509 (Some d) host vec per w1 = (Some (Some (cbc_seen ?b)), w2)"
      "serves pols srv f (?n + kex_cost srv + 3) (Suc (Suc m)) w2" "w_now w2 \<le> w_now w1 + 1200 * millisecond" by blast
  have eq: "cbc_equal (cbc_seen ?b) (cbc_seen ?a) \<longleftrightarrow> ?a = ?b" using cbc_seen_same by metis
  have "stableCBCReaction lib x509 (Some d) host vec repetitions per w = (Some (twice_seen ?a ?b), w2)"
    unfolding stableCBCReaction_def repetitions_def numeral_2_eq_2
    by (simp add: 1(1) 2(1) eq twice_seen_def)
  moreover have "serves pols srv f (n + 2 * (kex_cost srv + 3)) (m + 2) w2"
    using 2(2) by (simp add: add.assoc add.commute add.left_commute)
  ultimately show ?thesis using 1(3) 2(3) by fastforce
qed

text \<open>The report on six answers, two for each stimulus.\<close>

definition cbc_report :: "(cbcVector \<Rightarrow> nat \<Rightarrow> answer) \<Rightarrow> cbcResult" where
  "cbc_report ans =
     (case (twice_seen (ans vecBadMAC 0) (ans vecBadMAC 1), twice_seen (ans vecBadPad 2) (ans vecBadPad 3),
        twice_seen (ans vecZeroLen 4) (ans vecZeroLen 5)) of
        (Some badMAC, Some badPad, Some zeroLen) \<Rightarrow> classifyCBC badMAC badPad zeroLen
      | _ \<Rightarrow> no_oracle)"

text \<open>The answer in the \<open>i\<close>-th exchange, after the session that is set up first.\<close>

definition ith_answer ::
  "kex_lib \<Rightarrow> (bytes \<Rightarrow> rsa_key option) \<Rightarrow> policies \<Rightarrow> cbc_host \<Rightarrow> world \<Rightarrow> string \<Rightarrow> cbcVector \<Rightarrow> nat \<Rightarrow> answer" where
  "ith_answer lib x509 pols srv w host vec i =
     pols (Suc (w_dials w) + i)
       (vector_verdict (client_session lib x509 srv (w_rand w)
          (w_rands w + kex_cost srv + 2 + i * (kex_cost srv + 3))) host vec)"

text \<open>Enough time is left in the caller's context: six answers of at most 1.2 seconds.\<close>

definition in_good_time :: "int option \<Rightarrow> world \<Rightarrow> bool" where
  "in_good_time ctx w \<longleftrightarrow> (case ctx of None \<Rightarrow> True | Some d \<Rightarrow> w_now w + 7200 * millisecond < d)"

lemma probe_run:
  assumes "0 < timeout" and "\<forall>i. w_rand w i \<noteq> None" and "proper_host srv" and "key_agreement lib x509 srv"
    and "in_good_time ctx w"
  shows "fst (ProbeCBCPaddingOracles lib x509 ctx host timeout (facing pols srv w)) =
    Some (cbc_report (ith_answer lib x509 pols srv w host))"
proof -
  let ?w = "facing pols srv w" and ?per = "probe_per timeout" and ?k = "kex_cost srv"
  let ?f = "w_rand w" and ?n = "w_rands w" and ?m = "w_dials w" and ?ans = "ith_answer lib x509 pols srv w host"
  obtain d where ctx: "with_timeout ctx (12 * second) ?w = Some d" and d: "w_now w + 7200 * millisecond < d"
    using assms(5) by (cases ctx) (auto simp: in_good_time_def with_timeout_def second_def millisecond_def)
  have per: "0 < ?per" by (rule probe_per_pos [OF assms(1)])
  have "w_now ?w < d" using d by (simp add: millisecond_def)
  from session_run [OF serves_facing per this assms(2-4), of host] obtain s c w1 where
    e: "establishCBCSession lib x509 (Some d) host ?per ?w = (Some (Some (s, c)), w1)"
    and c: "c_now c = w_now w" "serves pols srv ?f (?n + ?k + 2) (Suc ?m) w1" by fastforce
  define v0 where "v0 = conn_close c w1"
  have v0: "serves pols srv ?f (?n + ?k + 2) (Suc ?m) v0" "w_now v0 = w_now w"
    using c by (simp_all add: v0_def conn_close_def serves_def)
  note run = stable_run [OF _ per _ assms(2-4), of pols _ _ _ d host]
  let ?cs = "client_session lib x509 srv ?f"
  have ans: "?ans vec 0 = pols (Suc ?m) (vector_verdict (?cs (?n + ?k + 2)) host vec)"
    "?ans vec 1 = pols (Suc (Suc ?m)) (vector_verdict (?cs (?n + ?k + 2 + ?k + 3)) host vec)"
    "?ans vec 2 = pols (Suc ?m + 2) (vector_verdict (?cs (?n + ?k + 2 + 2 * (?k + 3))) host vec)"
    "?ans vec 3 = pols (Suc (Suc ?m + 2)) (vector_verdict (?cs (?n + ?k + 2 + 2 * (?k + 3) + ?k + 3)) host vec)"
    "?ans vec 4 = pols (Suc ?m + 2 + 2) (vector_verdict (?cs (?n + ?k + 2 + 2 * (?k + 3) + 2 * (?k + 3))) host vec)"
    "?ans vec 5 = pols (Suc (Suc ?m + 2 + 2)) (vector_verdict (?cs (?n + ?k + 2 + 2 * (?k + 3) + 2 * (?k + 3) + ?k + 3)) host vec)"
    for vec
    by (simp_all add: ith_answer_def eval_nat_numeral algebra_simps)
  obtain v1 where
    1: "stableCBCReaction lib x509 (Some d) host vecBadMAC repetitions ?per v0 =
        (Some (twice_seen (?ans vecBadMAC 0) (?ans vecBadMAC 1)), v1)"
      "serves pols srv ?f (?n + ?k + 2 + 2 * (?k + 3)) (Suc ?m + 2) v1" "w_now v1 \<le> w_now w + 2400 * millisecond"
    using run [OF v0(1), of vecBadMAC] v0(2) d unfolding ans millisecond_def by fastforce
  obtain v2 where
    2: "stableCBCReaction lib x509 (Some d) host vecBadPad repetitions ?per v1 =
        (Some (twice_seen (?ans vecBadPad 2) (?ans vecBadPad 3)), v2)"
      "serves pols srv ?f (?n + ?k + 2 + 2 * (?k + 3) + 2 * (?k + 3)) (Suc ?m + 2 + 2) v2"
      "w_now v2 \<le> w_now w + 4800 * millisecond"
    using run [OF 1(2), of vecBadPad] 1(3) d unfolding ans millisecond_def by fastforce
  obtain v3 where
    3: "stableCBCReaction lib x509 (Some d) host vecZeroLen repetitions ?per v2 =
        (Some (twice_seen (?ans vecZeroLen 4) (?ans vecZeroLen 5)), v3)"
    using run [OF 2(2), of vecZeroLen] 2(3) d unfolding ans millisecond_def by fastforce
  show ?thesis
    unfolding ProbeCBCPaddingOracles_def Let_def ctx e prod.case option.case v0_def [symmetric] seq_def
    by (simp add: 1(1) 2(1) 3 cbc_report_def split: option.splits)
qed


section \<open>The verdicts on the vectors\<close>

lemma bad_mac_verdict: "wf_session s \<Longrightarrow> vector_verdict s host vecBadMAC = BadMAC"
  by (simp add: vector_verdict_def judge_valid_pad)

lemma never_bad_padding:
  assumes "wf_session s"
  shows "vector_verdict s host vec \<noteq> BadPadding"
proof -
  obtain bad p where st: "stimulus vec = (bad, p)" by (metis surj_pair)
  from stimulus_judged [OF this assms] show ?thesis by (simp add: vector_verdict_def st)
qed

lemma aligned_verdict:
  assumes "length host mod 16 = 15"
  shows "vector_verdict s host vecBadPad = Genuine (cbc_request host)"
proof -
  have "(length (cbc_request host) + 21 + nat 255) mod 16 = (length host mod 16 + 321) mod 16"
    by (simp add: length_cbc_request mod_simps add.commute)
  then have "(length (cbc_request host) + 21 + nat 255) mod 16 = 0" using assms by simp
  from judge_override_aligned [OF _ _ this, of s recordApplicationData False]
  show ?thesis by (simp add: vector_verdict_def)
qed

text \<open>
  The record called zero-length is never taken for the request: if its length fits the blocks, its MAC
  is wrong, and otherwise the receiver's content is longer.
\<close>

lemma judge_zero_filled:
  assumes "length pt mod 16 \<noteq> 0" and "20 \<le> length pt" and "judge_plain key sq t (zero_fill 16 pt) = Genuine c"
  shows "length pt < length c + 21"
proof -
  define k where "k = 15 - length pt mod 16"
  have "length pt mod 16 < 16" by simp
  then have "16 - length pt mod 16 = Suc k" unfolding k_def by arith
  then have z: "zero_fill 16 pt = (pt @ replicate k 0) @ [0]"
    using assms(1) by (simp add: zero_fill_def replicate_append_same)
  have "unpad (zero_fill 16 pt) = Some (pt @ replicate k 0)"
    unfolding z by (rule unpad_zero) (use assms(2) in simp)
  then have "c = take (length (pt @ replicate k 0) - 20) (pt @ replicate k 0)"
    using assms(3) by (simp add: judge_plain_def Let_def split: if_splits)
  then show ?thesis using assms(2) by simp
qed

lemma zero_len_verdict: "vector_verdict s host vecZeroLen \<noteq> Genuine (cbc_request host)"
proof (cases "(length (cbc_request host) + 21 + nat 0) mod 16 = 0")
  case True
  from judge_override_aligned [OF _ _ this, of s recordApplicationData True]
  show ?thesis by (simp add: vector_verdict_def)
next
  case False
  have "length (macThenPad s recordApplicationData (cbc_request host) True 0) = length (cbc_request host) + 21"
    using macThenPad_override [of 0 s recordApplicationData "cbc_request host" True] by simp
  with judge_zero_filled [of "macThenPad s recordApplicationData (cbc_request host) True 0"] False
  show ?thesis by (fastforce simp: vector_verdict_def)
qed

section \<open>A false positive and a false negative\<close>

text \<open>
  A server without an oracle: it answers the probe's request and treats every other record alike, by
  closing or resetting the connection, by silence or by an alert.
\<close>

definition secure_policy :: "string \<Rightarrow> answer \<Rightarrow> policies" where
  "secure_policy host r = (\<lambda>_. (\<lambda>_. r)(Genuine (cbc_request host) := Answers))"

text \<open>
  C13. A false positive. Take any server that negotiates a suite of the probe, agrees on keys with the
  client by correct RSA or ECDHE, verifies the client's Finished, decrypts every record, answers the
  probe's request and treats every record it rejects alike: it has no oracle. If it answers at once and
  the name of the host has 15 characters modulo 16, then for all random bytes the probe reports
  GOLDENDOODLE and Zombie POODLE, because the record it sends as the one with invalid padding is valid
  and gets an answer.
\<close>

theorem secure_server_misreported:
  assumes "length host mod 16 = 15" and "r \<noteq> Answers" and "0 < timeout" and "in_good_time ctx w"
    and "\<forall>i. w_rand w i \<noteq> None" and "proper_host srv" and "key_agreement lib x509 srv"
  shows "fst (ProbeCBCPaddingOracles lib x509 ctx host timeout (facing (secure_policy host r) srv w)) =
    Some \<lparr>goldenDoodle = True, zombiePoodle = True, sleepingPoodle = False, cve20191559 = False\<rparr>"
proof -
  note wf = client_session_wf [OF assms(6)]
  have ans: "ith_answer lib x509 (secure_policy host r) srv w host vecBadMAC i = r"
    "ith_answer lib x509 (secure_policy host r) srv w host vecBadPad i = Answers"
    "ith_answer lib x509 (secure_policy host r) srv w host vecZeroLen i = r" for i
    by (simp_all add: ith_answer_def secure_policy_def bad_mac_verdict [OF wf] aligned_verdict [OF assms(1)]
        zero_len_verdict)
  have "cr_kind (cbc_seen r) \<noteq> ''data''" using assms(2) by (cases r) (simp_all add: reaction_of_def)
  then show ?thesis
    unfolding probe_run [OF assms(3,5-7,4)] cbc_report_def ans
    by (simp add: twice_seen_def classifyCBC_def cbc_equal_def reaction_of_def no_oracle_def Let_def)
qed

text \<open>Toy arithmetic in the place of ECDHE and RSA, with its servers: both are undone by \<open>XOR\<close>.\<close>

definition toy_lib :: kex_lib where
  "toy_lib = \<lparr>ec_generate = \<lambda>_ r. Some [r 0], ec_point = \<lambda>_ priv. [xor 9 (hd priv)], ec_valid = \<lambda>_ point. length point = 1,
     ec_shared = \<lambda>_ priv point. Some [xor (hd priv) (hd point)], rsa_encrypt = \<lambda>_ _ pms. Some (map (xor 0x5a) pms)\<rparr>"

definition one_record :: "cbc_host \<Rightarrow> cbc_host" where
  "one_record srv = srv\<lparr>ch_records := [(0x0303, hs_bytes (host_messages srv))]\<rparr>"

definition toy_host :: "nat \<Rightarrow> (bytes \<Rightarrow> bytes) \<Rightarrow> cbc_host" where
  "toy_host suite premaster = one_record
     \<lparr>ch_suite = suite, ch_random = replicate 32 0x5a, ch_session_id = [], ch_extensions = [0], ch_cert = [1, 2, 3],
      ch_curve = curveX25519, ch_point = [xor 9 0x21], ch_signature = [4, 1], ch_premaster = premaster,
      ch_records = [], ch_finished = replicate 64 0\<rparr>"

definition toy_rsa_host :: cbc_host where
  "toy_rsa_host = toy_host suiteRSA_AES128_CBC_SHA (\<lambda>body. map (xor 0x5a) (drop 2 body))"

definition toy_ecdhe_host :: cbc_host where
  "toy_ecdhe_host = toy_host suiteECDHE_RSA_AES256_CBC_SHA (\<lambda>body. [xor 0x21 (hd (tl body))])"

lemma toy_proper: "proper_host toy_rsa_host" "proper_host toy_ecdhe_host"
  by (simp_all add: toy_rsa_host_def toy_ecdhe_host_def toy_host_def one_record_def proper_host_def host_messages_def
      host_hello_def host_ske_def host_params_def server_hello_body_def ecdhe_ske_body_def paramsForSuite_def
      cbc_params_def hs_bytes_def cert_body_def)

lemma toy_agreement:
  "key_agreement toy_lib (\<lambda>_. Some \<lparr>pk_n = 3233, pk_e = 17\<rparr>) toy_rsa_host"
  "key_agreement toy_lib (\<lambda>_. None) toy_ecdhe_host"
proof -
  have x: "xor a (xor a b) = b" for a b :: byte by (simp add: xor.assoc [symmetric])
  have "xor a (xor 9 0x21) = xor 0x21 (xor 9 a)" for a :: byte by (metis xor.assoc xor.commute)
  with x show "key_agreement toy_lib (\<lambda>_. Some \<lparr>pk_n = 3233, pk_e = 17\<rparr>) toy_rsa_host"
    "key_agreement toy_lib (\<lambda>_. None) toy_ecdhe_host"
    by (simp_all add: key_agreement_def toy_lib_def toy_rsa_host_def toy_ecdhe_host_def toy_host_def one_record_def
        host_params_def paramsForSuite_def cbc_params_def ecdhCurve_def comp_def put16_def)
qed

theorem secure_server_misreported_witness:
  "fst (ProbeCBCPaddingOracles toy_lib (\<lambda>_. None) None ''www.example.com'' second
      (facing (secure_policy ''www.example.com'' Closes) toy_ecdhe_host (answering []))) =
    Some \<lparr>goldenDoodle = True, zombiePoodle = True, sleepingPoodle = False, cve20191559 = False\<rparr>"
  by (rule secure_server_misreported)
     (simp_all add: toy_proper toy_agreement in_good_time_def answering_def second_def)

text \<open>
  C12. A false negative: no padding oracle is ever found. Take any server as before, with any policy for
  the records it decrypts, on each connection another one: what it does with a record of invalid
  padding has no influence on the result of the probe. In particular a server that singles out records
  with invalid padding, and only those, is cleared.
\<close>

theorem padding_oracle_missed:
  assumes "0 < timeout" and "in_good_time ctx w"
    and "\<forall>i. w_rand w i \<noteq> None" and "proper_host srv" and "key_agreement lib x509 srv"
  shows "fst (ProbeCBCPaddingOracles lib x509 ctx host timeout (facing (\<lambda>k. (pols k)(BadPadding := a k)) srv w)) =
      fst (ProbeCBCPaddingOracles lib x509 ctx host timeout (facing pols srv w)) \<and>
    fst (ProbeCBCPaddingOracles lib x509 ctx host timeout (facing (\<lambda>k. (\<lambda>_. b)(BadPadding := a k)) srv w)) =
      Some no_oracle"
proof -
  note never = never_bad_padding [OF client_session_wf [OF assms(4)]]
  have "ith_answer lib x509 (\<lambda>k. (pols k)(BadPadding := a k)) srv w host = ith_answer lib x509 pols srv w host"
    "ith_answer lib x509 (\<lambda>k. (\<lambda>_. b)(BadPadding := a k)) srv w host = (\<lambda>_ _. b)"
    by (simp_all add: fun_eq_iff ith_answer_def never)
  then show ?thesis
    unfolding probe_run [OF assms(1,3-5,2)]
    by (simp add: cbc_report_def twice_seen_def classifyCBC_def cbc_seen_same)
qed

theorem padding_oracle_missed_witness:
  "fst (ProbeCBCPaddingOracles toy_lib (\<lambda>_. Some \<lparr>pk_n = 3233, pk_e = 17\<rparr>) None ''example.com'' second
      (facing (\<lambda>k. (\<lambda>_. Closes)(BadPadding := Alerts 2 20)) toy_rsa_host (answering []))) = Some no_oracle"
  by (rule conjunct2 [OF padding_oracle_missed [where pols = "\<lambda>_ _. Closes"]])
     (simp_all add: toy_proper toy_agreement in_good_time_def answering_def second_def)

text \<open>The established session of this server is the one the handshake's theorem describes.\<close>

theorem establish_session_witness:
  "\<exists>c w s c' w' rnd fin. establish_body toy_lib (\<lambda>_. None) ''example.com'' second c w = (Some (Some s), c', w') \<and>
     c_sent c' ! 0 = cbcClientHello ''example.com'' rnd \<and> c_sent c' ! 3 = fin \<and> serverSeq s = 1 \<and>
     (\<exists>msg. received (s\<lparr>clientSeq := 0\<rparr>) recordHandshake fin = Genuine msg)"
proof -
  let ?x = "\<lambda>_. None" and ?pols = "secure_policy ''example.com'' Closes" and ?w = "answering []"
  let ?v = "facing ?pols toy_ecdhe_host ?w"
  define c where "c = set_deadline second (open_conn 0 (server_peer (?pols 0) toy_ecdhe_host))"
  have c: "quick c" "c_peer c = server_peer (?pols 0) toy_ecdhe_host" "c_sent c = []" "c_in c = []"
    by (simp_all add: c_def open_conn_def set_deadline_def quick_def expired_def enqueue_def server_peer_def second_def)
  have st: "stream c = []" using quick_stream [OF c(1)] c(4) by simp
  have rnd: "\<forall>i. w_rand ?w i \<noteq> None" by (simp add: answering_def)
  let ?s = "client_session toy_lib ?x toy_ecdhe_host (w_rand ?w) (w_rands ?w)"
  have "0 < second" by (simp add: second_def)
  from handshake_run [OF c(1) this c(2,3) st serves_facing [where pols = ?pols] rnd toy_proper(2) toy_agreement(2)]
  obtain s c' w' where e: "establish_body toy_lib ?x ''example.com'' second c ?v = (Some (Some s), c', w')"
    and s: "s = ?s" by blast
  have sq: "serverSeq s = 1" by (simp add: s client_session_def)
  from establish_session [OF e c(3)] obtain rnd r1 r2 fin msg where
    "c_sent c' = [cbcClientHello ''example.com'' rnd, r1, r2, fin]"
    "received (s\<lparr>clientSeq := 0\<rparr>) recordHandshake fin = Genuine msg" by (elim exE conjE) (rule that)
  then have "c_sent c' ! 0 = cbcClientHello ''example.com'' rnd" "c_sent c' ! 3 = fin"
    "\<exists>msg. received (s\<lparr>clientSeq := 0\<rparr>) recordHandshake fin = Genuine msg" by auto
  with e sq show ?thesis by blast
qed

end
