(* ===== verification/RobotServer.thy ===== *)
theory RobotServer
  imports Robot Quick
begin

text \<open>
  TLS servers with an RSA key as environments of the ROBOT probe, and what the probe reports about
  them. The server decrypts the client's key exchange with its private exponent and, when the bogus
  Finished arrives, answers according to what it found in the decrypted block: no PKCS#1 block, a
  block with the wrong version bytes, or a well-formed premaster secret.
\<close>

section \<open>Decryption\<close>

text \<open>The plaintext is written with all its leading zeros, as many bytes as the modulus has.\<close>

definition rsa_decrypt :: "rsa_key \<Rightarrow> nat \<Rightarrow> bytes \<Rightarrow> bytes" where
  "rsa_decrypt pub d cipher = rsaEncrypt \<lparr>pk_n = pk_n pub, pk_e = d\<rparr> cipher"

text \<open>A private exponent undoes the public one on everything below the modulus.\<close>

definition inverts :: "rsa_key \<Rightarrow> nat \<Rightarrow> bool" where
  "inverts pub d \<longleftrightarrow> (\<forall>m < pk_n pub. (m ^ pk_e pub mod pk_n pub) ^ d mod pk_n pub = m)"

lemma decrypt_encrypt:
  assumes "inverts pub d" and "length block = key_size pub" and "be_nat block < pk_n pub"
  shows "rsa_decrypt pub d (rsaEncrypt pub block) = block"
proof (rule be_nat_inject [THEN iffD1])
  let ?priv = "\<lparr>pk_n = pk_n pub, pk_e = d\<rparr>"
  have n: "0 < pk_n pub" "0 < pk_n ?priv" using assms(3) by simp_all
  have k: "key_size ?priv = key_size pub" by (simp add: key_size_def)
  show "length (rsa_decrypt pub d (rsaEncrypt pub block)) = length block"
    unfolding rsa_decrypt_def assms(2) using rsaEncrypt_spec [OF n(2)] k by simp
  have "be_nat (rsa_decrypt pub d (rsaEncrypt pub block)) =
      (be_nat block ^ pk_e pub mod pk_n pub) ^ d mod pk_n pub"
    unfolding rsa_decrypt_def using rsaEncrypt_spec [OF n(2)] rsaEncrypt_spec [OF n(1)] by simp
  with assms(1,3) show "be_nat (rsa_decrypt pub d (rsaEncrypt pub block)) = be_nat block"
    by (simp add: inverts_def)
qed

section \<open>What the server finds\<close>

datatype found = Malformed | WrongVersion | WellFormed

definition found_in :: "bytes \<Rightarrow> found" where
  "found_in block =
     (case pkcs1_decode block of
        None \<Rightarrow> Malformed
      | Some m \<Rightarrow> if pms_ok m then WellFormed else WrongVersion)"

fun vector_class :: "robotVectorKind \<Rightarrow> found" where
  "vector_class vecCorrect = WellFormed"
| "vector_class vec0x00AtWrongPMSPos = WrongVersion"
| "vector_class _ = Malformed"

text \<open>A modulus of at least 59 bytes that uses the highest bit of its first byte, as RSA moduli do.\<close>

definition full_key :: "rsa_key \<Rightarrow> bool" where
  "full_key pub \<longleftrightarrow> 59 \<le> key_size pub \<and> 128 * 256 ^ (key_size pub - 1) \<le> pk_n pub"

lemma vector_first:
  assumes "11 + length pms \<le> k" and "2 \<le> length pms" and "buildPKCS1Vector kind k pms = Some b"
  shows "\<exists>x r. b = x # r \<and> unat x \<le> 0x41"
proof -
  have n: "2 \<le> k" "5 \<le> k" using assms(1) by auto
  show ?thesis
    using assms(3) assms(1,2) n
    by (cases kind)
       (auto simp: correct_block wrong_first_block wrong_pms_block no_zero_block early_zero_block framed_def
         simp del: buildPKCS1Vector.simps)
qed

lemma vector_found:
  assumes "full_key pub" and "inverts pub d" and "pms_ok pms"
  shows "\<exists>b. buildPKCS1Vector kind (key_size pub) pms = Some b \<and>
    found_in (rsa_decrypt pub d (rsaEncrypt pub b)) = vector_class kind"
proof -
  let ?k = "key_size pub"
  have l: "length pms = 48" using assms(3) by (simp add: pms_ok_def)
  then have k: "11 + length pms \<le> ?k" using assms(1) by (simp add: full_key_def)
  from vector_blocks [OF k assms(3), of kind] obtain b where
    b: "buildPKCS1Vector kind ?k pms = Some b" "length b = ?k"
    "pkcs1_decode b = (case kind of vecCorrect \<Rightarrow> Some pms
       | vec0x00AtWrongPMSPos \<Rightarrow> Some (wrong_version pms) | _ \<Rightarrow> None)"
    "\<not> pms_ok (wrong_version pms)" by blast
  from vector_first [OF k _ b(1)] l obtain x r where x: "b = x # r" "unat x \<le> 0x41" by auto
  have "be_nat b < (unat x + 1) * 256 ^ length r"
    using be_nat_less [of r] by (simp add: x(1) be_nat_Cons)
  also have "\<dots> \<le> 128 * 256 ^ length r" by (rule mult_le_mono1) (use x(2) in simp)
  also have "\<dots> \<le> pk_n pub" using assms(1) b(2) [symmetric] x(1) by (simp add: full_key_def)
  finally have "rsa_decrypt pub d (rsaEncrypt pub b) = b" by (rule decrypt_encrypt [OF assms(2) b(2)])
  then have "found_in (rsa_decrypt pub d (rsaEncrypt pub b)) = vector_class kind"
    using assms(3) b(3,4) by (cases kind) (simp_all add: found_in_def)
  with b(1) show ?thesis by blast
qed

section \<open>The server\<close>

definition robot_peer :: "(found \<Rightarrow> answer) \<Rightarrow> bytes \<Rightarrow> bytes \<Rightarrow> rsa_key \<Rightarrow> nat \<Rightarrow> peer" where
  "robot_peer policy hello der pub d =
     \<lparr>p_werr = (\<lambda>_. None),
      p_react = (\<lambda>sent.
        if length sent = 1 then at_once (flight (rsa_flight hello der))
        else if length sent = 4 then answer_segs (policy (found_in (rsa_decrypt pub d (drop 11 (sent ! 1)))))
        else [])\<rparr>"

definition robot_host :: "(found \<Rightarrow> answer) \<Rightarrow> bytes \<Rightarrow> bytes \<Rightarrow> rsa_key \<Rightarrow> nat \<Rightarrow> world \<Rightarrow> bool" where
  "robot_host policy hello der pub d w \<longleftrightarrow> w_net w = (\<lambda>_. Accepted 0 (robot_peer policy hello der pub d))"

text \<open>How the probe names the answers.\<close>

fun robot_seen :: "answer \<Rightarrow> robotSignature" where
  "robot_seen Answers = sig_of ''handshake''"
| "robot_seen (Alerts l d) = \<lparr>rs_kind = ''alert'', rs_level = l, rs_desc = d\<rparr>"
| "robot_seen Closes = sig_of ''closed''"
| "robot_seen Resets = sig_of ''reset''"
| "robot_seen Silent = sig_of ''timeout''"

lemma robot_seen_same: "sig_equal (robot_seen a) (robot_seen b) \<longleftrightarrow> a = b"
  by (cases a; cases b) (auto simp: sig_equal_def sig_of_def)

lemma robot_errors:
  "classifyTransportError err_eof = sig_of ''closed''" "classifyTransportError err_reset = sig_of ''reset''"
  "classifyTransportError err_timeout = sig_of ''timeout''"
proof -
  have s: "containsSubstr ''EOF'' ''reset'' = False" "containsSubstr ''EOF'' ''EOF'' = True"
    "containsSubstr ''read: connection reset by peer'' ''reset'' = True" by code_simp+
  show "classifyTransportError err_eof = sig_of ''closed''" "classifyTransportError err_reset = sig_of ''reset''"
    "classifyTransportError err_timeout = sig_of ''timeout''"
    using s by (simp_all add: classifyTransportError_def err_eof_def err_reset_def err_timeout_def)
qed

lemma robot_response:
  assumes "quick c" and "0 < t"
  shows "\<exists>c'. readRobotResponse (set_read_deadline t (answered bs a c)) = (robot_seen a, c')"
  using answered_read [OF assms, of bs a]
  by (cases a) (auto simp: readRobotResponse_def robot_errors sig_of_def)

section \<open>Running the probe\<close>

text \<open>The server's flight of one record is read to its end, and nothing else changes.\<close>

lemma flight_taken:
  assumes "quick c" and "stream c = flight (rsa_flight hello der)" and "length hello < 1000"
    and "der \<noteq> []" and "length der < 60000" and "x509 der = Some pub"
  shows "\<exists>c'. readServerHelloAndCert x509 c = (Some (True, Some pub), c') \<and> same c c' \<and> stream c' = []"
proof -
  define p where "p = hs_bytes [(handshakeServerHello, hello), (handshakeCertificate, cert_body [der])] @
    wrapHandshake handshakeServerHelloDone []"
  have fl: "rsa_flight hello der = [(0x0303, p)]" by (simp add: rsa_flight_def p_def)
  have len: "1 \<le> length p" "length p < 65536"
    using rsa_flight_wf(1) [OF assms(3,5)] unfolding fl by simp_all
  from next_payload_record [OF quick_clean [OF assms(1)], of "(0x0303, p)" "[]"] assms(2) len obtain c1 where
    c1: "next_payload c = (Payload p, c1)" "stream c1 = []" unfolding fl by auto
  have l: "length (cert_body [der]) < 16777216" "length hello < 16777216"
    using assms(3,5) by (simp_all add: cert_body_def)
  have key: "parseLeafRSAKey x509 (wrapHandshake handshakeCertificate (cert_body [der])) = Some (Some pub)"
    using parseLeafRSAKey_cert [of der "[]" x509] assms(4-6) l by simp
  have p: "p = wrapHandshake handshakeServerHello hello @ wrapHandshake handshakeCertificate (cert_body [der]) @
      wrapHandshake handshakeServerHelloDone [] @ []"
    by (simp add: p_def hs_bytes_def)
  have "flight_messages x509 p False None = Some (FlightDone True (Some pub))"
    unfolding p flight_messages_one [OF l(2)] flight_messages_one [OF l(1)] flight_step_def fst_conv snd_conv key
    by (simp add: flight_messages_one [of "[]" x509 handshakeServerHelloDone "[]", simplified])
  with c1 have "readServerHelloAndCert x509 c = (Some (True, Some pub), c1)"
    by (simp add: readServerHelloAndCert_def numeral_eq_Suc)
  with quick_payload [OF assms(1) c1(1)] c1(2) show ?thesis by blast
qed

lemma robot_dial:
  assumes "robot_host policy hello der pub d w" and "0 < per"
  shows "\<exists>c w1. dial None per w = (Inr c, w1) \<and> robot_host policy hello der pub d w1 \<and>
    quick (set_deadline per c) \<and> c_peer (set_deadline per c) = robot_peer policy hello der pub d \<and>
    c_sent (set_deadline per c) = [] \<and> stream (set_deadline per c) = []"
proof -
  let ?c = "open_conn (w_now w) (robot_peer policy hello der pub d)"
  have q: "quick (set_deadline per ?c)" and "c_in (set_deadline per ?c) = []"
    using assms(2)
    by (simp_all add: open_conn_def set_deadline_def quick_def expired_def enqueue_def robot_peer_def)
  then have st: "stream (set_deadline per ?c) = []" using quick_stream [OF q] by simp
  have "dial None per w = (Inr ?c, w\<lparr>w_dials := Suc (w_dials w), w_now := w_now w, w_open := w_open w + 1\<rparr>)"
    using assms by (simp add: dial_def dial_limit_def expired_def robot_host_def Let_def)
  with assms(1) q st show ?thesis
    by (auto simp: robot_host_def open_conn_def set_deadline_def)
qed

text \<open>The ClientHello and the flight it brings.\<close>

lemma hello_run:
  assumes "quick c" and "c_peer c = robot_peer policy hello der pub d" and "c_sent c = []" and "stream c = []"
    and "length hello < 1000" and "der \<noteq> []" and "length der < 60000" and "x509 der = Some pub"
  shows "\<exists>c1 c2. conn_write bs c = (None, c1) \<and>
    readServerHelloAndCert x509 c1 = (Some (True, Some pub), c2) \<and> quick c2 \<and>
    c_peer c2 = robot_peer policy hello der pub d \<and> c_sent c2 = [bs] \<and> stream c2 = []"
proof -
  let ?fl = "flight (rsa_flight hello der)"
  have ne: "?fl \<noteq> []" by (simp add: rsa_flight_def hs_record_def)
  from quick_write [OF assms(1), of bs ?fl] assms(2-4) ne obtain c1 where
    c1: "conn_write bs c = (None, c1)" "quick c1" "c_peer c1 = robot_peer policy hello der pub d"
      "c_sent c1 = [bs]" "stream c1 = ?fl" by (auto simp: robot_peer_def)
  from flight_taken [where ?x509.0 = x509, OF c1(2,5) assms(5-8)] obtain c2 where
    "readServerHelloAndCert x509 c1 = (Some (True, Some pub), c2)" "same c1 c2" "stream c2 = []" by blast
  with c1 show ?thesis by (auto simp: same_def)
qed

lemma silent_write:
  assumes "quick c" and "c_peer c = robot_peer policy hello der pub d" and "stream c = []"
    and "length (c_sent c) = 1 \<or> length (c_sent c) = 2"
  shows "\<exists>c'. conn_write bs c = (None, c') \<and> quick c' \<and> c_peer c' = robot_peer policy hello der pub d \<and>
    c_sent c' = c_sent c @ [bs] \<and> stream c' = []"
proof -
  have "p_werr (c_peer c) sent = None" for sent by (simp add: assms(2) robot_peer_def)
  moreover have "p_react (c_peer c) (c_sent c @ [bs]) = []"
    using assms(4) by (auto simp: assms(2) robot_peer_def)
  ultimately show ?thesis using quick_write [OF assms(1), of bs "[]"] assms(2,3) by auto
qed

lemma exchange_answer:
  assumes "robot_host policy hello der pub d w" and "0 < per"
    and "length hello < 1000" and "der \<noteq> []" and "length der < 60000" and "x509 der = Some pub"
    and "full_key pub" and "inverts pub d"
  shows "\<exists>w'. robotExchange x509 None host pub kind per w =
      (Some (Some (robot_seen (policy (vector_class kind)))), w') \<and> robot_host policy hello der pub d w'"
proof -
  from robot_dial [OF assms(1,2)] obtain c w1 where
    d: "dial None per w = (Inr c, w1)" "robot_host policy hello der pub d w1"
    and c: "quick (set_deadline per c)" "c_peer (set_deadline per c) = robot_peer policy hello der pub d"
      "c_sent (set_deadline per c) = []" "stream (set_deadline per c) = []" by blast
  from hello_run [where ?x509.0 = x509, OF c assms(3-6), of "robotClientHello host"] obtain c1 c2 where
    h: "conn_write (robotClientHello host) (set_deadline per c) = (None, c1)"
      "readServerHelloAndCert x509 c1 = (Some (True, Some pub), c2)"
    and c2: "quick c2" "c_peer c2 = robot_peer policy hello der pub d" "c_sent c2 = [robotClientHello host]"
      "stream c2 = []" by blast
  obtain pms w2 where p: "newPMS w1 = (pms, w2)" by (metis surj_pair)
  then have pms: "pms_ok pms" and w2: "robot_host policy hello der pub d w2"
    using d(2) by (auto simp: newPMS_def rand_read_def pms_ok_def robot_host_def split: option.splits)
  from vector_found [OF assms(7,8) pms, of kind] obtain b where
    b: "buildPKCS1Vector kind (key_size pub) pms = Some b"
      "found_in (rsa_decrypt pub d (rsaEncrypt pub b)) = vector_class kind" by blast
  let ?r = "robotClientKeyExchange (rsaEncrypt pub b)"
  obtain c3 where c3: "conn_write ?r c2 = (None, c3)" "quick c3" "c_peer c3 = robot_peer policy hello der pub d"
    "c_sent c3 = [robotClientHello host, ?r]" "stream c3 = []"
    using silent_write [OF c2(1,2,4), of ?r] c2(3) by auto
  obtain c4 where c4: "conn_write robotChangeCipherSpec c3 = (None, c4)" "quick c4"
    "c_peer c4 = robot_peer policy hello der pub d"
    "c_sent c4 = [robotClientHello host, ?r, robotChangeCipherSpec]" "stream c4 = []"
    using silent_write [OF c3(2,3,5), of robotChangeCipherSpec] c3(4) by auto
  have "drop 11 ?r = rsaEncrypt pub b"
    by (simp add: robotClientKeyExchange_def wrapTLS12Record_def put16_def put24_def Let_def)
  then have "p_react (c_peer c4) (c_sent c4 @ [robotBogusFinished]) = answer_segs (policy (vector_class kind))"
    by (simp add: c4(3,4) robot_peer_def b(2))
  from answered_write [OF c4(2,5) _ this] have
    c5: "conn_write robotBogusFinished c4 = (None, answered robotBogusFinished (policy (vector_class kind)) c4)"
    by (simp add: c4(3) robot_peer_def)
  have t: "0 < robot_response_timeout per"
    using assms(2) by (simp add: robot_response_timeout_def millisecond_def)
  from robot_response [OF c4(2) t, of robotBogusFinished "policy (vector_class kind)"] obtain c6 where
    c6: "readRobotResponse (set_read_deadline (robot_response_timeout per)
        (answered robotBogusFinished (policy (vector_class kind)) c4)) =
      (robot_seen (policy (vector_class kind)), c6)" by blast
  have "robotExchange_body x509 host pub kind per (set_deadline per c) w1 =
      (Some (Some (robot_seen (policy (vector_class kind)))), c6, w2)"
    by (simp add: robotExchange_body_def h p b(1) c3(1) c4(1) c5 c6 Let_def del: buildPKCS1Vector.simps)
  with d(1) w2 show ?thesis
    by (simp add: robotExchange_def with_conn_def robot_host_def conn_close_def)
qed

lemma key_answer:
  assumes "robot_host policy hello der pub d w" and "0 < per"
    and "length hello < 1000" and "der \<noteq> []" and "length der < 60000" and "x509 der = Some pub"
  shows "\<exists>w'. robotServerRSAKey x509 None host per w = (Some (Some pub), w') \<and>
    robot_host policy hello der pub d w'"
proof -
  from robot_dial [OF assms(1,2)] obtain c w1 where
    d: "dial None per w = (Inr c, w1)" "robot_host policy hello der pub d w1"
    and c: "quick (set_deadline per c)" "c_peer (set_deadline per c) = robot_peer policy hello der pub d"
      "c_sent (set_deadline per c) = []" "stream (set_deadline per c) = []" by blast
  from hello_run [where ?x509.0 = x509, OF c assms(3-6), of "robotClientHello host"] obtain c1 c2 where
    "conn_write (robotClientHello host) (set_deadline per c) = (None, c1)"
    "readServerHelloAndCert x509 c1 = (Some (True, Some pub), c2)" by blast
  with d show ?thesis
    by (simp add: robotServerRSAKey_def with_conn_def plain_def robotServerRSAKey_body_def robot_host_def
        conn_close_def)
qed

text \<open>
  The decision over a host that answers every exchange for a vector with the same signature. The
  invariant \<open>I\<close> of the world is what makes it answer so.
\<close>

lemma stable_constant:
  assumes "\<And>w. I w \<Longrightarrow> \<exists>w'. exch w = (Some (Some r), w') \<and> I w'" and "I w"
  shows "\<exists>w'. stable sig_equal exch zero repetitions w = (Some (Some r), w') \<and> I w'"
proof -
  from assms obtain w1 where 1: "exch w = (Some (Some r), w1)" "I w1" by blast
  from assms(1) [OF 1(2)] obtain w2 where 2: "exch w1 = (Some (Some r), w2)" "I w2" by blast
  have "stable sig_equal exch zero 2 w = (Some (Some r), w2)"
    unfolding stable_twice using 1(1) 2(1) robot_sig.refl by blast
  with 2(2) show ?thesis by (auto simp: repetitions_def)
qed

lemma decide_constant:
  assumes "\<And>kind w. I w \<Longrightarrow> \<exists>w'. sigs kind w = (Some (Some (f kind)), w') \<and> I w'"
  shows "I w \<Longrightarrow> fst (robot_decide sigs correct kinds w) =
    Some (\<forall>k \<in> set kinds. k \<noteq> vecCorrect \<longrightarrow> \<not> sig_equal (f k) correct)"
proof (induction kinds arbitrary: w)
  case (Cons k ks)
  from assms [OF Cons.prems, of k] obtain w1 where
    "sigs k w = (Some (Some (f k)), w1)" "I w1" by blast
  with Cons show ?case by simp
qed simp

lemma robot_verdict:
  assumes "robot_host policy hello der pub d w" and "0 < timeout"
    and "length hello < 1000" and "der \<noteq> []" and "length der < 60000" and "x509 der = Some pub"
    and "full_key pub" and "inverts pub d"
  shows "fst (ProbeROBOT x509 None host timeout w) =
    Some (policy Malformed \<noteq> policy WellFormed \<and> policy WrongVersion \<noteq> policy WellFormed)"
proof -
  let ?I = "robot_host policy hello der pub d" and ?per = "probe_per timeout"
  let ?f = "\<lambda>kind. robot_seen (policy (vector_class kind))"
  have per: "0 < ?per" by (rule probe_per_pos [OF assms(2)])
  from key_answer [where ?x509.0 = x509, OF assms(1) per assms(3-6), of host] obtain w1 where
    k: "robotServerRSAKey x509 None host ?per w = (Some (Some pub), w1)" "?I w1" by blast
  have st: "\<exists>w'. stableSignature x509 None host pub kind repetitions ?per w = (Some (Some (?f kind)), w') \<and> ?I w'"
    if "?I w" for kind w
    unfolding stableSignature_def
    by (rule stable_constant [where I = ?I, OF exchange_answer [where ?x509.0 = x509, OF _ per assms(3-8)] that])
  from st [OF k(2), of vecCorrect] obtain w2 where
    c: "stableSignature x509 None host pub vecCorrect repetitions ?per w1 =
      (Some (Some (robot_seen (policy WellFormed))), w2)" "?I w2" by auto
  let ?sigs = "\<lambda>kind. stableSignature x509 None host pub kind repetitions ?per"
  have "fst (robot_decide ?sigs (robot_seen (policy WellFormed)) allRobotVectors w2) =
      Some (\<forall>k \<in> set allRobotVectors. k \<noteq> vecCorrect \<longrightarrow> \<not> sig_equal (?f k) (robot_seen (policy WellFormed)))"
    by (rule decide_constant [where I = ?I, OF _ c(2)]) (rule st)
  then have "fst (robot_decide ?sigs (robot_seen (policy WellFormed)) allRobotVectors w2) =
      Some (policy Malformed \<noteq> policy WellFormed \<and> policy WrongVersion \<noteq> policy WellFormed)"
    unfolding robot_seen_same by (simp only: allRobotVectors_def) auto
  with k(1) c(1) show ?thesis by (simp add: ProbeROBOT_def Let_def)
qed

section \<open>Which oracles the probe finds\<close>

text \<open>
  C7. Detection. Against any server with an RSA key that answers each exchange at once, by whatever it
  finds in the decrypted block, the probe ends with an answer, whatever the random bytes: it
  reports the server exactly if the answer to a well-formed block differs both from that to a block
  that is no PKCS#1 block and from that to a conforming block with the wrong version.
\<close>

theorem ProbeROBOT_verdict:
  assumes "w_net w = (\<lambda>_. Accepted 0 (robot_peer policy hello der pub d))" and "0 < timeout"
    and "length hello < 1000" and "der \<noteq> []" and "length der < 60000" and "x509 der = Some pub"
    and "full_key pub" and "inverts pub d"
  shows "fst (ProbeROBOT x509 None host timeout w) =
    Some (policy Malformed \<noteq> policy WellFormed \<and> policy WrongVersion \<noteq> policy WellFormed)"
  by (rule robot_verdict [where ?x509.0 = x509, OF _ assms(2-8)]) (simp add: robot_host_def assms(1))

text \<open>A key of 64 bytes and a strict oracle: one alert for a good secret, another for everything else.\<close>

definition demo_key :: rsa_key where
  "demo_key = \<lparr>pk_n = 2 ^ 511, pk_e = 1\<rparr>"

lemma bit_len_pow: "bit_len (2 ^ k) = Suc k"
proof (induction k)
  case 0
  show ?case by (simp add: bit_len.simps)
next
  case (Suc k)
  then show ?case by (subst bit_len.simps) simp
qed

lemma demo_key_ok: "full_key demo_key" "inverts demo_key 1"
proof -
  have k: "key_size demo_key = 64" by (simp add: key_size_def demo_key_def bit_len_pow del: power_numeral)
  have "(128 :: nat) * 256 ^ 63 = 2 ^ 511" by simp
  with k show "full_key demo_key" by (simp add: full_key_def demo_key_def)
  show "inverts demo_key 1" by (simp add: inverts_def demo_key_def)
qed

definition host_world :: "(found \<Rightarrow> answer) \<Rightarrow> world" where
  "host_world policy = (answering []) \<lparr>w_net := \<lambda>_. Accepted 0 (robot_peer policy [] [1, 2, 3] demo_key 1)\<rparr>"

theorem ProbeROBOT_verdict_witness:
  "fst (ProbeROBOT (\<lambda>_. Some demo_key) None ''host'' second
     (host_world (\<lambda>f. if f = WellFormed then Alerts 2 20 else Alerts 2 51))) = Some True"
  using ProbeROBOT_verdict [of "host_world (\<lambda>f. if f = WellFormed then Alerts 2 20 else Alerts 2 51)"
      "\<lambda>f. if f = WellFormed then Alerts 2 20 else Alerts 2 51" "[]" "[1, 2, 3]" demo_key 1 second
      "\<lambda>_. Some demo_key" "''host''"] demo_key_ok
  by (simp add: host_world_def second_def)

text \<open>
  The oracle the probe cannot see. A server that leaks exactly what Bleichenbacher's attack needs,
  whether a block conforms to PKCS#1, but not the version inside it, is cleared: its answer to the
  fifth vector is that to the well-formed one, and a single matching vector ends the loop.
\<close>

theorem ProbeROBOT_misses_conformity:
  assumes "w_net w = (\<lambda>_. Accepted 0 (robot_peer (\<lambda>f. if f = Malformed then a else b) hello der pub d))"
    and "0 < timeout"
    and "length hello < 1000" and "der \<noteq> []" and "length der < 60000" and "x509 der = Some pub"
    and "full_key pub" and "inverts pub d"
  shows "fst (ProbeROBOT x509 None host timeout w) = Some False"
  using robot_verdict [where ?x509.0 = x509 and policy = "\<lambda>f. if f = Malformed then a else b", OF _ assms(2-8), of w host] assms(1)
  by (simp add: robot_host_def)

theorem ProbeROBOT_misses_conformity_witness:
  "fst (ProbeROBOT (\<lambda>_. Some demo_key) None ''host'' second
     (host_world (\<lambda>f. if f = Malformed then Alerts 2 51 else Alerts 2 20))) = Some False"
  using ProbeROBOT_misses_conformity [of "host_world (\<lambda>f. if f = Malformed then Alerts 2 51 else Alerts 2 20)"
      "Alerts 2 51" "Alerts 2 20" "[]" "[1, 2, 3]" demo_key 1 second "\<lambda>_. Some demo_key" "''host''"] demo_key_ok
  by (simp add: host_world_def second_def)

end
