(* ===== verification/UnitTests.thy ===== *)
theory UnitTests
  imports Scanner RobotServer
begin

text \<open>
  The repository's own unit tests that need no network, as theorems about the model: what the Go tests
  assert of the code holds of the definitions. A test that loops over sizes or random values becomes a
  statement about all of them, and "unreachable" is any world in which no dial succeeds.
\<close>

section \<open>cbc_test.go\<close>

text \<open>\<open>newTestSession\<close> is the demo session; only its \<open>ecdhe\<close> flag, which records do not use, differs.\<close>

theorem TestPHashSHA256_ExactLength: "length (pHashSHA256 (bytes_of ''k'') (bytes_of ''seed'') n) = n"
  using length_prf12 [of "bytes_of ''k''" "''seed''" "[]" n] by (simp add: prf12_def del: length_prf12)

theorem TestComputeMAC:
  "computeMAC (clientWriteMAC demo_session) 7 recordApplicationData (bytes_of ''hello world'') =
     hmac sha1 (replicate 20 0x33)
       ([0, 0, 0, 0, 0, 0, 0, 7, recordApplicationData, 0x03, 0x03, 0x00, 0x0b] @ bytes_of ''hello world'')"
proof -
  have "put64 7 = [0, 0, 0, 0, 0, 0, 0, 7]" by (simp add: put64_def)
  moreover have "put16 versionTLS12 = [0x03, 0x03]" by (simp add: put16_def)
  moreover have "put16 (length (bytes_of ''hello world'')) = [0x00, 0x0b]" by code_simp
  moreover have "clientWriteMAC demo_session = replicate 20 0x33" by (simp add: demo_session_def)
  ultimately show ?thesis by (simp only: computeMAC_def append.simps)
qed

text \<open>The plaintext of a valid record: aligned, the last byte counts the equal padding bytes before it.\<close>

theorem TestMacThenPad_ValidIsBlockAligned:
  "let plain = macThenPad demo_session recordApplicationData content False (- 1); padLen = unat (last plain)
   in length plain mod 16 = 0 \<and> padLen + 1 \<le> length plain \<and>
      (\<forall>b \<in> set (drop (length plain - padLen - 1) plain). unat b = padLen) \<and>
      length plain - (padLen + 1) = length content + 20"
proof -
  obtain n where n: "n < 16" and p: "macThenPad demo_session recordApplicationData content False (- 1) =
      (content @ sent_mac demo_session recordApplicationData content False) @ replicate (n + 1) (of_nat n)"
    and d: "16 dvd length (macThenPad demo_session recordApplicationData content False (- 1))"
    using macThenPad_valid [OF demo_session_wf, of recordApplicationData content False] by blast
  have u: "unat (of_nat n :: byte) = n" using n by (simp add: unat_of_nat)
  have l: "unat (last (macThenPad demo_session recordApplicationData content False (- 1))) = n"
    using n unfolding p by (simp add: u last_replicate del: replicate.simps)
  show ?thesis
    using n d unfolding Let_def l unfolding p by (simp add: u mod_eq_0_iff_dvd)
qed

theorem TestClassifyCBC:
  fixes alert :: "byte \<Rightarrow> byte \<Rightarrow> cbcReaction"
  defines "alert \<equiv> \<lambda>lv d. \<lparr>cr_kind = ''alert'', cr_level = lv, cr_desc = d\<rparr>"
  shows "classifyCBC (alert 2 20) (alert 2 20) (alert 2 20) = no_oracle \<and>
    classifyCBC (reaction_of ''reset'') (reaction_of ''reset'') (reaction_of ''reset'') = no_oracle \<and>
    goldenDoodle (classifyCBC (reaction_of ''data'') (alert 2 20) (alert 2 20)) \<and>
    zombiePoodle (classifyCBC (alert 2 20) (reaction_of ''data'') (alert 2 20)) \<and>
    sleepingPoodle (classifyCBC (alert 2 20) (alert 2 50) (alert 2 20)) \<and>
    \<not> zombiePoodle (classifyCBC (alert 2 20) (alert 2 50) (alert 2 20)) \<and>
    cve20191559 (classifyCBC (alert 2 20) (alert 2 20) (reaction_of ''data''))"
  by (simp add: alert_def classifyCBC_def cbc_equal_def reaction_of_def)

section \<open>robot_test.go\<close>

text \<open>\<open>newPMS\<close>: 48 bytes of version 3.3, whatever the random source does.\<close>

lemma newPMS_ok: "newPMS w = (pms, w') \<Longrightarrow> pms_ok pms"
  by (auto simp: newPMS_def rand_read_def pms_ok_def split: option.splits)

text \<open>
  The five blocks, for moduli of any size that a premaster fits into: their length, their leading bytes,
  and where the first zero byte after them is.
\<close>

theorem TestBuildPKCS1Vector:
  assumes "newPMS w = (pms, w')" and "59 \<le> k"
  shows "\<exists>b. buildPKCS1Vector vecCorrect k pms = Some b \<and> length b = k \<and> take 2 b = [0x00, 0x02] \<and>
      (\<forall>i < k - 51. (drop 2 b) ! i \<noteq> 0) \<and> b ! (k - 49) = 0 \<and> drop (k - 48) b = pms"
    and "\<exists>b. buildPKCS1Vector vecWrongFirstBytes k pms = Some b \<and> length b = k \<and> take 2 b = [0x41, 0x17]"
    and "\<exists>b. buildPKCS1Vector vecNo0x00 k pms = Some b \<and> length b = k \<and> take 2 b = [0x00, 0x02] \<and> 0 \<notin> set (drop 2 b)"
    and "\<exists>b. buildPKCS1Vector vec0x00InPadding k pms = Some b \<and> take 2 b = [0x00, 0x02] \<and>
      takeWhile (\<lambda>x. x \<noteq> 0) (drop 2 b) = [0xff, 0xff]"
    and "\<exists>b m. buildPKCS1Vector vec0x00AtWrongPMSPos k pms = Some b \<and> take 2 b = [0x00, 0x02] \<and>
      drop (k - 48) b = m \<and> take 2 m \<noteq> [0x03, 0x03]"
proof -
  have p: "length pms = 48" "pms_ok pms" using newPMS_ok [OF assms(1)] by (simp_all add: pms_ok_def)
  have k: "11 + length pms \<le> k" "2 \<le> k" "5 \<le> k" "2 \<le> length pms" using assms(2) p by auto
  define n where "n = k - 51"
  have kn: "k = n + 51" "k - 3 - length pms = n" using k p by (simp_all add: n_def)
  have first: "(drop 2 (framed x y n m)) ! i \<noteq> 0" if "i < n" for i x y m
    using that by (simp add: framed_def nth_append)
  have rest: "framed x y n m ! (n + 2) = 0" "drop (3 + n) (framed x y n m) = m" for x y m
    by (simp_all add: framed_def nth_append numeral_3_eq_3)
  show "\<exists>b. buildPKCS1Vector vecCorrect k pms = Some b \<and> length b = k \<and> take 2 b = [0x00, 0x02] \<and>
      (\<forall>i < k - 51. (drop 2 b) ! i \<noteq> 0) \<and> b ! (k - 49) = 0 \<and> drop (k - 48) b = pms"
    using first rest p(1) unfolding correct_block [OF k(1)] kn(2) by (simp add: kn(1)) (simp add: framed_def)
  show "\<exists>b. buildPKCS1Vector vecWrongFirstBytes k pms = Some b \<and> length b = k \<and> take 2 b = [0x41, 0x17]"
    using p(1) unfolding wrong_first_block [OF k(1)] kn(2) by (simp add: kn(1) framed_def)
  show "\<exists>b. buildPKCS1Vector vecNo0x00 k pms = Some b \<and> length b = k \<and> take 2 b = [0x00, 0x02] \<and> 0 \<notin> set (drop 2 b)"
    using k(2) unfolding no_zero_block [OF k(2)] by simp
  show "\<exists>b. buildPKCS1Vector vec0x00InPadding k pms = Some b \<and> take 2 b = [0x00, 0x02] \<and>
      takeWhile (\<lambda>x. x \<noteq> 0) (drop 2 b) = [0xff, 0xff]"
    unfolding early_zero_block [OF k(3)] by simp
  have "take 2 (wrong_version pms) \<noteq> [0x03, 0x03]" by (simp add: wrong_version_def)
  then show "\<exists>b m. buildPKCS1Vector vec0x00AtWrongPMSPos k pms = Some b \<and> take 2 b = [0x00, 0x02] \<and>
      drop (k - 48) b = m \<and> take 2 m \<noteq> [0x03, 0x03]"
    using rest unfolding wrong_pms_block [OF k(1,4)] kn(2) by (simp add: kn(1)) (simp add: framed_def)
qed

lemma zero_neq_ff: "(0xff :: byte) \<noteq> 0"
  by simp

theorem TestAllRobotVectors_LengthAndUniqueness:
  assumes "newPMS w = (pms, w')" and "59 \<le> k"
  shows "\<exists>bs. map (\<lambda>v. buildPKCS1Vector v k pms) allRobotVectors = map Some bs \<and> (\<forall>b \<in> set bs. length b = k) \<and> distinct bs"
proof -
  have p: "length pms = 48" "pms_ok pms" using newPMS_ok [OF assms(1)] by (simp_all add: pms_ok_def)
  have k: "11 + length pms \<le> k" "2 \<le> k" "5 \<le> k" "2 \<le> length pms" using assms(2) p by auto
  obtain m where m: "k = m + 59" using assms(2) le_Suc_ex [of 59 k] by (auto simp: add.commute)
  have "take 2 pms \<noteq> take 2 (wrong_version pms)" using p(2) by (simp add: pms_ok_def wrong_version_def)
  then have w: "pms \<noteq> wrong_version pms" by metis
  let ?bs = "[framed 0 2 (k - 51) pms, framed 0x41 0x17 (k - 51) pms, [0, 2] @ replicate (k - 2) 0xff,
    [0, 2, 0xff, 0xff, 0] @ replicate (k - 5) 0xff, framed 0 2 (k - 51) (wrong_version pms)]"
  have zero: "0 \<in> set (drop 2 (framed x y n q))" for x y n q by (simp add: framed_def)
  have fifth: "framed 0 2 (k - 51) q ! 4 \<noteq> 0" for q by (simp add: framed_def m nth_append)
  have four: "framed 0 2 (k - 51) q \<noteq> [0, 2, 0xff, 0xff, 0] @ replicate (k - 5) 0xff" for q
    using fifth [of q] arg_cong [of "framed 0 2 (k - 51) q" "[0, 2, 0xff, 0xff, 0] @ replicate (k - 5) 0xff" "\<lambda>b. b ! 4"] by auto
  have three: "framed 0 2 (k - 51) q \<noteq> [0, 2] @ replicate (k - 2) 0xff" for q
    using zero [of 0 2 "k - 51" q]
      arg_cong [of "framed 0 2 (k - 51) q" "[0, 2] @ replicate (k - 2) 0xff" "\<lambda>b. 0 \<in> set (drop 2 b)"] by auto
  have other: "framed 0 2 (k - 51) q \<noteq> framed 0x41 0x17 (k - 51) q'" "framed 0x41 0x17 (k - 51) q' \<noteq> [0, 2] @ s"
    "framed 0x41 0x17 (k - 51) q' \<noteq> [0, 2, 0xff, 0xff, 0] @ s" "framed 0 2 (k - 51) q = framed 0 2 (k - 51) q' \<longleftrightarrow> q = q'"
    for q q' s
    by (simp_all add: framed_def m)
  have "[0, 2] @ replicate (k - 2) 0xff \<noteq> [0, 2, 0xff, 0xff, 0 :: byte] @ s" for s
  proof -
    have "([0, 2] @ replicate (k - 2) 0xff) ! 4 = (0xff :: byte)" "([0, 2, 0xff, 0xff, 0 :: byte] @ s) ! 4 = 0"
      by (simp_all add: m)
    then show ?thesis by (metis zero_neq_ff)
  qed
  note ne = other(1-3) this four three
  have d: "distinct ?bs"
    by (simp only: distinct.simps list.set insert_iff empty_iff ne ne [symmetric] other(4) w simp_thms)
  have "map (\<lambda>v. buildPKCS1Vector v k pms) allRobotVectors = map Some ?bs"
    using p(1) by (simp add: allRobotVectors_def correct_block [OF k(1)] wrong_first_block [OF k(1)] no_zero_block [OF k(2)]
        early_zero_block [OF k(3)] wrong_pms_block [OF k(1,4)] del: buildPKCS1Vector.simps)
  moreover have "\<forall>b \<in> set ?bs. length b = k"
    using p(1) by (simp add: framed_def m wrong_version_def)
  ultimately show ?thesis using d by blast
qed

theorem TestSNIExtension:
  "sniExtension [] = [] \<and> take 2 (sniExtension ''example.com'') = [0x00, 0x00] \<and> length (sniExtension ''example.com'') = 20"
  by (simp add: sniExtension_def bytes_of_def put16_def)

section \<open>probes_test.go\<close>

definition buildServerHello :: "bytes option \<Rightarrow> bytes" where
  "buildServerHello extensions =
     (let body = [0x03, 0x03] @ replicate 32 0 @ [0x00] @ [0xc0, 0x2f] @ [0x00] @
                 (case extensions of None \<Rightarrow> [] | Some es \<Rightarrow> put16 (length es) @ es)
      in [handshakeServerHello] @ put24 (length body) @ body)"

definition renegInfoExt :: bytes where
  "renegInfoExt = [0xff, 0x01, 0x00, 0x01, 0x00]"

lemma built_hello:
  "buildServerHello (map_option enc_exts es) =
     wrapHandshake handshakeServerHello (enc_hello_body
       \<lparr>sh_version = 0x0303, sh_random = replicate 32 0, sh_session = [], sh_suite = 0xc02f, sh_compression = 0x00,
        sh_exts = es\<rparr>)"
proof -
  have "put16 0x0303 = [0x03, 0x03]" "put16 0xc02f = [0xc0, 0x2f]" by (simp_all add: put16_def)
  then show ?thesis
    by (cases es) (simp_all add: buildServerHello_def wrapHandshake_def enc_hello_body_def)
qed

lemma built_has_ext:
  assumes "es = None \<or> (\<exists>t d. es = Some [(t, d)] \<and> t < 65536 \<and> length d < 1000)"
  shows "serverHelloHasExtension (buildServerHello (map_option enc_exts es)) w =
    Some (es \<noteq> None \<and> fst (hd (the es)) = w)"
  unfolding built_hello using assms
  by (subst has_ext_hello) (auto simp: wf_hello_def wf_exts_def enc_exts_def enc_ext_def hello_ext_types_def)

theorem TestServerHelloHasExtension:
  "serverHelloHasExtension (buildServerHello (Some renegInfoExt)) extRenegotiationInfo = Some True \<and>
   serverHelloHasExtension (buildServerHello (Some [0x00, 0x0b, 0x00, 0x02, 0x01, 0x00])) extRenegotiationInfo = Some False \<and>
   serverHelloHasExtension (buildServerHello None) extRenegotiationInfo = Some False"
proof -
  have "enc_exts [(0xff01, [0x00])] = renegInfoExt" "enc_exts [(0x000b, [0x01, 0x00])] = [0x00, 0x0b, 0x00, 0x02, 0x01, 0x00]"
    by (simp_all add: enc_exts_def enc_ext_def put16_def renegInfoExt_def)
  then show ?thesis
    using built_has_ext [of "Some [(0xff01, [0x00])]"] built_has_ext [of "Some [(0x000b, [0x01, 0x00])]"] built_has_ext [of None]
    by simp
qed

theorem TestServerHelloHasExtension_Truncated: "serverHelloHasExtension msg extRenegotiationInfo \<noteq> None"
  by (rule has_ext_total)

theorem TestClientHelloTLS_WellFormed:
  "let hello = clientHelloTLS versionTLS10 versionTLS10 [0x0003, 0x5600] []
   in hello ! 0 = recordHandshake \<and> idx16 hello 1 = Some versionTLS10 \<and> idx16 hello 3 = Some (length hello - 5) \<and>
      hello ! 5 = 0x01"
  by (simp add: clientHelloTLS_def Let_def idx16_def idx_def put16_def put24_def suite_bytes_def get16_def)

theorem TestClientHelloSSL2_Framing:
  "and (clientHelloSSL2 ! 0) 0x80 \<noteq> 0 \<and>
   unat (and (clientHelloSSL2 ! 0) 0x7f) * 256 + unat (clientHelloSSL2 ! 1) = length clientHelloSSL2 - 2 \<and>
   clientHelloSSL2 ! 2 = sslv2ClientHello"
  by (simp add: clientHelloSSL2_def Let_def put16_def)

section \<open>badssl_test.go\<close>

theorem TestFallbackProbeVersion:
  "fallbackProbeVersion (no_protocols\<lparr>TLS12 := True\<rparr>) = 0 \<and>
   fallbackProbeVersion (no_protocols\<lparr>TLS13 := True\<rparr>) = 0 \<and>
   fallbackProbeVersion (no_protocols\<lparr>TLS12 := True, TLS13 := True\<rparr>) = 0x0303 \<and>
   fallbackProbeVersion (no_protocols\<lparr>TLS10 := True, TLS11 := True, TLS12 := True\<rparr>) = 0x0302 \<and>
   fallbackProbeVersion (no_protocols\<lparr>TLS11 := True, TLS12 := True\<rparr>) = 0x0302 \<and>
   fallbackProbeVersion (no_protocols\<lparr>TLS10 := True\<rparr>) = 0 \<and>
   fallbackProbeVersion (no_protocols\<lparr>TLS10 := True, TLS13 := True\<rparr>) = 0x0301 \<and>
   fallbackProbeVersion no_protocols = 0"
  by (simp add: fallbackProbeVersion_def supported_versions_def no_protocols_def)

section \<open>Unreachable hosts\<close>

text \<open>Every probe answers that the host is not vulnerable; none panics.\<close>

theorem TestProbes_UnreachableAreSafe:
  assumes "offline ctx w"
  shows "\<not> fst (ProbeSSL2 ctx timeout w) \<and> \<not> fst (ProbeSSL3 ctx timeout w) \<and>
    \<not> fst (ProbeExportRSA ctx timeout w) \<and> \<not> fst (ProbeExportDH ctx timeout w) \<and>
    fst (ProbeInsecureRenegotiation ctx timeout w) = Some False \<and>
    \<not> fst (ProbeFallbackSCSVMissing ctx version timeout w) \<and>
    \<not> fst (fst (Heartbleed ctx timeout w)) \<and>
    fst (ProbeROBOT x509 ctx host timeout w) = Some False \<and>
    fst (ProbeCBCPaddingOracles lib x509 ctx host timeout w) = Some no_oracle"
proof -
  have l: "sees ctx (ProbeSSL3 ctx timeout) (\<lambda>r. r = False)" "sees ctx (ProbeSSL2 ctx timeout) (\<lambda>r. r = False)"
    unfolding ProbeSSL3_def ProbeSSL2_def Let_def by (rule sees_false)+
  note d = sees_D [OF _ assms]
  show ?thesis
    using d [OF l(1)] d [OF l(2)] d [OF sees_Heartbleed] d [OF sees_ROBOT] d [OF sees_CBC]
      d [OF sees_signalling(1)] d [OF sees_signalling(2)] d [OF sees_signalling(3)] d [OF sees_signalling(4)]
    by simp
qed

end
