(* ===== verification/KnownAnswers.thy ===== *)
theory KnownAnswers
  imports Aes
begin

text \<open>
  Known-answer tests of the primitives that the model defines in place of Go's library: the digests
  of "abc" from FIPS 180-4 and the AES-128 example of FIPS 197, appendix C.1, computed in the logic from the
  definitions of \<open>Crypto\<close> and \<open>Aes\<close>. Sums are cut to 32 bits in each step, which keeps the numerals short.
\<close>

section \<open>Evaluation\<close>

definition trim :: "u32 \<Rightarrow> u32" where
  "trim w = and w 0xffffffff"

lemma trim_id: "trim w = w"
proof -
  have "(0xffffffff :: u32) = - 1" by simp
  then show ?thesis unfolding trim_def by (simp only: and.right_neutral)
qed

lemma high_bit: "32 \<le> i \<Longrightarrow> \<not> bit (w :: u32) i"
  by (auto dest: bit_imp_le_length)

lemma rotl32:
  assumes n: "n < 32"
  shows "word_rotl n (w :: u32) = or (push_bit n w) (drop_bit (32 - n) w)"
proof (rule bit_word_eqI)
  fix i assume "i < LENGTH(32)"
  then have i: "i < 32" by simp
  have len: "LENGTH(32) = 32" by simp
  have m: "(i + (32 - n mod 32)) mod 32 = (if n \<le> i then i - n else i + (32 - n))"
    using n i by (auto simp: mod_if)
  have "bit (word_rotl n w) i \<longleftrightarrow> bit w (if n \<le> i then i - n else i + (32 - n))"
    unfolding bit_word_rotl_iff len m using i by simp
  also have "\<dots> \<longleftrightarrow> bit (or (push_bit n w) (drop_bit (32 - n) w)) i"
    using i high_bit [of "32 - n + i" w] by (auto simp: bit_or_iff bit_push_bit_iff bit_drop_bit_eq add.commute)
  finally show "bit (word_rotl n w) i \<longleftrightarrow> bit (or (push_bit n w) (drop_bit (32 - n) w)) i" .
qed

lemma rotr32: "n < 32 \<Longrightarrow> word_rotr n (w :: u32) = or (drop_bit n w) (push_bit (32 - n) w)"
proof (rule bit_word_eqI)
  fix i assume "n < 32" and i: "i < LENGTH(32)"
  then have "(i + n) mod 32 = (if i + n < 32 then i + n else i + n - 32)" by (auto simp: mod_if)
  with \<open>n < 32\<close> i show "bit (word_rotr n w) i = bit (or (drop_bit n w) (push_bit (32 - n) w)) i"
    by (auto simp: bit_word_rotr_iff bit_or_iff bit_push_bit_iff bit_drop_bit_eq add.commute high_bit)
qed

lemma extend_step: "extend f (numeral k) ws = extend f (pred_numeral k) (ws @ [trim (f ws)])"
  by (simp add: numeral_eq_Suc trim_id)

lemma trim_small: "trim 0 = 0" "trim 1 = 1"
  by (simp_all add: trim_id)

lemma sha1_step: "sha1_round (a, b, c, d, e) (t, w) =
    (trim (word_rotl 5 a + sha1_f t b c d + e + sha1_k t + w), a, trim (word_rotl 30 b), c, d)"
  by (simp add: sha1_round_def trim_id)

lemma sha256_step: "sha256_round (a, b, c, d, e, f, g, h) (k, w) =
    (let t1 = trim (h + xor (word_rotr 6 e) (xor (word_rotr 11 e) (word_rotr 25 e)) +
             xor (and e f) (and (not e) g) + k + w);
         t2 = xor (word_rotr 2 a) (xor (word_rotr 13 a) (word_rotr 22 a)) +
                 xor (and a b) (xor (and a c) (and b c))
     in (trim (t1 + t2), a, b, c, trim (d + t1), e, f, g))"
  by (simp add: sha256_round_def trim_id)

lemmas sha_eval = rotl32 rotr32 extend_step ago_def trim_small trim_def [of "numeral w" for w]

lemma sha1_eval:
  "sha1_compress (a, b, c, d, e) ws =
     (case foldl sha1_round (a, b, c, d, e) (zip [0..<80]
        (extend (\<lambda>ws. word_rotl 1 (xor (ago ws 3) (xor (ago ws 8) (xor (ago ws 14) (ago ws 16))))) 64 ws)) of
        (a', b', c', d', e') \<Rightarrow> (trim (a + a'), trim (b + b'), trim (c + c'), trim (d + d'), trim (e + e')))"
  by (simp add: sha1_compress_def Let_def trim_id)

lemma sha256_eval:
  "sha256_compress (a, b, c, d, e, f, g, h) ws =
     (case foldl sha256_round (a, b, c, d, e, f, g, h) (zip sha256_k (extend sha256_next 48 ws)) of
        (a', b', c', d', e', f', g', h') \<Rightarrow>
          (trim (a + a'), trim (b + b'), trim (c + c'), trim (d + d'),
           trim (e + e'), trim (f + f'), trim (g + g'), trim (h + h')))"
  by (simp add: sha256_compress_def trim_id)

lemma one_chunk: "length b = n \<Longrightarrow> 0 < n \<Longrightarrow> chunks n b = [b]"
  using chunks_append [of b n "[]"] by simp

definition abc_block :: bytes where
  "abc_block = [0x61, 0x62, 0x63, 0x80, 0, 0, 0, 0, 0, 0, 0, 0, 0, 0, 0, 0, 0, 0, 0, 0, 0, 0, 0, 0, 0, 0, 0, 0, 0, 0, 0, 0,
    0, 0, 0, 0, 0, 0, 0, 0, 0, 0, 0, 0, 0, 0, 0, 0, 0, 0, 0, 0, 0, 0, 0, 0, 0, 0, 0, 0, 0, 0, 0, 24]"

lemma replicate_step: "replicate (numeral k) x = x # replicate (pred_numeral k) x"
  by (simp add: numeral_eq_Suc)

lemma abc_chunks: "chunks 64 (md_pad [0x61, 0x62, 0x63]) = [abc_block]"
proof -
  have "put64 24 = [0, 0, 0, 0, 0, 0, 0, 24]" by (simp add: put64_def)
  then have "md_pad [0x61, 0x62, 0x63] = abc_block" by (simp add: md_pad_def abc_block_def replicate_step)
  then show ?thesis by (simp add: one_chunk abc_block_def)
qed

lemma abc_words: "words32 abc_block = [0x61626380, 0, 0, 0, 0, 0, 0, 0, 0, 0, 0, 0, 0, 0, 0, 24]"
  by (simp add: abc_block_def)

section \<open>Digests\<close>

lemma sha1_abc:
  "sha1 [0x61, 0x62, 0x63] =
     [0xa9, 0x99, 0x3e, 0x36, 0x47, 0x06, 0x81, 0x6a, 0xba, 0x3e, 0x25, 0x71, 0x78, 0x50, 0xc2, 0x6c, 0x9c, 0xd0, 0xd8, 0x9d]"
proof -
  have "sha1_compress sha1_init [0x61626380, 0, 0, 0, 0, 0, 0, 0, 0, 0, 0, 0, 0, 0, 0, 24] =
      (0xa9993e36, 0x4706816a, 0xba3e2571, 0x7850c26c, 0x9cd0d89d)"
    by (simp add: sha1_init_def sha1_eval sha1_step sha1_f_def sha1_k_def sha_eval upt_rec)
  then show ?thesis by (simp add: sha1_def digest_def abc_chunks abc_words bytes32_def)
qed

lemma sha256_abc:
  "sha256 [0x61, 0x62, 0x63] =
     [0xba, 0x78, 0x16, 0xbf, 0x8f, 0x01, 0xcf, 0xea, 0x41, 0x41, 0x40, 0xde, 0x5d, 0xae, 0x22, 0x23,
      0xb0, 0x03, 0x61, 0xa3, 0x96, 0x17, 0x7a, 0x9c, 0xb4, 0x10, 0xff, 0x61, 0xf2, 0x00, 0x15, 0xad]"
proof -
  have "sha256_compress sha256_init [0x61626380, 0, 0, 0, 0, 0, 0, 0, 0, 0, 0, 0, 0, 0, 0, 24] =
      (0xba7816bf, 0x8f01cfea, 0x414140de, 0x5dae2223, 0xb00361a3, 0x96177a9c, 0xb410ff61, 0xf20015ad)"
    by (simp add: sha256_init_def sha256_eval sha256_step sha256_next_def sha256_k_def eight_words_def upt_rec sha_eval Let_def)
  then show ?thesis by (simp add: sha256_def digest_def abc_chunks abc_words bytes32_def)
qed

section \<open>AES\<close>

lemma all_bytes:
  assumes "list_all (\<lambda>n. P (of_nat n)) [0..<256]"
  shows "P (b :: byte)"
proof -
  have "P (of_nat (unat b))"
    using assms unat_byte_less [of b] by (auto simp only: list_all_iff set_upt atLeastLessThan_iff)
  then show ?thesis by simp
qed

lemma xt_eval: "xt b = (if b < 128 then b + b else xor (and (b + b) 0xff) 0x1b)"
  by (rule all_bytes) code_simp

lemma expand_step:
  "expand_key nk (numeral k) i ws =
     expand_key nk (pred_numeral k) (Suc i) (ws @ [xor_bytes (ws ! (i - nk)) (key_core nk i (ws ! (i - 1)))])"
  by (simp add: numeral_eq_Suc)

lemmas aes_eval = sub_byte_def sbox_def xor_bytes_def key_core_def x2_def x3_def xt_eval [of 0] xt_eval [of 1] xt_eval [of "numeral w" for w] xor4_def shift_rows_def permute_def

lemma chunks_step: "0 < n \<Longrightarrow> xs \<noteq> [] \<Longrightarrow> chunks n xs = take n xs # chunks n (drop n xs)"
  by (subst chunks.simps) simp

lemma pow_step: "(f ^^ numeral k) x = f ((f ^^ pred_numeral k) x)"
  by (simp add: numeral_eq_Suc)

definition fips_key :: bytes where
  "fips_key = [0x00, 0x01, 0x02, 0x03, 0x04, 0x05, 0x06, 0x07, 0x08, 0x09, 0x0a, 0x0b, 0x0c, 0x0d, 0x0e, 0x0f]"

lemma fips_round_keys:
  "round_keys fips_key =
    [[0x00, 0x01, 0x02, 0x03, 0x04, 0x05, 0x06, 0x07, 0x08, 0x09, 0x0a, 0x0b, 0x0c, 0x0d, 0x0e, 0x0f],
     [0xd6, 0xaa, 0x74, 0xfd, 0xd2, 0xaf, 0x72, 0xfa, 0xda, 0xa6, 0x78, 0xf1, 0xd6, 0xab, 0x76, 0xfe],
     [0xb6, 0x92, 0xcf, 0x0b, 0x64, 0x3d, 0xbd, 0xf1, 0xbe, 0x9b, 0xc5, 0x00, 0x68, 0x30, 0xb3, 0xfe],
     [0xb6, 0xff, 0x74, 0x4e, 0xd2, 0xc2, 0xc9, 0xbf, 0x6c, 0x59, 0x0c, 0xbf, 0x04, 0x69, 0xbf, 0x41],
     [0x47, 0xf7, 0xf7, 0xbc, 0x95, 0x35, 0x3e, 0x03, 0xf9, 0x6c, 0x32, 0xbc, 0xfd, 0x05, 0x8d, 0xfd],
     [0x3c, 0xaa, 0xa3, 0xe8, 0xa9, 0x9f, 0x9d, 0xeb, 0x50, 0xf3, 0xaf, 0x57, 0xad, 0xf6, 0x22, 0xaa],
     [0x5e, 0x39, 0x0f, 0x7d, 0xf7, 0xa6, 0x92, 0x96, 0xa7, 0x55, 0x3d, 0xc1, 0x0a, 0xa3, 0x1f, 0x6b],
     [0x14, 0xf9, 0x70, 0x1a, 0xe3, 0x5f, 0xe2, 0x8c, 0x44, 0x0a, 0xdf, 0x4d, 0x4e, 0xa9, 0xc0, 0x26],
     [0x47, 0x43, 0x87, 0x35, 0xa4, 0x1c, 0x65, 0xb9, 0xe0, 0x16, 0xba, 0xf4, 0xae, 0xbf, 0x7a, 0xd2],
     [0x54, 0x99, 0x32, 0xd1, 0xf0, 0x85, 0x57, 0x68, 0x10, 0x93, 0xed, 0x9c, 0xbe, 0x2c, 0x97, 0x4e],
     [0x13, 0x11, 0x1d, 0x7f, 0xe3, 0x94, 0x4a, 0x17, 0xf3, 0x07, 0xa7, 0x8b, 0x4d, 0x2b, 0x30, 0xc5]]"
  by (simp add: round_keys_def rounds_def fips_key_def expand_step pow_step chunks_step aes_eval)

lemma fips_aes128:
  "aes_encrypt fips_key
     [0x00, 0x11, 0x22, 0x33, 0x44, 0x55, 0x66, 0x77, 0x88, 0x99, 0xaa, 0xbb, 0xcc, 0xdd, 0xee, 0xff] =
     [0x69, 0xc4, 0xe0, 0xd8, 0x6a, 0x7b, 0x04, 0x30, 0xd8, 0xcd, 0xb7, 0x80, 0x70, 0xb4, 0xc5, 0x5a]"
  by (simp add: aes_encrypt_def aes_encrypt_with_def fips_round_keys aes_round_def aes_last_def aes_eval)

end
