(* ===== verification/Spec2Isabelle.thy ===== *)
theory Spec2Isabelle
  imports Console History CbcServer UnitTests KnownAnswers
begin

text \<open>
  The verification development of tlsscan, a TLS configuration scanner written in Go.

  \<^bold>\<open>The program.\<close> \<open>Scan\<close> (pkg/tlsscan/scanner.go) checks its target with \<open>guardTarget\<close> (guard.go), finds
  the protocol versions by handshakes at each version and by raw SSLv3 and SSLv2 hellos
  (internal/handshake/legacy.go), fetches and analyses the certificate, enumerates cipher suites
  (ciphers.go), runs the vulnerability probes (vulns.go), and rates what it found (rating.go). The probes
  are record-level clients: Heartbleed (internal/vulns/heartbleed.go); export suites, fallback
  signalling and renegotiation (internal/handshake/probes.go); ROBOT (robot.go); and the CBC padding
  oracles (cbc_oracle.go), which drive a hand-written TLS 1.2 CBC client (cbc.go). Two programs wrap the
  library: cmd/headerforge-tls (HTTP) and cmd/tlsscan (console).

  \<^bold>\<open>The environment.\<close> \<open>Net\<close> models what the code uses of Go's \<open>net\<close>, \<open>time\<close>, \<open>context\<close> and \<open>crypto/rand\<close>: a
  \<open>world\<close> (clock, what each successive dial meets, random source, number of open connections) and a
  \<open>conn\<close> whose peer is an arbitrary function from what was written to timed segments of data. Reads
  split and join segments as TCP does; deadlines cut them off. \<open>Probing\<close> holds the bracket all probes
  share (dial, deadline, work, close) and the contracts \<open>conn_body\<close> and \<open>net_op\<close> (locales), from which
  the resource bounds of every probe follow; \<open>stops\<close> is the bound that a context gives. \<open>Steps\<close> is the
  little monad of the CBC client (each step may fail, or panic) with its contract \<open>step_op\<close>. \<open>Offline\<close>
  says what operations answer where no dial can succeed. \<open>Tls\<close> has the parts of crypto/tls and
  crypto/x509 the scan reads, with the handshake itself as a parameter under \<open>tls_contract\<close>.

  \<^bold>\<open>The theories.\<close> \<open>Prelude\<close>: bytes, big-endian integers, checked indexing (a panic is \<open>None\<close>), substring
  search, durations and \<open>wrap64\<close>. \<open>Records\<close>: constants, record and handshake framing (locale
  \<open>record_framing\<close>, interpreted for the three wrappers). \<open>Handshake\<close>: the message reader \<open>hsReader\<close> of
  cbc.go. \<open>Hello\<close>: every ClientHello, with strict parsers that read them back. \<open>Legacy\<close>, \<open>Probes\<close>,
  \<open>Renegotiation\<close>, \<open>Heartbleed\<close>: one theory per group of probes, each with the exact condition on the
  server's byte stream under which it answers true, for any split of the stream into segments.
  \<open>Pkcs1\<close>: the ROBOT plaintexts against a PKCS#1 v1.5 decoder and textbook RSA. \<open>Stable\<close>: the loop
  that demands reproducible reactions, as a locale over the reaction type, interpreted in \<open>Robot\<close> and
  \<open>CbcOracle\<close>. \<open>Crypto\<close> and \<open>Aes\<close>: SHA-1, SHA-256, HMAC, AES and CBC mode, concrete, with the laws the
  client needs as the locales \<open>hash_function\<close> and \<open>block_cipher\<close>. \<open>Cbc\<close>: key derivation, MAC, padding and
  records of cbc.go with a reference receiver, whose MAC and padding rules are written after RFC 5246 and
  not after the client. \<open>CbcSession\<close>: \<open>establishCBCSession\<close>, and what a session it establishes consists of:
  the key exchange with the point and the key that were read, keys, sequence numbers, transcript.
  \<open>CbcOracle\<close>: the padding-oracle probe. \<open>Quick\<close>, \<open>CbcServer\<close> and \<open>RobotServer\<close>: servers that answer at
  once, by a policy over what they find in a record or in an RSA block, against which the two oracle
  probes are run as a whole; those of \<open>CbcServer\<close> have any suite of the probe, any certificate, flight and
  randomness, and a key exchange of which only \<open>key_agreement\<close> is assumed, that both sides get the same secret. \<open>Types\<close>: types.go, with grades as a linear order. \<open>Rating\<close>: \<open>rate\<close>. \<open>Guard\<close>:
  \<open>guardTarget\<close> with Go's address parser, and which name it hands to the resolver. \<open>Ciphers\<close>, \<open>Vulns\<close>: the enumeration and the vulnerability layer.
  \<open>Clock\<close>: \<open>time.Until\<close> and \<open>Duration.Hours\<close> with the roundings of \<open>float64\<close>. \<open>Scanner\<close>: \<open>Scan\<close>,
  which first waits for the guard's lookup and then dials one address. \<open>Published\<close>:
  the well-formedness of results.

  \<^bold>\<open>The two programs.\<close> \<open>Json\<close> is the document of a result with a reader; \<open>Decimal\<close>, \<open>Quoting\<close> and \<open>JsonText\<close>
  are its text as \<open>encoding/json\<close> prints it (the two layouts are interpretations of one locale) and a
  decoder with the library's token and nesting rules; \<open>Wire\<close> puts them together and decodes requests;
  \<open>Mux\<close> is the multiplexer of net/http with the two registered patterns and its redirects to clean paths;
  \<open>Service\<close> is cmd/headerforge-tls/main.go, \<open>handleScan\<close> (which waits for the body of the request) and the
  routes, and \<open>History\<close> its life as a step relation, in which requests arrive, overlap and end, with a
  specification of the single outcome. \<open>Flags\<close> is the command line as
  \<open>flag\<close>, \<open>strconv\<close> and \<open>time.ParseDuration\<close> take it apart, \<open>Console\<close> is cmd/tlsscan/main.go.

  \<^bold>\<open>Validation.\<close> \<open>UnitTests\<close> proves of the model what the repository's tests without network assert of the
  code; \<open>KnownAnswers\<close> computes the FIPS examples of SHA-1, SHA-256 and AES-128 from the definitions.

  \<^bold>\<open>Conventions.\<close> Go functions keep their names. A struct is a record, an enumeration a datatype, an
  \<open>error\<close> the left side of a sum or \<open>None\<close> of an option, a run-time panic an outer \<open>None\<close>. Instants and
  durations are nanoseconds in \<open>int\<close>; where Go's 64-bit arithmetic can overflow, the wrap-around is
  written out. Bytes are \<open>8 word\<close>, sequence numbers \<open>64 word\<close>.

  \<^bold>\<open>What is shown.\<close> For the scan: every connection is closed, explicit time bounds from the end of the guard's lookup on
  (the lookup itself has no bound in the code, and none here), no panic without the vulnerability probes,
  published rating equal to \<open>rate\<close> of the published result, nothing dialled for a refused target and one
  address for any other. For the rating: one closed formula for the grade, and with it that the caps work
  the wrong way round. For a published result: it is well formed, and its text is lossless. For the
  programs: statuses and exit codes, from the text of a request or a command line to the text of the
  answer, and what is invariant over any history of overlapping requests. For each probe: when exactly it answers true, and what a positive answer rests
  on. For the two oracle probes also which servers they report: the ROBOT probe exactly those whose
  reaction to a good block is unlike the others, the padding-oracle probe no padding oracle at all.
  For the CBC client: it is a correct TLS 1.2 client (PRF, records, handshake), and what its
  stimuli really are. For the guard: exactly which addresses are refused. Several theorems state
  behaviour that contradicts the code's comments; they say so in their text.

  \<^bold>\<open>Termination.\<close> The read loops are recursive functions whose measure is the number of bytes still
  needed or still in the queue, the readers of text (JSON, flags) consume their input;
  \<open>readServerHelloAndCert\<close> and \<open>expectServerFinished\<close> have the fuel the code's own loop bounds give them
  (every call is total). No other fuel is used.

  \<^bold>\<open>Parameters.\<close> The resolver with the time it takes for a name, what dials to an address meet, the crypto/tls
  handshake, x509 parsing and verification, elliptic-curve and RSA key exchange of Go's libraries, the
  text of instants (\<open>time.Time\<close>) and addresses (\<open>net.IP\<close>), and the iteration order of the cipher map.

  \<^bold>\<open>Not modelled.\<close> Sockets, the accept loop and the parsing of request heads in net/http, the headers and the
  HTML of its redirects, and what it does with the rest of a body after the answer; the letters and
  spaces beyond ASCII in \<open>ToLower\<close> and \<open>TrimSpace\<close> of the guard, whose tables are Unicode's; the line the
  flag package writes before the usage of a bad flag; and the tests that need the network. Requests
  share no state of the program, so each has its own view of the world: its dials, its random source
  and its clock. A probe's parameter \<open>addr\<close> is not repeated in the model of each probe: \<open>Scan\<close> fixes the
  network its dials meet to that of the one address.
\<close>

end
